(* ===== verification/Prelude.thy ===== *)
theory Prelude
  imports Main "HOL-Library.Monad_Syntax" "HOL-Library.AList"
begin

text \<open>
  Shared vocabulary of the development: the machine integers of the Rust code, its panics, and
  the few library operations (hash maps, slices, \<open>clamp\<close>) that several components use.

  A Rust \<open>u64\<close> or \<open>usize\<close> (64-bit targets) is a \<open>nat\<close>. An addition that may leave the range
  is \<open>uadd\<close>, whose result \<open>None\<close> is the overflow panic; a subtraction appears only behind the
  guard that the code has, or as the \<open>saturating_sub\<close> that the code calls. In all functions of
  the model that return an \<open>option\<close> at the outermost level, \<open>None\<close> stands for a panic.
\<close>

subsection \<open>Hints and case splits shared by the component proofs\<close>

named_theorems panic_simps \<open>unfolding the panic monad and the machine operations\<close>

lemmas monad_splits = Option.bind_splits if_splits option.splits prod.splits

lemma bind_Some_iff [panic_simps]:
  "(Option.bind m f = Some y) = (\<exists>x. m = Some x \<and> f x = Some y)"
  by (cases m) auto

lemma bind_None_iff: "(Option.bind m f = None) = (m = None \<or> (\<exists>x. m = Some x \<and> f x = None))"
  by (cases m) auto

subsection \<open>Machine integers\<close>

definition u64_limit :: nat where
  "u64_limit = 2 ^ 64"

definition u64_max :: nat where
  "u64_max = u64_limit - 1"

definition uadd :: "nat \<Rightarrow> nat \<Rightarrow> nat option" where
  "uadd a b = (if a + b < u64_limit then Some (a + b) else None)"

lemma u64_limit_pos [simp]: "0 < u64_limit"
  by (simp add: u64_limit_def)

lemma uadd_Some_iff [panic_simps]: "(uadd a b = Some c) = (c = a + b \<and> a + b < u64_limit)"
  by (auto simp: uadd_def)

lemma uadd_None_iff: "(uadd a b = None) = (u64_limit \<le> a + b)"
  by (auto simp: uadd_def)

lemma uadd_eq [simp]: "a + b < u64_limit \<Longrightarrow> uadd a b = Some (a + b)"
  by (simp add: uadd_def)

text \<open>\<open>Ord::clamp\<close> panics when the bounds are in the wrong order.\<close>

definition uclamp :: "nat \<Rightarrow> nat \<Rightarrow> nat \<Rightarrow> nat option" where
  "uclamp x lo hi = (if lo \<le> hi then Some (max lo (min x hi)) else None)"

lemma uclamp_Some_iff [panic_simps]:
  "(uclamp x lo hi = Some y) = (lo \<le> hi \<and> y = max lo (min x hi))"
  by (auto simp: uclamp_def)

subsection \<open>Slices\<close>

text \<open>\<open>&v[i]\<close>, \<open>&v[i..]\<close>, \<open>&v[i..=j]\<close> and \<open>v.drain(0..k)\<close> with their range checks.\<close>

definition vec_index :: "'a list \<Rightarrow> nat \<Rightarrow> 'a option" where
  "vec_index xs i = (if i < length xs then Some (xs ! i) else None)"

definition slice_from :: "'a list \<Rightarrow> nat \<Rightarrow> 'a list option" where
  "slice_from xs i = (if i \<le> length xs then Some (drop i xs) else None)"

definition slice_incl :: "'a list \<Rightarrow> nat \<Rightarrow> nat \<Rightarrow> 'a list option" where
  "slice_incl xs i j = (if i \<le> j + 1 \<and> j < length xs then Some (take (j + 1 - i) (drop i xs)) else None)"

definition drain_front :: "'a list \<Rightarrow> nat \<Rightarrow> 'a list option" where
  "drain_front xs k = (if k \<le> length xs then Some (drop k xs) else None)"

lemma vec_index_Some_iff [panic_simps]: "(vec_index xs i = Some x) = (i < length xs \<and> x = xs ! i)"
  by (auto simp: vec_index_def)

lemma slice_from_Some_iff [panic_simps]: "(slice_from xs i = Some ys) = (i \<le> length xs \<and> ys = drop i xs)"
  by (auto simp: slice_from_def)

lemma slice_incl_Some_iff [panic_simps]:
  "(slice_incl xs i j = Some ys) = (i \<le> j + 1 \<and> j < length xs \<and> ys = take (j + 1 - i) (drop i xs))"
  by (auto simp: slice_incl_def)

lemma drain_front_Some_iff [panic_simps]:
  "(drain_front xs k = Some ys) = (k \<le> length xs \<and> ys = drop k xs)"
  by (auto simp: drain_front_def)

subsection \<open>Hash maps\<close>

text \<open>
  A \<open>HashMap\<close> is an association list with one entry per key. \<open>hm_insert\<close> replaces the value of
  a present key and otherwise adds the key at the end. The order of the list stands for the
  iteration order, which Rust leaves open; no statement depends on it.
\<close>

type_synonym ('k, 'v) hash_map = "('k \<times> 'v) list"

fun hm_insert :: "'k \<Rightarrow> 'v \<Rightarrow> ('k, 'v) hash_map \<Rightarrow> ('k, 'v) hash_map" where
  "hm_insert k v [] = [(k, v)]"
| "hm_insert k v ((k', v') # m) = (if k' = k then (k, v) # m else (k', v') # hm_insert k v m)"

definition hm_get :: "('k, 'v) hash_map \<Rightarrow> 'k \<Rightarrow> 'v option" where
  "hm_get m k = map_of m k"

definition hm_values :: "('k, 'v) hash_map \<Rightarrow> 'v list" where
  "hm_values m = map snd m"

definition hm_keys :: "('k, 'v) hash_map \<Rightarrow> 'k list" where
  "hm_keys m = map fst m"

definition hm_ok :: "('k, 'v) hash_map \<Rightarrow> bool" where
  "hm_ok m \<longleftrightarrow> distinct (map fst m)"

lemma hm_get_Nil [simp]: "hm_get [] k = None"
  by (simp add: hm_get_def)

lemma hm_get_Cons [simp]: "hm_get ((k, v) # m) k' = (if k' = k then Some v else hm_get m k')"
  by (auto simp: hm_get_def)

lemma hm_get_insert [simp]: "hm_get (hm_insert k v m) k' = (if k' = k then Some v else hm_get m k')"
  by (induction k v m rule: hm_insert.induct) auto

lemma set_keys_insert [simp]: "fst ` set (hm_insert k v m) = insert k (fst ` set m)"
  by (induction k v m rule: hm_insert.induct) auto

lemma hm_ok_Nil [simp]: "hm_ok []"
  by (simp add: hm_ok_def)

lemma hm_ok_single [simp]: "hm_ok [(k, v)]"
  by (simp add: hm_ok_def)

lemma hm_ok_insert [simp]: "hm_ok m \<Longrightarrow> hm_ok (hm_insert k v m)"
  unfolding hm_ok_def by (induction k v m rule: hm_insert.induct) auto

text \<open>Counting the values that pass a test is counting the keys whose value passes it.\<close>

lemma count_values_eq_card:
  assumes "hm_ok m"
  shows "length (filter P (hm_values m)) = card {k. \<exists>v. hm_get m k = Some v \<and> P v}"
proof -
  have "distinct (map fst m)" using assms by (simp add: hm_ok_def)
  moreover from this have "{k. \<exists>v. hm_get m k = Some v \<and> P v} = fst ` set (filter (P \<circ> snd) m)"
    by (force simp: hm_get_def map_of_eq_Some_iff image_iff)
  moreover have "distinct (map fst (filter (P \<circ> snd) m))"
    using calculation(1) by (rule distinct_map_filter)
  ultimately show ?thesis
    by (metis comp_apply distinct_card filter_map hm_values_def length_map list.set_map)
qed

end
