(* ===== verification/Types.thy ===== *)
theory Types
  imports Prelude
begin

text \<open>
  The data of \<open>raftust-core/src/types.rs\<close> and \<open>raftust-core/src/communication.rs\<close>: log entries,
  the Raft messages, the messages a node asks its runner to send, and the outcome and error types
  of the transport. A Rust string is the list of its Unicode code points, a byte vector the list
  of its bytes. A struct field \<open>f\<close> carries the initials of its struct as a prefix, since several
  structs share field names.
\<close>

type_synonym node_id = nat
type_synonym term_no = nat
type_synonym str = "nat list"
type_synonym bytes = "nat list"

text \<open>A string literal of the source.\<close>

definition lit :: "string \<Rightarrow> str" where
  "lit s = map of_char s"

record log_entry =
  le_term :: term_no
  le_command :: str

datatype role = Follower | Candidate | Leader

record request_vote =
  rv_term :: term_no
  rv_candidate_id :: node_id
  rv_last_log_index :: nat
  rv_last_log_term :: term_no

record request_vote_response =
  rvr_term :: term_no
  rvr_vote_granted :: bool
  rvr_from :: node_id

record append_entries =
  ae_term :: term_no
  ae_leader_id :: node_id
  ae_prev_log_index :: nat
  ae_prev_log_term :: term_no
  ae_entries :: "log_entry list"
  ae_leader_commit :: nat

record append_entries_response =
  aer_term :: term_no
  aer_success :: bool
  aer_from :: node_id
  aer_match_index :: nat

record install_snapshot =
  is_term :: term_no
  is_leader_id :: node_id
  is_last_included_index :: nat
  is_last_included_term :: term_no
  is_data :: bytes

record install_snapshot_response =
  isr_term :: term_no
  isr_from :: node_id
  isr_success :: bool

datatype outbound_message =
    OutRequestVote node_id request_vote
  | OutAppendEntries node_id append_entries

datatype raft_message =
    RequestVote request_vote
  | RequestVoteResponse request_vote_response
  | AppendEntries append_entries
  | AppendEntriesResponse append_entries_response
  | InstallSnapshot install_snapshot
  | InstallSnapshotResponse install_snapshot_response

record inbound_message =
  im_from :: node_id
  im_message :: raft_message

datatype send_outcome = Sent | Dropped str

datatype communication_error =
    NotStarted
  | Disconnected
  | PeerNotConfigured node_id
  | Other str

end
