(* ===== verification/Node.thy ===== *)
theory Node
  imports Types
begin

text \<open>
  The consensus core, \<open>raftust-core/src/node.rs\<close>: the state of one Raft node and its operations,
  in the order of the source. Every operation takes the node and returns the updated node with
  its result; the outer \<open>option\<close> is \<open>None\<close> when the operation panics (an overflowing addition, a
  failed \<open>assert!\<close>, a slice out of range, an empty random range).

  \<open>rand::thread_rng\<close> is not part of the repository. Its \<open>gen_range\<close> is the parameter \<open>rng\<close>:
  \<open>rng k lo hi\<close> is what the \<open>k\<close>-th draw returns for the range \<open>lo..=hi\<close>. The field \<open>rng_draws\<close>
  counts the timeouts chosen so far and stands for the state of the generator; with equal bounds the
  code draws no number, and counting that as well only renames the later draws.
\<close>

type_synonym gen_range = "nat \<Rightarrow> nat \<Rightarrow> nat \<Rightarrow> nat"

record raft_node =
  nid :: node_id
  peers :: "node_id list"
  current_term :: term_no
  voted_for :: "node_id option"
  log :: "log_entry list"
  snapshot_last_included_index :: nat
  snapshot_last_included_term :: term_no
  commit_index :: nat
  last_applied :: nat
  role :: role
  leader_id :: "node_id option"
  leader_next_index :: "(node_id, nat) hash_map"
  leader_match_index :: "(node_id, nat) hash_map"
  votes_received :: "node_id set"
  election_elapsed :: nat
  election_timeout_min :: nat
  election_timeout_max :: nat
  current_election_timeout :: nat
  heartbeat_elapsed :: nat
  heartbeat_interval :: nat
  rng_draws :: nat

subsection \<open>Log positions\<close>

definition last_log_index :: "raft_node \<Rightarrow> nat option" where
  "last_log_index n = uadd (snapshot_last_included_index n) (length (log n))"

definition offset_for_index :: "raft_node \<Rightarrow> nat \<Rightarrow> nat option" where
  "offset_for_index n index =
     (if index \<le> snapshot_last_included_index n then None
      else let offset = index - snapshot_last_included_index n - 1
           in if offset < length (log n) then Some offset else None)"

definition term_at :: "raft_node \<Rightarrow> nat \<Rightarrow> term_no option" where
  "term_at n index =
     (if index = snapshot_last_included_index n then Some (snapshot_last_included_term n)
      else map_option (\<lambda>offset. le_term (log n ! offset)) (offset_for_index n index))"

definition last_log_info :: "raft_node \<Rightarrow> (nat \<times> term_no) option" where
  "last_log_info n = do {
     index \<leftarrow> last_log_index n;
     Some (index, case term_at n index of Some t \<Rightarrow> t | None \<Rightarrow> 0)
   }"

definition majority :: "raft_node \<Rightarrow> nat" where
  "majority n = (length (peers n) + 1) div 2 + 1"

subsection \<open>Construction and election timeouts\<close>

definition sample_election_timeout :: "gen_range \<Rightarrow> nat \<Rightarrow> nat \<Rightarrow> nat \<Rightarrow> nat option" where
  "sample_election_timeout rng k min_ticks max_ticks =
     (if min_ticks = max_ticks then Some min_ticks
      else if max_ticks < min_ticks then None
      else Some (rng k min_ticks max_ticks))"

text \<open>The assignment \<open>self.current_election_timeout = Self::sample_election_timeout(..)\<close>.\<close>

definition resample_timeout :: "gen_range \<Rightarrow> raft_node \<Rightarrow> raft_node option" where
  "resample_timeout rng n = do {
     t \<leftarrow> sample_election_timeout rng (rng_draws n) (election_timeout_min n) (election_timeout_max n);
     Some (n\<lparr>current_election_timeout := t, rng_draws := Suc (rng_draws n)\<rparr>)
   }"

definition new_node :: "gen_range \<Rightarrow> nat \<Rightarrow> node_id \<Rightarrow> node_id list \<Rightarrow> nat \<Rightarrow> nat \<Rightarrow> nat \<Rightarrow> raft_node option" where
  "new_node rng k i ps tmin tmax hb =
     (if \<not> 0 < tmin then None
      else if \<not> tmin \<le> tmax then None
      else do {
        t \<leftarrow> sample_election_timeout rng k tmin tmax;
        Some \<lparr>nid = i, peers = ps, current_term = 0, voted_for = None, log = [],
              snapshot_last_included_index = 0, snapshot_last_included_term = 0,
              commit_index = 0, last_applied = 0, role = Follower, leader_id = None,
              leader_next_index = [], leader_match_index = [], votes_received = {},
              election_elapsed = 0, election_timeout_min = tmin, election_timeout_max = tmax,
              current_election_timeout = t, heartbeat_elapsed = 0, heartbeat_interval = hb,
              rng_draws = Suc k\<rparr>
      })"

subsection \<open>Role changes\<close>

definition become_follower :: "gen_range \<Rightarrow> term_no \<Rightarrow> node_id option \<Rightarrow> raft_node \<Rightarrow> raft_node option" where
  "become_follower rng t leader n = do {
     n \<leftarrow> resample_timeout rng
            (n\<lparr>role := Follower, current_term := t, voted_for := None, votes_received := {},
               leader_next_index := [], leader_match_index := [], election_elapsed := 0\<rparr>);
     Some (n\<lparr>heartbeat_elapsed := 0, leader_id := leader\<rparr>)
   }"

definition become_leader :: "raft_node \<Rightarrow> raft_node option" where
  "become_leader n = do {
     let n = n\<lparr>role := Leader, leader_id := Some (nid n), heartbeat_elapsed := 0,
               leader_next_index := [], leader_match_index := []\<rparr>;
     last \<leftarrow> last_log_index n;
     let n = n\<lparr>leader_match_index := hm_insert (nid n) last (leader_match_index n)\<rparr>;
     next \<leftarrow> uadd last 1;
     Some (fold (\<lambda>peer n.
              n\<lparr>leader_next_index := hm_insert peer next (leader_next_index n),
                leader_match_index :=
                  hm_insert peer (snapshot_last_included_index n) (leader_match_index n)\<rparr>)
            (peers n) n)
   }"

definition start_election :: "gen_range \<Rightarrow> raft_node \<Rightarrow> (raft_node \<times> outbound_message list) option" where
  "start_election rng n = do {
     t \<leftarrow> uadd (current_term n) 1;
     n \<leftarrow> resample_timeout rng
            (n\<lparr>role := Candidate, current_term := t, voted_for := Some (nid n), leader_id := None,
               election_elapsed := 0\<rparr>);
     let n = n\<lparr>votes_received := {nid n}\<rparr>;
     (last_index, last_term) \<leftarrow> last_log_info n;
     Some (n, map (\<lambda>peer. OutRequestVote peer
                \<lparr>rv_term = current_term n, rv_candidate_id = nid n,
                 rv_last_log_index = last_index, rv_last_log_term = last_term\<rparr>) (peers n))
   }"

subsection \<open>Replication messages of a leader\<close>

text \<open>
  The Rust function returns an \<open>Option\<close> of its own (no message for this peer): the inner \<open>option\<close>.
\<close>

definition build_append_entries_for_peer :: "raft_node \<Rightarrow> node_id \<Rightarrow> append_entries option option" where
  "build_append_entries_for_peer n peer =
     (let next_idx = (case hm_get (leader_next_index n) peer of Some i \<Rightarrow> i | None \<Rightarrow> 1) in
      if next_idx \<le> snapshot_last_included_index n then Some None
      else let prev_log_index = next_idx - 1 in
      (case term_at n prev_log_index of
         None \<Rightarrow> Some None
       | Some prev_log_term \<Rightarrow> do {
           last \<leftarrow> last_log_index n;
           entries \<leftarrow>
             (if next_idx = 0 \<or> next_idx > last then Some (Some [])
              else case offset_for_index n next_idx of
                     None \<Rightarrow> Some None
                   | Some offset \<Rightarrow> map_option Some (slice_from (log n) offset));
           Some (map_option (\<lambda>es.
             \<lparr>ae_term = current_term n, ae_leader_id = nid n, ae_prev_log_index = prev_log_index,
              ae_prev_log_term = prev_log_term, ae_entries = es,
              ae_leader_commit = commit_index n\<rparr>) entries)
         }))"

fun build_messages_for :: "raft_node \<Rightarrow> node_id list \<Rightarrow> outbound_message list option" where
  "build_messages_for n [] = Some []"
| "build_messages_for n (peer # ps) = do {
     m \<leftarrow> build_append_entries_for_peer n peer;
     ms \<leftarrow> build_messages_for n ps;
     Some (case m of None \<Rightarrow> ms | Some message \<Rightarrow> OutAppendEntries peer message # ms)
   }"

definition build_heartbeat_messages :: "raft_node \<Rightarrow> outbound_message list option" where
  "build_heartbeat_messages n = build_messages_for n (peers n)"

subsection \<open>Commit index, application, compaction, restore\<close>

definition commit_to :: "nat \<Rightarrow> raft_node \<Rightarrow> raft_node option" where
  "commit_to new_commit_index n = do {
     let min_commit = snapshot_last_included_index n;
     max_commit \<leftarrow> last_log_index n;
     c \<leftarrow> uclamp new_commit_index min_commit max_commit;
     Some (n\<lparr>commit_index := c\<rparr>)
   }"

definition take_unapplied_entries :: "raft_node \<Rightarrow> (raft_node \<times> log_entry list) option" where
  "take_unapplied_entries n = do {
     let n = (if last_applied n < snapshot_last_included_index n
              then n\<lparr>last_applied := snapshot_last_included_index n\<rparr> else n);
     last \<leftarrow> last_log_index n;
     let end_idx = min (commit_index n) last;
     if last_applied n \<ge> end_idx then Some (n, [])
     else do {
       start_idx \<leftarrow> uadd (last_applied n) 1;
       (case offset_for_index n start_idx of
          None \<Rightarrow> Some (n, [])
        | Some start_offset \<Rightarrow>
            (case offset_for_index n end_idx of
               None \<Rightarrow> Some (n, [])
             | Some end_offset_inclusive \<Rightarrow> do {
                 entries \<leftarrow> slice_incl (log n) start_offset end_offset_inclusive;
                 Some (n\<lparr>last_applied := end_idx\<rparr>, entries)
               }))
     }
   }"

definition compact_committed :: "raft_node \<Rightarrow> (raft_node \<times> bool) option" where
  "compact_committed n =
     (let target_index = commit_index n in
      if target_index \<le> snapshot_last_included_index n then Some (n, False)
      else case term_at n target_index of
        None \<Rightarrow> Some (n, False)
      | Some target_term \<Rightarrow> do {
          let remove_count = min (target_index - snapshot_last_included_index n) (length (log n));
          rest \<leftarrow> drain_front (log n) remove_count;
          let n = n\<lparr>log := rest, snapshot_last_included_index := target_index,
                    snapshot_last_included_term := target_term\<rparr>;
          Some (if last_applied n < target_index then n\<lparr>last_applied := target_index\<rparr> else n, True)
        })"

definition restore_from_storage ::
  "term_no \<Rightarrow> node_id option \<Rightarrow> log_entry list \<Rightarrow> nat \<Rightarrow> nat \<Rightarrow> term_no \<Rightarrow> raft_node \<Rightarrow> raft_node option" where
  "restore_from_storage t vote entries commit included_index included_term n = do {
     let n = n\<lparr>current_term := t, voted_for := vote, log := entries,
               snapshot_last_included_index := included_index,
               snapshot_last_included_term := included_term, role := Follower, leader_id := None,
               votes_received := {}, leader_next_index := [], leader_match_index := [],
               election_elapsed := 0, heartbeat_elapsed := 0\<rparr>;
     max_commit \<leftarrow> last_log_index n;
     c \<leftarrow> uclamp commit included_index max_commit;
     Some (n\<lparr>commit_index := c, last_applied := included_index\<rparr>)
   }"

subsection \<open>Advancing the commit index of a leader\<close>

text \<open>\<open>self.leader_match_index.values().filter(|m| **m >= idx).count()\<close>\<close>

definition replicated_count :: "raft_node \<Rightarrow> nat \<Rightarrow> nat" where
  "replicated_count n idx = length (filter (\<lambda>match_idx. match_idx \<ge> idx) (hm_values (leader_match_index n)))"

text \<open>The \<open>for\<close> loop over the candidate indices, largest first, with its \<open>continue\<close> and \<open>break\<close>.\<close>

fun advance_loop :: "nat list \<Rightarrow> raft_node \<Rightarrow> raft_node option" where
  "advance_loop [] n = Some n"
| "advance_loop (idx # rest) n =
     (if term_at n idx \<noteq> Some (current_term n) then advance_loop rest n
      else if replicated_count n idx \<ge> majority n then commit_to idx n
      else advance_loop rest n)"

definition try_advance_commit_index :: "raft_node \<Rightarrow> raft_node option" where
  "try_advance_commit_index n =
     (if role n \<noteq> Leader then Some n
      else do {
        first \<leftarrow> uadd (commit_index n) 1;
        last \<leftarrow> last_log_index n;
        advance_loop (rev [first ..< Suc last]) n
      })"

subsection \<open>Ticks, votes, replication and proposals\<close>

definition tick :: "gen_range \<Rightarrow> raft_node \<Rightarrow> (raft_node \<times> outbound_message list) option" where
  "tick rng n =
     (case role n of
        Leader \<Rightarrow> do {
          h \<leftarrow> uadd (heartbeat_elapsed n) 1;
          let n = n\<lparr>heartbeat_elapsed := h\<rparr>;
          if heartbeat_elapsed n \<ge> heartbeat_interval n then do {
            let n = n\<lparr>heartbeat_elapsed := 0\<rparr>;
            ms \<leftarrow> build_heartbeat_messages n;
            Some (n, ms)
          } else Some (n, [])
        }
      | _ \<Rightarrow> do {
          e \<leftarrow> uadd (election_elapsed n) 1;
          let n = n\<lparr>election_elapsed := e\<rparr>;
          if election_elapsed n \<ge> current_election_timeout n then start_election rng n
          else Some (n, [])
        })"

definition candidate_log_is_up_to_date :: "request_vote \<Rightarrow> nat \<Rightarrow> term_no \<Rightarrow> bool" where
  "candidate_log_is_up_to_date req my_last_index my_last_term \<longleftrightarrow>
     rv_last_log_term req > my_last_term \<or>
     (rv_last_log_term req = my_last_term \<and> rv_last_log_index req \<ge> my_last_index)"

definition handle_request_vote ::
  "gen_range \<Rightarrow> request_vote \<Rightarrow> raft_node \<Rightarrow> (raft_node \<times> request_vote_response) option" where
  "handle_request_vote rng req n =
     (if rv_term req < current_term n
      then Some (n, \<lparr>rvr_term = current_term n, rvr_vote_granted = False, rvr_from = nid n\<rparr>)
      else do {
        n \<leftarrow> (if rv_term req > current_term n then become_follower rng (rv_term req) None n else Some n);
        (my_last_index, my_last_term) \<leftarrow> last_log_info n;
        let can_vote = (voted_for n = None \<or> voted_for n = Some (rv_candidate_id req));
        let grant = (can_vote \<and> candidate_log_is_up_to_date req my_last_index my_last_term);
        n \<leftarrow> (if grant
             then resample_timeout rng (n\<lparr>voted_for := Some (rv_candidate_id req), election_elapsed := 0\<rparr>)
             else Some n);
        Some (n, \<lparr>rvr_term = current_term n, rvr_vote_granted = grant, rvr_from = nid n\<rparr>)
      })"

definition handle_request_vote_response ::
  "gen_range \<Rightarrow> request_vote_response \<Rightarrow> raft_node \<Rightarrow> (raft_node \<times> bool) option" where
  "handle_request_vote_response rng resp n =
     (if rvr_term resp > current_term n then do {
        n \<leftarrow> become_follower rng (rvr_term resp) None n;
        Some (n, False)
      }
      else if role n \<noteq> Candidate \<or> rvr_term resp \<noteq> current_term n then Some (n, False)
      else do {
        let n = (if rvr_vote_granted resp
                 then n\<lparr>votes_received := insert (rvr_from resp) (votes_received n)\<rparr> else n);
        if card (votes_received n) \<ge> majority n then do {
          n \<leftarrow> become_leader n;
          Some (n, True)
        } else Some (n, False)
      })"

text \<open>The loop over \<open>req.entries\<close>, with \<open>insert_at\<close> as its second argument.\<close>

fun append_loop :: "log_entry list \<Rightarrow> nat \<Rightarrow> raft_node \<Rightarrow> raft_node option" where
  "append_loop [] insert_at n = Some n"
| "append_loop (entry # rest) insert_at n =
     (if insert_at \<le> snapshot_last_included_index n
      then do { i \<leftarrow> uadd insert_at 1; append_loop rest i n }
      else do {
        let n = (case offset_for_index n insert_at of
                   Some offset \<Rightarrow>
                     (if le_term (log n ! offset) \<noteq> le_term entry
                      then n\<lparr>log := take offset (log n) @ [entry]\<rparr> else n)
                 | None \<Rightarrow> n\<lparr>log := log n @ [entry]\<rparr>);
        i \<leftarrow> uadd insert_at 1;
        append_loop rest i n
      })"

definition handle_append_entries ::
  "gen_range \<Rightarrow> append_entries \<Rightarrow> raft_node \<Rightarrow> (raft_node \<times> append_entries_response) option" where
  "handle_append_entries rng req n =
     (if ae_term req < current_term n then do {
        last \<leftarrow> last_log_index n;
        Some (n, \<lparr>aer_term = current_term n, aer_success = False, aer_from = nid n, aer_match_index = last\<rparr>)
      } else do {
        n \<leftarrow> (if ae_term req > current_term n \<or> role n \<noteq> Follower
             then become_follower rng (ae_term req) (Some (ae_leader_id req)) n else Some n);
        let n = n\<lparr>leader_id := Some (ae_leader_id req), election_elapsed := 0\<rparr>;
        if ae_prev_log_index req < snapshot_last_included_index n
        then Some (n, \<lparr>aer_term = current_term n, aer_success = False, aer_from = nid n,
                       aer_match_index = snapshot_last_included_index n\<rparr>)
        else do {
          last \<leftarrow> last_log_index n;
          if ae_prev_log_index req > last
          then Some (n, \<lparr>aer_term = current_term n, aer_success = False, aer_from = nid n,
                         aer_match_index = last\<rparr>)
          else if ae_prev_log_index req > 0 \<and> term_at n (ae_prev_log_index req) \<noteq> Some (ae_prev_log_term req)
          then Some (n, \<lparr>aer_term = current_term n, aer_success = False, aer_from = nid n,
                         aer_match_index = ae_prev_log_index req - 1\<rparr>)
          else do {
            insert_at \<leftarrow> uadd (ae_prev_log_index req) 1;
            n \<leftarrow> append_loop (ae_entries req) insert_at n;
            n \<leftarrow> (if ae_leader_commit req > commit_index n then do {
                    last \<leftarrow> last_log_index n;
                    commit_to (min (ae_leader_commit req) last) n
                  } else Some n);
            last \<leftarrow> last_log_index n;
            Some (n, \<lparr>aer_term = current_term n, aer_success = True, aer_from = nid n, aer_match_index = last\<rparr>)
          }
        }
      })"

definition handle_append_entries_response ::
  "gen_range \<Rightarrow> append_entries_response \<Rightarrow> raft_node \<Rightarrow> (raft_node \<times> outbound_message list) option" where
  "handle_append_entries_response rng resp n =
     (if aer_term resp > current_term n then do {
        n \<leftarrow> become_follower rng (aer_term resp) None n;
        Some (n, [])
      }
      else if role n \<noteq> Leader \<or> aer_term resp \<noteq> current_term n then Some (n, [])
      else if aer_success resp then do {
        let n = n\<lparr>leader_match_index := hm_insert (aer_from resp) (aer_match_index resp) (leader_match_index n)\<rparr>;
        next \<leftarrow> uadd (aer_match_index resp) 1;
        let n = n\<lparr>leader_next_index := hm_insert (aer_from resp) next (leader_next_index n)\<rparr>;
        n \<leftarrow> try_advance_commit_index n;
        Some (n, [])
      }
      else do {
        last \<leftarrow> last_log_index n;
        default_next \<leftarrow> uadd last 1;
        let current_next = (case hm_get (leader_next_index n) (aer_from resp) of
                              Some i \<Rightarrow> i | None \<Rightarrow> default_next);
        let new_next = max (current_next - 1) 1;
        let n = n\<lparr>leader_next_index := hm_insert (aer_from resp) new_next (leader_next_index n)\<rparr>;
        m \<leftarrow> build_append_entries_for_peer n (aer_from resp);
        Some (n, case m of Some message \<Rightarrow> [OutAppendEntries (aer_from resp) message] | None \<Rightarrow> [])
      })"

text \<open>\<open>None\<close> inside the outer \<open>Some\<close> is the code's \<open>None\<close>: the node is not the leader.\<close>

definition propose_command ::
  "str \<Rightarrow> raft_node \<Rightarrow> (raft_node \<times> outbound_message list option) option" where
  "propose_command command n =
     (if role n \<noteq> Leader then Some (n, None)
      else do {
        let n = n\<lparr>log := log n @ [\<lparr>le_term = current_term n, le_command = command\<rparr>]\<rparr>;
        last \<leftarrow> last_log_index n;
        let n = n\<lparr>leader_match_index := hm_insert (nid n) last (leader_match_index n)\<rparr>;
        n \<leftarrow> (if majority n = 1 then do { last \<leftarrow> last_log_index n; commit_to last n } else Some n);
        ms \<leftarrow> build_heartbeat_messages n;
        Some (n, Some ms)
      })"

end
