(* ===== verification/Node_Log.thy ===== *)
theory Node_Log
  imports Node
begin

text \<open>
  The log of a node as the protocol sees it: a partial function from indices to entries
  (\<open>entry_at\<close>), with the compacted prefix cut off, and the reference definition \<open>reconcile\<close> of
  what an AppendEntries request does to a log. The lemmas relate the offset arithmetic of the code
  to these two views.
\<close>

definition log_end :: "raft_node \<Rightarrow> nat" where
  "log_end n = snapshot_last_included_index n + length (log n)"

definition entry_at :: "raft_node \<Rightarrow> nat \<Rightarrow> log_entry option" where
  "entry_at n i =
     (if snapshot_last_included_index n < i \<and> i \<le> log_end n
      then Some (log n ! (i - snapshot_last_included_index n - 1)) else None)"

lemma last_log_index_eq:
  "last_log_index n = (if log_end n < u64_limit then Some (log_end n) else None)"
  by (simp add: last_log_index_def log_end_def uadd_def)

lemma last_log_index_Some_iff [panic_simps]:
  "(last_log_index n = Some i) = (i = log_end n \<and> log_end n < u64_limit)"
  by (auto simp: last_log_index_eq)

lemma offset_for_index_Some_iff:
  "(offset_for_index n i = Some k) =
     (snapshot_last_included_index n < i \<and> i \<le> log_end n \<and> k = i - snapshot_last_included_index n - 1)"
  by (auto simp: offset_for_index_def log_end_def Let_def)

lemma offset_for_index_None_iff:
  "(offset_for_index n i = None) = (i \<le> snapshot_last_included_index n \<or> log_end n < i)"
  by (auto simp: offset_for_index_def log_end_def Let_def)

lemma entry_at_offset: "entry_at n i = map_option (\<lambda>k. log n ! k) (offset_for_index n i)"
  by (auto simp: entry_at_def offset_for_index_def log_end_def Let_def)

lemma term_at_entry:
  "term_at n i =
     (if i = snapshot_last_included_index n then Some (snapshot_last_included_term n)
      else map_option le_term (entry_at n i))"
  by (simp add: term_at_def entry_at_offset option.map_comp comp_def)

lemma term_at_None_iff:
  "(term_at n i = None) = (i < snapshot_last_included_index n \<or> log_end n < i)"
  by (auto simp: term_at_entry entry_at_def log_end_def)

lemma term_at_inside: "snapshot_last_included_index n \<le> i \<Longrightarrow> i \<le> log_end n \<Longrightarrow> term_at n i \<noteq> None"
  by (simp add: term_at_None_iff)

lemma entry_at_Some_iff:
  "(entry_at n i = Some e) =
     (snapshot_last_included_index n < i \<and> i \<le> log_end n \<and>
      e = log n ! (i - snapshot_last_included_index n - 1))"
  by (auto simp: entry_at_def)

lemma entry_at_nth:
  "k < length (log n) \<Longrightarrow> entry_at n (snapshot_last_included_index n + k + 1) = Some (log n ! k)"
  by (simp add: entry_at_def log_end_def)

text \<open>The term of the last entry, or of the snapshot when the log is empty.\<close>

definition last_term :: "raft_node \<Rightarrow> term_no" where
  "last_term n = (if log n = [] then snapshot_last_included_term n else le_term (last (log n)))"

lemma term_at_log_end: "term_at n (log_end n) = Some (last_term n)"
  by (auto simp: term_at_def offset_for_index_def log_end_def last_term_def last_conv_nth)

lemma last_log_info_Some_iff [panic_simps]:
  "(last_log_info n = Some (i, t)) = (log_end n < u64_limit \<and> i = log_end n \<and> t = last_term n)"
  by (auto simp: last_log_info_def panic_simps term_at_log_end)

text \<open>These views depend on the log and its snapshot point only.\<close>

lemma log_end_update [simp]:
  "log_end (nid_update f1 n) = log_end n"
  "log_end (peers_update f2 n) = log_end n"
  "log_end (current_term_update f3 n) = log_end n"
  "log_end (voted_for_update f4 n) = log_end n"
  "log_end (commit_index_update f5 n) = log_end n"
  "log_end (last_applied_update f6 n) = log_end n"
  "log_end (role_update f7 n) = log_end n"
  "log_end (leader_id_update f8 n) = log_end n"
  "log_end (leader_next_index_update f9 n) = log_end n"
  "log_end (leader_match_index_update f10 n) = log_end n"
  "log_end (votes_received_update f11 n) = log_end n"
  "log_end (election_elapsed_update f12 n) = log_end n"
  "log_end (election_timeout_min_update f13 n) = log_end n"
  "log_end (election_timeout_max_update f14 n) = log_end n"
  "log_end (current_election_timeout_update f15 n) = log_end n"
  "log_end (heartbeat_elapsed_update f16 n) = log_end n"
  "log_end (heartbeat_interval_update f17 n) = log_end n"
  "log_end (rng_draws_update f18 n) = log_end n"
  "log_end (snapshot_last_included_term_update f19 n) = log_end n"
  by (simp_all add: log_end_def)

lemma last_term_update [simp]:
  "last_term (nid_update f1 n) = last_term n"
  "last_term (peers_update f2 n) = last_term n"
  "last_term (current_term_update f3 n) = last_term n"
  "last_term (voted_for_update f4 n) = last_term n"
  "last_term (commit_index_update f5 n) = last_term n"
  "last_term (last_applied_update f6 n) = last_term n"
  "last_term (role_update f7 n) = last_term n"
  "last_term (leader_id_update f8 n) = last_term n"
  "last_term (leader_next_index_update f9 n) = last_term n"
  "last_term (leader_match_index_update f10 n) = last_term n"
  "last_term (votes_received_update f11 n) = last_term n"
  "last_term (election_elapsed_update f12 n) = last_term n"
  "last_term (election_timeout_min_update f13 n) = last_term n"
  "last_term (election_timeout_max_update f14 n) = last_term n"
  "last_term (current_election_timeout_update f15 n) = last_term n"
  "last_term (heartbeat_elapsed_update f16 n) = last_term n"
  "last_term (heartbeat_interval_update f17 n) = last_term n"
  "last_term (rng_draws_update f18 n) = last_term n"
  "last_term (snapshot_last_included_index_update f19 n) = last_term n"
  by (simp_all add: last_term_def)

lemma entry_at_update [simp]:
  "entry_at (nid_update f1 n) = entry_at n"
  "entry_at (peers_update f2 n) = entry_at n"
  "entry_at (current_term_update f3 n) = entry_at n"
  "entry_at (voted_for_update f4 n) = entry_at n"
  "entry_at (commit_index_update f5 n) = entry_at n"
  "entry_at (last_applied_update f6 n) = entry_at n"
  "entry_at (role_update f7 n) = entry_at n"
  "entry_at (leader_id_update f8 n) = entry_at n"
  "entry_at (leader_next_index_update f9 n) = entry_at n"
  "entry_at (leader_match_index_update f10 n) = entry_at n"
  "entry_at (votes_received_update f11 n) = entry_at n"
  "entry_at (election_elapsed_update f12 n) = entry_at n"
  "entry_at (election_timeout_min_update f13 n) = entry_at n"
  "entry_at (election_timeout_max_update f14 n) = entry_at n"
  "entry_at (current_election_timeout_update f15 n) = entry_at n"
  "entry_at (heartbeat_elapsed_update f16 n) = entry_at n"
  "entry_at (heartbeat_interval_update f17 n) = entry_at n"
  "entry_at (rng_draws_update f18 n) = entry_at n"
  "entry_at (snapshot_last_included_term_update f19 n) = entry_at n"
  by (simp_all add: entry_at_def fun_eq_iff)

lemma offset_for_index_update [simp]:
  "offset_for_index (nid_update f1 n) = offset_for_index n"
  "offset_for_index (peers_update f2 n) = offset_for_index n"
  "offset_for_index (current_term_update f3 n) = offset_for_index n"
  "offset_for_index (voted_for_update f4 n) = offset_for_index n"
  "offset_for_index (commit_index_update f5 n) = offset_for_index n"
  "offset_for_index (last_applied_update f6 n) = offset_for_index n"
  "offset_for_index (role_update f7 n) = offset_for_index n"
  "offset_for_index (leader_id_update f8 n) = offset_for_index n"
  "offset_for_index (leader_next_index_update f9 n) = offset_for_index n"
  "offset_for_index (leader_match_index_update f10 n) = offset_for_index n"
  "offset_for_index (votes_received_update f11 n) = offset_for_index n"
  "offset_for_index (election_elapsed_update f12 n) = offset_for_index n"
  "offset_for_index (election_timeout_min_update f13 n) = offset_for_index n"
  "offset_for_index (election_timeout_max_update f14 n) = offset_for_index n"
  "offset_for_index (current_election_timeout_update f15 n) = offset_for_index n"
  "offset_for_index (heartbeat_elapsed_update f16 n) = offset_for_index n"
  "offset_for_index (heartbeat_interval_update f17 n) = offset_for_index n"
  "offset_for_index (rng_draws_update f18 n) = offset_for_index n"
  "offset_for_index (snapshot_last_included_term_update f19 n) = offset_for_index n"
  by (simp_all add: offset_for_index_def fun_eq_iff)

lemma term_at_update [simp]:
  "term_at (nid_update f1 n) = term_at n"
  "term_at (peers_update f2 n) = term_at n"
  "term_at (current_term_update f3 n) = term_at n"
  "term_at (voted_for_update f4 n) = term_at n"
  "term_at (commit_index_update f5 n) = term_at n"
  "term_at (last_applied_update f6 n) = term_at n"
  "term_at (role_update f7 n) = term_at n"
  "term_at (leader_id_update f8 n) = term_at n"
  "term_at (leader_next_index_update f9 n) = term_at n"
  "term_at (leader_match_index_update f10 n) = term_at n"
  "term_at (votes_received_update f11 n) = term_at n"
  "term_at (election_elapsed_update f12 n) = term_at n"
  "term_at (election_timeout_min_update f13 n) = term_at n"
  "term_at (election_timeout_max_update f14 n) = term_at n"
  "term_at (current_election_timeout_update f15 n) = term_at n"
  "term_at (heartbeat_elapsed_update f16 n) = term_at n"
  "term_at (heartbeat_interval_update f17 n) = term_at n"
  "term_at (rng_draws_update f18 n) = term_at n"
  by (simp_all add: term_at_entry fun_eq_iff)

lemma entry_at_cong:
  "log m = log n \<Longrightarrow> snapshot_last_included_index m = snapshot_last_included_index n \<Longrightarrow>
   entry_at m = entry_at n"
  by (simp add: fun_eq_iff entry_at_def log_end_def)

lemma log_end_cong:
  "log m = log n \<Longrightarrow> snapshot_last_included_index m = snapshot_last_included_index n \<Longrightarrow>
   log_end m = log_end n"
  by (simp add: log_end_def)

lemma term_at_cong:
  "log m = log n \<Longrightarrow> snapshot_last_included_index m = snapshot_last_included_index n \<Longrightarrow>
   snapshot_last_included_term m = snapshot_last_included_term n \<Longrightarrow> term_at m = term_at n"
  by (simp add: fun_eq_iff term_at_def offset_for_index_def)

lemmas log_view_cong = entry_at_cong log_end_cong term_at_cong

subsection \<open>Reconciling a log with the entries of a leader\<close>

text \<open>
  What the Raft paper asks of a follower: keep the entries that agree, cut the log at the first
  conflict, append what is new.
\<close>

fun reconcile :: "log_entry list \<Rightarrow> log_entry list \<Rightarrow> log_entry list" where
  "reconcile old [] = old"
| "reconcile [] new = new"
| "reconcile (x # xs) (y # ys) =
     (if le_term x \<noteq> le_term y then y # ys else x # reconcile xs ys)"

lemma reconcile_Nil1 [simp]: "reconcile [] new = new"
  by (cases new) auto

lemma length_reconcile: "length ys \<le> length (reconcile xs ys)"
  by (induction xs ys rule: reconcile.induct) auto

lemma reconcile_terms:
  "k < length ys \<Longrightarrow> le_term (reconcile xs ys ! k) = le_term (ys ! k)"
proof (induction xs ys arbitrary: k rule: reconcile.induct)
  case (3 x xs y ys)
  then show ?case by (cases k) auto
qed auto

text \<open>Without a conflict the old log survives and may grow; with one it ends with the new entries.\<close>

definition agrees :: "log_entry list \<Rightarrow> log_entry list \<Rightarrow> bool" where
  "agrees xs ys \<longleftrightarrow> (\<forall>k < min (length xs) (length ys). le_term (xs ! k) = le_term (ys ! k))"

lemma agrees_Nil [simp]: "agrees [] ys" "agrees xs []"
  by (simp_all add: agrees_def)

lemma agrees_Cons [simp]: "agrees (x # xs) (y # ys) = (le_term x = le_term y \<and> agrees xs ys)"
  by (auto simp: agrees_def less_Suc_eq_0_disj)

lemma reconcile_agrees: "agrees xs ys \<Longrightarrow> reconcile xs ys = xs @ drop (length xs) ys"
  by (induction xs ys rule: reconcile.induct) auto

lemma reconcile_conflict: "\<not> agrees xs ys \<Longrightarrow> length (reconcile xs ys) = length ys"
  by (induction xs ys rule: reconcile.induct) auto

lemma reconcile_keeps_prefix:
  "agrees (take k xs) (take k ys) \<Longrightarrow> take k (reconcile xs ys) = take k (xs @ drop (length xs) ys)"
proof (induction xs ys arbitrary: k rule: reconcile.induct)
  case (3 x xs y ys)
  then show ?case by (cases k) auto
qed auto

lemma set_reconcile: "set (reconcile xs ys) \<subseteq> set xs \<union> set ys"
  by (induction xs ys rule: reconcile.induct) auto

subsection \<open>The append loop of the code computes the reconciled log\<close>

lemma append_loop_reconcile:
  assumes "snapshot_last_included_index n < i" and "i \<le> log_end n + 1"
    and "append_loop es i n = Some n'"
  shows "n' = n\<lparr>log := take (i - snapshot_last_included_index n - 1) (log n) @
                 reconcile (drop (i - snapshot_last_included_index n - 1) (log n)) es\<rparr>"
  using assms
proof (induction es i n rule: append_loop.induct)
  case (1 i n)
  then show ?case by simp
next
  case (2 e es i n)
  let ?s = "snapshot_last_included_index n"
  let ?k = "i - ?s - 1"
  let ?n1 = "case offset_for_index n i of
      Some offset \<Rightarrow> (if le_term (log n ! offset) \<noteq> le_term e
                      then n\<lparr>log := take offset (log n) @ [e]\<rparr> else n)
    | None \<Rightarrow> n\<lparr>log := log n @ [e]\<rparr>"
  have inside: "\<not> i \<le> ?s" and nxt: "?s < i + 1" using "2.prems"(1) by simp_all
  from "2.prems"(3) inside have step: "uadd i 1 = Some (i + 1)"
    and rest: "append_loop es (i + 1) ?n1 = Some n'"
    by (auto simp: Let_def panic_simps)
  have IH: "i + 1 \<le> log_end ?n1 + 1 \<Longrightarrow>
      n' = ?n1\<lparr>log := take (?k + 1) (log ?n1) @ reconcile (drop (?k + 1) (log ?n1)) es\<rparr>"
    using "2.IH"(2)[OF inside refl step] rest nxt "2.prems"(1)
    by (auto split: option.splits if_splits simp: Suc_diff_Suc)
  show ?case
  proof (cases "i \<le> log_end n")
    case True
    then have k: "?k < length (log n)" "offset_for_index n i = Some ?k"
      using "2.prems"(1) by (auto simp: log_end_def offset_for_index_Some_iff)
    then have d: "drop ?k (log n) = log n ! ?k # drop (?k + 1) (log n)"
      by (simp add: Cons_nth_drop_Suc)
    from k have t: "take (?k + 1) (log n) = take ?k (log n) @ [log n ! ?k]"
      by (simp add: take_Suc_conv_app_nth)
    show ?thesis
    proof (cases "le_term (log n ! ?k) = le_term e")
      case True
      then show ?thesis using IH k d t \<open>i \<le> log_end n\<close> by simp
    next
      case False
      then have "?n1 = n\<lparr>log := take ?k (log n) @ [e]\<rparr>" using k by simp
      then show ?thesis using IH k d False "2.prems"(1)
        by (simp add: log_end_def min_def)
    qed
  next
    case False
    then have "?k = length (log n)" "offset_for_index n i = None"
      using "2.prems" by (auto simp: log_end_def offset_for_index_None_iff)
    then show ?thesis using IH "2.prems"(2) by (simp add: log_end_def)
  qed
qed

text \<open>The loop panics only when an index leaves the machine range.\<close>

lemma append_loop_no_panic:
  "i + length es < u64_limit \<Longrightarrow> \<exists>n'. append_loop es i n = Some n'"
proof (induction es arbitrary: i n)
  case (Cons e es)
  then show ?case by (simp add: Let_def)
qed simp

end
