(* ===== verification/Node_Inv.thy ===== *)
theory Node_Inv
  imports Node_Log
begin

text \<open>
  The invariant of a Raft node and its preservation by every operation of \<open>node.rs\<close>: the election
  and heartbeat timers stay below their limits, the snapshot point is below the commit index and
  the applied index, and the vote, the vote count and the leader bookkeeping agree with the role.
  \<open>node_step\<close> collects the public operations, so that the invariant holds after any sequence of
  calls.
\<close>

subsection \<open>The random source\<close>

text \<open>The documented contract of \<open>gen_range(lo..=hi)\<close>.\<close>

definition gen_range_ok :: "gen_range \<Rightarrow> bool" where
  "gen_range_ok rng \<longleftrightarrow> (\<forall>k lo hi. lo \<le> hi \<longrightarrow> lo \<le> rng k lo hi \<and> rng k lo hi \<le> hi)"

lemma sample_election_timeout_bounds:
  "gen_range_ok rng \<Longrightarrow> sample_election_timeout rng k lo hi = Some t \<Longrightarrow> lo \<le> t \<and> t \<le> hi"
  by (auto simp: sample_election_timeout_def gen_range_ok_def split: if_splits)

lemma sample_election_timeout_no_panic:
  "lo \<le> hi \<Longrightarrow> \<exists>t. sample_election_timeout rng k lo hi = Some t"
  by (auto simp: sample_election_timeout_def)

lemma resample_timeout_Some_iff [panic_simps]:
  "(resample_timeout rng n = Some n') =
     (\<exists>t. sample_election_timeout rng (rng_draws n) (election_timeout_min n) (election_timeout_max n) = Some t
        \<and> n' = n\<lparr>current_election_timeout := t, rng_draws := Suc (rng_draws n)\<rparr>)"
  by (auto simp: resample_timeout_def panic_simps)

lemma become_follower_Some_iff [panic_simps]:
  "(become_follower rng t l n = Some n') =
     (\<exists>tm. sample_election_timeout rng (rng_draws n) (election_timeout_min n) (election_timeout_max n) = Some tm
        \<and> n' = n\<lparr>role := Follower, current_term := t, voted_for := None, votes_received := {},
               leader_next_index := [], leader_match_index := [], election_elapsed := 0,
               current_election_timeout := tm, rng_draws := Suc (rng_draws n),
               heartbeat_elapsed := 0, leader_id := l\<rparr>)"
  by (auto simp: become_follower_def panic_simps)

lemma commit_to_Some_iff [panic_simps]:
  "(commit_to c n = Some n') =
     (log_end n < u64_limit \<and>
      n' = n\<lparr>commit_index := max (snapshot_last_included_index n) (min c (log_end n))\<rparr>)"
  by (auto simp: commit_to_def panic_simps Let_def log_end_def)

subsection \<open>Operations that change few fields\<close>

lemma advance_loop_effect:
  "advance_loop is n = Some n' \<Longrightarrow>
   \<exists>c. n' = n\<lparr>commit_index := c\<rparr> \<and> (c = commit_index n \<or> snapshot_last_included_index n \<le> c \<and> c \<le> log_end n)"
proof (induction "is" n rule: advance_loop.induct)
  case (1 n)
  then show ?case by (auto intro: exI [where x = "commit_index n"])
next
  case (2 i rest n)
  then show ?case
    by (auto simp: panic_simps log_end_def split: if_splits)
qed

lemma try_advance_effect:
  "try_advance_commit_index n = Some n' \<Longrightarrow>
   \<exists>c. n' = n\<lparr>commit_index := c\<rparr> \<and> (c = commit_index n \<or> snapshot_last_included_index n \<le> c \<and> c \<le> log_end n)"
proof (cases "role n = Leader")
  case False
  then show "try_advance_commit_index n = Some n' \<Longrightarrow> ?thesis"
    by (auto simp: try_advance_commit_index_def intro: exI [where x = "commit_index n"])
next
  case True
  then show "try_advance_commit_index n = Some n' \<Longrightarrow> ?thesis"
    by (auto simp: try_advance_commit_index_def panic_simps simp del: upt_Suc dest!: advance_loop_effect)
qed

lemma append_loop_effect:
  "append_loop es i n = Some n' \<Longrightarrow> \<exists>l. n' = n\<lparr>log := l\<rparr>"
proof (induction es i n arbitrary: n' rule: append_loop.induct)
  case (1 i n)
  then show ?case by (auto intro: exI [where x = "log n"])
next
  case (2 e es i n)
  then show ?case
    by (auto simp: Let_def panic_simps split: if_splits option.splits) metis?
qed

lemma fold_leader_maps:
  "fold (\<lambda>peer n. n\<lparr>leader_next_index := hm_insert peer next (leader_next_index n),
                   leader_match_index := hm_insert peer (snapshot_last_included_index n) (leader_match_index n)\<rparr>) ps n
   = n\<lparr>leader_next_index := fold (\<lambda>p. hm_insert p next) ps (leader_next_index n),
       leader_match_index := fold (\<lambda>p. hm_insert p (snapshot_last_included_index n)) ps (leader_match_index n)\<rparr>"
  by (induction ps arbitrary: n) auto

lemma hm_ok_fold_insert [simp]: "hm_ok m \<Longrightarrow> hm_ok (fold (\<lambda>p. hm_insert p v) ps m)"
  by (induction ps arbitrary: m) auto

lemma hm_get_fold_insert [simp]:
  "hm_get (fold (\<lambda>p. hm_insert p v) ps m) k = (if k \<in> set ps then Some v else hm_get m k)"
  by (induction ps arbitrary: m) auto

lemma become_leader_Some_iff [panic_simps]:
  "(become_leader n = Some n') =
     (log_end n + 1 < u64_limit \<and>
      n' = n\<lparr>role := Leader, leader_id := Some (nid n), heartbeat_elapsed := 0,
             leader_next_index := fold (\<lambda>p. hm_insert p (log_end n + 1)) (peers n) [],
             leader_match_index := fold (\<lambda>p. hm_insert p (snapshot_last_included_index n)) (peers n)
                                     [(nid n, log_end n)]\<rparr>)"
  by (auto simp: become_leader_def panic_simps fold_leader_maps Let_def)

lemma start_election_Some_iff [panic_simps]:
  "(start_election rng n = Some (n', ms)) =
     (\<exists>tm. current_term n + 1 < u64_limit \<and> log_end n < u64_limit
        \<and> sample_election_timeout rng (rng_draws n) (election_timeout_min n) (election_timeout_max n) = Some tm
        \<and> n' = n\<lparr>role := Candidate, current_term := current_term n + 1, voted_for := Some (nid n),
                leader_id := None, election_elapsed := 0, current_election_timeout := tm,
                rng_draws := Suc (rng_draws n), votes_received := {nid n}\<rparr>
        \<and> ms = map (\<lambda>peer. OutRequestVote peer
                 \<lparr>rv_term = current_term n + 1, rv_candidate_id = nid n, rv_last_log_index = log_end n,
                  rv_last_log_term = last_term n\<rparr>) (peers n))"
  by (auto simp: start_election_def panic_simps Let_def)

subsection \<open>The invariant\<close>

definition timers_ok :: "raft_node \<Rightarrow> bool" where
  "timers_ok n \<longleftrightarrow>
     0 < election_timeout_min n \<and> election_timeout_min n \<le> election_timeout_max n \<and>
     election_timeout_max n < u64_limit \<and> election_timeout_min n \<le> current_election_timeout n \<and>
     current_election_timeout n \<le> election_timeout_max n \<and>
     election_elapsed n < current_election_timeout n \<and>
     heartbeat_interval n < u64_limit \<and> heartbeat_elapsed n < max 1 (heartbeat_interval n)"

definition indices_ok :: "raft_node \<Rightarrow> bool" where
  "indices_ok n \<longleftrightarrow> snapshot_last_included_index n \<le> commit_index n \<and>
     snapshot_last_included_index n \<le> last_applied n"

definition role_ok :: "raft_node \<Rightarrow> bool" where
  "role_ok n \<longleftrightarrow> finite (votes_received n) \<and> hm_ok (leader_next_index n) \<and> hm_ok (leader_match_index n) \<and>
     (case role n of
        Follower \<Rightarrow> votes_received n = {} \<and> leader_next_index n = [] \<and> leader_match_index n = []
      | Candidate \<Rightarrow> voted_for n = Some (nid n) \<and> nid n \<in> votes_received n \<and> leader_id n = None
      | Leader \<Rightarrow> voted_for n = Some (nid n) \<and> nid n \<in> votes_received n \<and> leader_id n = Some (nid n) \<and>
          majority n \<le> card (votes_received n) \<and>
          (\<forall>p \<in> insert (nid n) (set (peers n)). hm_get (leader_match_index n) p \<noteq> None) \<and>
          (\<forall>p \<in> set (peers n). hm_get (leader_next_index n) p \<noteq> None))"

definition node_inv :: "raft_node \<Rightarrow> bool" where
  "node_inv n \<longleftrightarrow> timers_ok n \<and> indices_ok n \<and> role_ok n"

lemmas inv_defs = node_inv_def timers_ok_def indices_ok_def role_ok_def

lemma majority_cong: "peers m = peers n \<Longrightarrow> majority m = majority n"
  by (simp add: majority_def)

lemma majority_update [simp]:
  "majority (nid_update f1 n) = majority n"
  "majority (current_term_update f2 n) = majority n"
  "majority (voted_for_update f3 n) = majority n"
  "majority (commit_index_update f4 n) = majority n"
  "majority (last_applied_update f5 n) = majority n"
  "majority (role_update f6 n) = majority n"
  "majority (leader_id_update f7 n) = majority n"
  "majority (leader_next_index_update f8 n) = majority n"
  "majority (leader_match_index_update f9 n) = majority n"
  "majority (votes_received_update f10 n) = majority n"
  "majority (election_elapsed_update f11 n) = majority n"
  "majority (election_timeout_min_update f12 n) = majority n"
  "majority (election_timeout_max_update f13 n) = majority n"
  "majority (current_election_timeout_update f14 n) = majority n"
  "majority (heartbeat_elapsed_update f15 n) = majority n"
  "majority (heartbeat_interval_update f16 n) = majority n"
  "majority (rng_draws_update f17 n) = majority n"
  "majority (log_update f18 n) = majority n"
  "majority (snapshot_last_included_index_update f19 n) = majority n"
  "majority (snapshot_last_included_term_update f20 n) = majority n"
  by (simp_all add: majority_def)

lemma node_inv_update [simp]:
  "node_inv (log_update f1 n) = node_inv n"
  "node_inv (current_term_update f2 n) = node_inv n"
  "node_inv (snapshot_last_included_term_update f3 n) = node_inv n"
  "node_inv (rng_draws_update f4 n) = node_inv n"
  by (cases "role n"; simp add: inv_defs)+

lemma node_inv_commit: "node_inv n \<Longrightarrow> snapshot_last_included_index n \<le> c \<Longrightarrow> node_inv (n\<lparr>commit_index := c\<rparr>)"
  by (cases "role n"; simp add: inv_defs)

lemma node_inv_applied: "node_inv n \<Longrightarrow> snapshot_last_included_index n \<le> a \<Longrightarrow> node_inv (n\<lparr>last_applied := a\<rparr>)"
  by (cases "role n"; simp add: inv_defs)

lemma node_inv_match: "node_inv n \<Longrightarrow> role n \<noteq> Follower \<Longrightarrow>
    node_inv (n\<lparr>leader_match_index := hm_insert k v (leader_match_index n)\<rparr>)"
  by (cases "role n"; simp add: inv_defs)

lemma node_inv_next: "node_inv n \<Longrightarrow> role n \<noteq> Follower \<Longrightarrow>
    node_inv (n\<lparr>leader_next_index := hm_insert k v (leader_next_index n)\<rparr>)"
  by (cases "role n"; simp add: inv_defs)

lemma node_inv_heard: "node_inv n \<Longrightarrow> role n = Follower \<Longrightarrow>
    node_inv (n\<lparr>leader_id := l, election_elapsed := 0\<rparr>)"
  by (cases "role n"; simp add: inv_defs)

lemma node_inv_vote: "node_inv n \<Longrightarrow> role n = Candidate \<Longrightarrow>
    node_inv (n\<lparr>votes_received := insert v (votes_received n)\<rparr>)"
  by (cases "role n"; simp add: inv_defs)

lemma node_inv_snapshot_le:
  "node_inv n \<Longrightarrow> snapshot_last_included_index n \<le> commit_index n \<and> snapshot_last_included_index n \<le> last_applied n"
  by (simp add: inv_defs)

subsection \<open>Every operation keeps the invariant\<close>

lemma new_node_inv:
  assumes "gen_range_ok rng" and "new_node rng k i ps tmin tmax hb = Some n"
    and "tmax < u64_limit" and "hb < u64_limit"
  shows "node_inv n"
  using assms sample_election_timeout_bounds [OF assms(1)]
  by (fastforce simp: new_node_def inv_defs panic_simps split: if_splits)

lemma become_follower_inv:
  "gen_range_ok rng \<Longrightarrow> node_inv n \<Longrightarrow> become_follower rng t l n = Some n' \<Longrightarrow> node_inv n'"
  using sample_election_timeout_bounds [of rng]
  by (fastforce simp: panic_simps inv_defs)

lemma start_election_inv:
  "gen_range_ok rng \<Longrightarrow> node_inv n \<Longrightarrow> start_election rng n = Some (n', ms) \<Longrightarrow> node_inv n'"
  using sample_election_timeout_bounds [of rng]
  by (fastforce simp: panic_simps inv_defs split: role.splits)

lemma tick_inv:
  assumes "gen_range_ok rng" and "node_inv n" and "tick rng n = Some (n', ms)"
  shows "node_inv n'"
proof (cases "role n")
  case Leader
  with assms(2,3) show ?thesis
    by (auto simp: tick_def Let_def panic_simps inv_defs split: if_splits)
next
  case Follower
  show ?thesis
  proof (cases "election_elapsed n + 1 \<ge> current_election_timeout n")
    case True
    with Follower assms(3) have "start_election rng (n\<lparr>election_elapsed := election_elapsed n + 1\<rparr>) = Some (n', ms)"
      by (auto simp: tick_def Let_def panic_simps)
    then show ?thesis using assms(1,2) sample_election_timeout_bounds [OF assms(1)]
      by (fastforce simp: panic_simps inv_defs split: role.splits)
  next
    case False
    with Follower assms(2,3) show ?thesis by (auto simp: tick_def Let_def panic_simps inv_defs)
  qed
next
  case Candidate
  show ?thesis
  proof (cases "election_elapsed n + 1 \<ge> current_election_timeout n")
    case True
    with Candidate assms(3) have "start_election rng (n\<lparr>election_elapsed := election_elapsed n + 1\<rparr>) = Some (n', ms)"
      by (auto simp: tick_def Let_def panic_simps)
    then show ?thesis using assms(1,2) sample_election_timeout_bounds [OF assms(1)]
      by (fastforce simp: panic_simps inv_defs split: role.splits)
  next
    case False
    with Candidate assms(2,3) show ?thesis by (auto simp: tick_def Let_def panic_simps inv_defs)
  qed
qed

lemma handle_request_vote_inv:
  assumes "gen_range_ok rng" and "node_inv n" and "handle_request_vote rng req n = Some (n', r)"
  shows "node_inv n'"
proof (cases "rv_term req < current_term n")
  case True
  with assms show ?thesis by (simp add: handle_request_vote_def)
next
  case False
  with assms(3) obtain m where m: "m = n \<or> become_follower rng (rv_term req) None n = Some m"
    and n': "n' = m \<or> voted_for m \<in> {None, Some (rv_candidate_id req)} \<and>
      resample_timeout rng (m\<lparr>voted_for := Some (rv_candidate_id req), election_elapsed := 0\<rparr>) = Some n'"
    by (auto simp: handle_request_vote_def Let_def bind_Some_iff split: if_splits)
  from m have "node_inv m" using assms become_follower_inv by blast
  with n' show ?thesis using sample_election_timeout_bounds [OF assms(1)]
    by (fastforce simp: panic_simps inv_defs split: role.splits)
qed

lemma become_leader_inv:
  assumes "node_inv n" and "role n = Candidate" and "majority n \<le> card (votes_received n)"
    and "become_leader n = Some n'"
  shows "node_inv n'"
  using assms by (simp add: panic_simps inv_defs)

lemma handle_request_vote_response_inv:
  assumes "gen_range_ok rng" and "node_inv n" and "handle_request_vote_response rng resp n = Some (n', b)"
  shows "node_inv n'"
proof (cases "rvr_term resp \<le> current_term n \<and> role n = Candidate \<and> rvr_term resp = current_term n")
  case False
  with assms show ?thesis
    by (auto simp: handle_request_vote_response_def bind_Some_iff split: if_splits intro: become_follower_inv)
next
  case True
  define m where "m = (if rvr_vote_granted resp
      then n\<lparr>votes_received := insert (rvr_from resp) (votes_received n)\<rparr> else n)"
  have m: "node_inv m" "role m = Candidate"
    using assms(2) True node_inv_vote by (simp_all add: m_def)
  have "(if majority m \<le> card (votes_received m)
         then Option.bind (become_leader m) (\<lambda>n. Some (n, True)) else Some (m, False)) = Some (n', b)"
    using assms(3) True by (auto simp: handle_request_vote_response_def m_def Let_def split: if_splits)
  then show ?thesis
    using m become_leader_inv by (auto simp: bind_Some_iff split: if_splits)
qed

lemma commit_to_inv: "node_inv n \<Longrightarrow> commit_to c n = Some n' \<Longrightarrow> node_inv n'"
  by (auto simp: panic_simps intro: node_inv_commit)

text \<open>
  The two halves of \<open>handle_append_entries\<close>: stepping down and recording the leader, then the
  consistency checks with the loop and the commit.
\<close>

definition ae_step_down :: "gen_range \<Rightarrow> append_entries \<Rightarrow> raft_node \<Rightarrow> raft_node option" where
  "ae_step_down rng req n =
     map_option (\<lambda>n. n\<lparr>leader_id := Some (ae_leader_id req), election_elapsed := 0\<rparr>)
       (if ae_term req > current_term n \<or> role n \<noteq> Follower
        then become_follower rng (ae_term req) (Some (ae_leader_id req)) n else Some n)"

definition ae_accept :: "append_entries \<Rightarrow> raft_node \<Rightarrow> raft_node option" where
  "ae_accept req n = do {
     insert_at \<leftarrow> uadd (ae_prev_log_index req) 1;
     n \<leftarrow> append_loop (ae_entries req) insert_at n;
     if ae_leader_commit req > commit_index n then do {
       last \<leftarrow> last_log_index n;
       commit_to (min (ae_leader_commit req) last) n
     } else Some n
   }"

definition ae_consistent :: "append_entries \<Rightarrow> raft_node \<Rightarrow> bool" where
  "ae_consistent req n \<longleftrightarrow>
     snapshot_last_included_index n \<le> ae_prev_log_index req \<and> ae_prev_log_index req \<le> log_end n \<and>
     (ae_prev_log_index req = 0 \<or> term_at n (ae_prev_log_index req) = Some (ae_prev_log_term req))"

definition ae_reject_index :: "append_entries \<Rightarrow> raft_node \<Rightarrow> nat" where
  "ae_reject_index req n =
     (if ae_prev_log_index req < snapshot_last_included_index n then snapshot_last_included_index n
      else if log_end n < ae_prev_log_index req then log_end n
      else ae_prev_log_index req - 1)"

lemma handle_append_entries_split:
  "handle_append_entries rng req n =
     (if ae_term req < current_term n
      then map_option (\<lambda>last. (n, \<lparr>aer_term = current_term n, aer_success = False, aer_from = nid n,
                                   aer_match_index = last\<rparr>)) (last_log_index n)
      else do {
        m \<leftarrow> ae_step_down rng req n;
        if ae_prev_log_index req < snapshot_last_included_index m \<or> log_end m < u64_limit then
          (if ae_consistent req m then do {
             k \<leftarrow> ae_accept req m;
             last \<leftarrow> last_log_index k;
             Some (k, \<lparr>aer_term = current_term k, aer_success = True, aer_from = nid k, aer_match_index = last\<rparr>)
           }
           else Some (m, \<lparr>aer_term = current_term m, aer_success = False, aer_from = nid m,
                          aer_match_index = ae_reject_index req m\<rparr>))
        else None
      })"
proof (cases "ae_term req < current_term n")
  case True
  then show ?thesis by (cases "last_log_index n") (simp_all add: handle_append_entries_def)
next
  case False
  let ?b = "if current_term n < ae_term req \<or> role n \<noteq> Follower
            then become_follower rng (ae_term req) (Some (ae_leader_id req)) n else Some n"
  show ?thesis
  proof (cases ?b)
    case None
    with False show ?thesis by (auto simp: handle_append_entries_def ae_step_down_def)
  next
    case (Some k)
    define m where "m = k\<lparr>leader_id := Some (ae_leader_id req), election_elapsed := 0\<rparr>"
    have sd: "ae_step_down rng req n = Some m" using Some by (simp add: ae_step_down_def m_def)
    show ?thesis
      by (simp only: handle_append_entries_def False Some sd if_False bind.simps Let_def
          m_def [symmetric] last_log_index_eq [of m])
        (auto simp: ae_consistent_def ae_reject_index_def ae_accept_def)
  qed
qed

lemma ae_step_down_inv:
  assumes "gen_range_ok rng" and "node_inv n" and "ae_step_down rng req n = Some m"
  shows "node_inv m \<and> role m = Follower"
proof (cases "ae_term req > current_term n \<or> role n \<noteq> Follower")
  case True
  then obtain k where k: "become_follower rng (ae_term req) (Some (ae_leader_id req)) n = Some k"
    and m: "m = k\<lparr>leader_id := Some (ae_leader_id req), election_elapsed := 0\<rparr>"
    using assms(3) by (auto simp: ae_step_down_def)
  then have "node_inv k" "role k = Follower"
    using assms become_follower_inv by (blast, auto simp: become_follower_Some_iff)
  then show ?thesis using m node_inv_heard by simp
next
  case False
  then have "m = n\<lparr>leader_id := Some (ae_leader_id req), election_elapsed := 0\<rparr>"
    using assms(3) by (simp add: ae_step_down_def)
  then show ?thesis using False assms(2) node_inv_heard by simp
qed

lemma ae_accept_inv:
  assumes "node_inv n" and "ae_accept req n = Some n'"
  shows "node_inv n'"
proof -
  from assms(2) obtain i k where "append_loop (ae_entries req) i n = Some k"
    and k: "n' = k \<or> (\<exists>c. commit_to c k = Some n')"
    by (auto simp: ae_accept_def bind_Some_iff split: if_splits)
  then have "node_inv k" using assms(1) by (auto dest!: append_loop_effect)
  then show ?thesis using k commit_to_inv by blast
qed

lemma handle_append_entries_inv:
  assumes "gen_range_ok rng" and "node_inv n" and "handle_append_entries rng req n = Some (n', r)"
  shows "node_inv n'"
  using assms(2,3)
  by (auto simp: handle_append_entries_split bind_Some_iff split: if_splits
      dest!: ae_step_down_inv [OF assms(1,2)] intro: ae_accept_inv)

lemma try_advance_inv:
  assumes "node_inv n" and "try_advance_commit_index n = Some n'"
  shows "node_inv n'"
proof -
  obtain c where "n' = n\<lparr>commit_index := c\<rparr>" "c = commit_index n \<or> snapshot_last_included_index n \<le> c"
    using try_advance_effect [OF assms(2)] by blast
  then show ?thesis using assms(1) node_inv_snapshot_le [OF assms(1)] node_inv_commit by auto
qed

lemma handle_append_entries_response_inv:
  assumes "gen_range_ok rng" and "node_inv n"
    and "handle_append_entries_response rng resp n = Some (n', ms)"
  shows "node_inv n'"
proof (cases "aer_term resp \<le> current_term n \<and> role n = Leader \<and> aer_term resp = current_term n")
  case False
  with assms show ?thesis
    by (auto simp: handle_append_entries_response_def bind_Some_iff split: if_splits intro: become_follower_inv)
next
  case True
  show ?thesis
  proof (cases "aer_success resp")
    case True
    define m where "m = n\<lparr>leader_match_index := hm_insert (aer_from resp) (aer_match_index resp) (leader_match_index n)\<rparr>"
    define k where "k = m\<lparr>leader_next_index := hm_insert (aer_from resp) (aer_match_index resp + 1) (leader_next_index m)\<rparr>"
    have "try_advance_commit_index k = Some n'"
      using assms(3) True \<open>_ \<and> _ \<and> _\<close>
      by (auto simp: handle_append_entries_response_def Let_def m_def k_def bind_Some_iff uadd_Some_iff)
    moreover have "node_inv m" "role m = Leader"
      using assms(2) \<open>_ \<and> _ \<and> _\<close> by (auto simp: m_def intro: node_inv_match)
    then have "node_inv k" by (auto simp: k_def intro: node_inv_next)
    ultimately show ?thesis using try_advance_inv by blast
  next
    case False
    with assms(3) \<open>_ \<and> _ \<and> _\<close> obtain x where
      "n' = n\<lparr>leader_next_index := hm_insert (aer_from resp) x (leader_next_index n)\<rparr>"
      by (auto simp: handle_append_entries_response_def Let_def bind_Some_iff)
    then show ?thesis using assms(2) \<open>_ \<and> _ \<and> _\<close> by (simp add: node_inv_next)
  qed
qed

lemma propose_command_inv:
  assumes "node_inv n" and "propose_command c n = Some (n', ms)"
  shows "node_inv n'"
proof (cases "role n = Leader")
  case False
  with assms show ?thesis by (simp add: propose_command_def)
next
  case True
  define m where "m = n\<lparr>log := log n @ [\<lparr>le_term = current_term n, le_command = c\<rparr>]\<rparr>"
  define k where "k = m\<lparr>leader_match_index := hm_insert (nid m) (log_end m) (leader_match_index m)\<rparr>"
  have "node_inv m" "role m = Leader" using assms(1) True by (simp_all add: m_def)
  then have "node_inv k" by (auto simp: k_def intro: node_inv_match)
  moreover from True assms(2) have "n' = k \<or> commit_to (log_end k) k = Some n'"
    by (auto simp: propose_command_def Let_def m_def [symmetric] bind_Some_iff last_log_index_Some_iff
        k_def [symmetric] split: if_splits)
  ultimately show ?thesis using commit_to_inv by blast
qed

text \<open>The two ends of the window that \<open>take_unapplied_entries\<close> hands out.\<close>

definition apply_from :: "raft_node \<Rightarrow> nat" where
  "apply_from n = max (last_applied n) (snapshot_last_included_index n)"

definition apply_to :: "raft_node \<Rightarrow> nat" where
  "apply_to n = min (commit_index n) (log_end n)"

lemma last_applied_self [simp]: "n\<lparr>last_applied := last_applied n\<rparr> = n"
  by simp

lemma take_unapplied_eq:
  assumes "log_end n < u64_limit"
  shows "take_unapplied_entries n =
    (if apply_to n \<le> apply_from n then Some (n\<lparr>last_applied := apply_from n\<rparr>, [])
     else Some (n\<lparr>last_applied := apply_to n\<rparr>,
                take (apply_to n - apply_from n) (drop (apply_from n - snapshot_last_included_index n) (log n))))"
proof -
  define m where "m = n\<lparr>last_applied := apply_from n\<rparr>"
  have m: "(if last_applied n < snapshot_last_included_index n
            then n\<lparr>last_applied := snapshot_last_included_index n\<rparr> else n) = m"
    by (auto simp: m_def apply_from_def max_def)
  have ml: "last_log_index m = Some (log_end n)" using assms by (simp add: last_log_index_eq m_def)
  have mf: "last_applied m = apply_from n" "commit_index m = commit_index n" "log m = log n"
    by (simp_all add: m_def)
  show ?thesis
  proof (cases "apply_to n \<le> apply_from n")
    case True
    then show ?thesis
      by (simp only: take_unapplied_entries_def m ml mf bind.simps Let_def apply_to_def [symmetric] if_True)
        (simp add: m_def)
  next
    case False
    then have lt: "apply_from n < apply_to n" "snapshot_last_included_index n \<le> apply_from n"
      "apply_to n \<le> log_end n" 
      unfolding apply_from_def apply_to_def by linarith+
    then have o: "offset_for_index m (apply_from n + 1) = Some (apply_from n - snapshot_last_included_index n)"
      "offset_for_index m (apply_to n) = Some (apply_to n - snapshot_last_included_index n - 1)"
      by (auto simp: offset_for_index_Some_iff m_def)
    have u: "uadd (apply_from n) 1 = Some (apply_from n + 1)" using lt assms by (simp add: uadd_def)
    have s: "slice_incl (log n) (apply_from n - snapshot_last_included_index n)
        (apply_to n - snapshot_last_included_index n - 1) =
      Some (take (apply_to n - apply_from n) (drop (apply_from n - snapshot_last_included_index n) (log n)))"
      using lt by (auto simp: slice_incl_def log_end_def)
    show ?thesis
      using False
      by (simp only: take_unapplied_entries_def m ml mf bind.simps Let_def apply_to_def [symmetric]
          if_False o u s option.case)
        (simp add: m_def)
  qed
qed

lemma take_unapplied_Some:
  "take_unapplied_entries n = Some r \<Longrightarrow> log_end n < u64_limit"
  by (cases "last_applied n < snapshot_last_included_index n")
    (auto simp: take_unapplied_entries_def Let_def bind_Some_iff last_log_index_Some_iff)

lemma take_unapplied_effect:
  "take_unapplied_entries n = Some (n', es) \<Longrightarrow>
   \<exists>a. n' = n\<lparr>last_applied := a\<rparr> \<and> snapshot_last_included_index n \<le> a"
  by (frule take_unapplied_Some) (auto simp: take_unapplied_eq apply_from_def split: if_splits)

lemma take_unapplied_inv:
  "node_inv n \<Longrightarrow> take_unapplied_entries n = Some (n', es) \<Longrightarrow> node_inv n'"
  using take_unapplied_effect node_inv_applied by blast

text \<open>Compaction never panics: its guards make the \<open>drain\<close> stay in range.\<close>

lemma compact_committed_eq:
  "compact_committed n =
     (if snapshot_last_included_index n < commit_index n \<and> commit_index n \<le> log_end n
      then Some (n\<lparr>log := drop (commit_index n - snapshot_last_included_index n) (log n),
                   snapshot_last_included_index := commit_index n,
                   snapshot_last_included_term := the (term_at n (commit_index n)),
                   last_applied := max (last_applied n) (commit_index n)\<rparr>, True)
      else Some (n, False))"
proof (cases "term_at n (commit_index n)")
  case None
  then have "commit_index n < snapshot_last_included_index n \<or> log_end n < commit_index n"
    by (simp add: term_at_None_iff)
  then show ?thesis using None by (auto simp: compact_committed_def Let_def)
next
  case (Some t)
  then have "\<not> (commit_index n < snapshot_last_included_index n \<or> log_end n < commit_index n)"
    using term_at_None_iff by (metis option.distinct(1))
  moreover from this have "min (commit_index n - snapshot_last_included_index n) (length (log n)) =
      commit_index n - snapshot_last_included_index n" unfolding log_end_def by linarith
  ultimately show ?thesis
    using Some by (auto simp: compact_committed_def Let_def drain_front_def log_end_def max_def)
qed

lemma compact_committed_inv:
  assumes "node_inv n" and "compact_committed n = Some (n', b)"
  shows "node_inv n'"
  using assms by (cases "role n"; auto simp: compact_committed_eq inv_defs split: if_splits)

lemma restore_from_storage_inv:
  "node_inv n \<Longrightarrow> restore_from_storage t v es c i it n = Some n' \<Longrightarrow> node_inv n'"
  by (auto simp: restore_from_storage_def Let_def panic_simps inv_defs)

subsection \<open>Any sequence of calls\<close>

text \<open>The public operations of \<open>RaftNode\<close>, with the node they leave behind.\<close>

datatype node_call =
    Tick
  | StartElection
  | HandleRequestVote request_vote
  | HandleRequestVoteResponse request_vote_response
  | HandleAppendEntries append_entries
  | HandleAppendEntriesResponse append_entries_response
  | ProposeCommand str
  | CommitTo nat
  | TakeUnapplied
  | CompactCommitted
  | RestoreFromStorage term_no "node_id option" "log_entry list" nat nat term_no

fun node_step :: "gen_range \<Rightarrow> node_call \<Rightarrow> raft_node \<Rightarrow> raft_node option" where
  "node_step rng Tick n = map_option fst (tick rng n)"
| "node_step rng StartElection n = map_option fst (start_election rng n)"
| "node_step rng (HandleRequestVote req) n = map_option fst (handle_request_vote rng req n)"
| "node_step rng (HandleRequestVoteResponse resp) n = map_option fst (handle_request_vote_response rng resp n)"
| "node_step rng (HandleAppendEntries req) n = map_option fst (handle_append_entries rng req n)"
| "node_step rng (HandleAppendEntriesResponse resp) n =
     map_option fst (handle_append_entries_response rng resp n)"
| "node_step rng (ProposeCommand c) n = map_option fst (propose_command c n)"
| "node_step rng (CommitTo c) n = commit_to c n"
| "node_step rng TakeUnapplied n = map_option fst (take_unapplied_entries n)"
| "node_step rng CompactCommitted n = map_option fst (compact_committed n)"
| "node_step rng (RestoreFromStorage t v es c i it) n = restore_from_storage t v es c i it n"

fun node_run :: "gen_range \<Rightarrow> node_call list \<Rightarrow> raft_node \<Rightarrow> raft_node option" where
  "node_run rng [] n = Some n"
| "node_run rng (c # cs) n = Option.bind (node_step rng c n) (node_run rng cs)"

lemmas operation_invs = tick_inv start_election_inv handle_request_vote_inv
  handle_request_vote_response_inv handle_append_entries_inv handle_append_entries_response_inv
  propose_command_inv commit_to_inv take_unapplied_inv compact_committed_inv restore_from_storage_inv

lemma node_step_inv:
  "gen_range_ok rng \<Longrightarrow> node_inv n \<Longrightarrow> node_step rng c n = Some n' \<Longrightarrow> node_inv n'"
  by (cases c) (auto dest: operation_invs)

lemma node_run_inv:
  "gen_range_ok rng \<Longrightarrow> node_inv n \<Longrightarrow> node_run rng cs n = Some n' \<Longrightarrow> node_inv n'"
  by (induction cs arbitrary: n) (auto simp: bind_Some_iff dest: node_step_inv)

end
