(* ===== verification/Node_Votes.thy ===== *)
theory Node_Votes
  imports Node_Inv
begin

text \<open>
  Elections on one node: terms never go back, a vote once given in a term stays, votes are granted
  exactly under the conditions of the Raft paper, and a node becomes leader only with a majority.
\<close>

subsection \<open>The effect of the vote handlers\<close>

lemma handle_request_vote_cases:
  assumes "handle_request_vote rng req n = Some (n', r)"
  obtains (stale) "rv_term req < current_term n" "n' = n"
    "r = \<lparr>rvr_term = current_term n, rvr_vote_granted = False, rvr_from = nid n\<rparr>"
  | (vote) m g where "current_term n \<le> rv_term req"
    "if current_term n < rv_term req then become_follower rng (rv_term req) None n = Some m else m = n"
    "g \<longleftrightarrow> voted_for m \<in> {None, Some (rv_candidate_id req)} \<and>
       candidate_log_is_up_to_date req (log_end m) (last_term m)"
    "if g then resample_timeout rng (m\<lparr>voted_for := Some (rv_candidate_id req), election_elapsed := 0\<rparr>) = Some n'
     else n' = m"
    "r = \<lparr>rvr_term = current_term n', rvr_vote_granted = g, rvr_from = nid n'\<rparr>"
proof (cases "rv_term req < current_term n")
  case True
  with assms have "n' = n \<and> r = \<lparr>rvr_term = current_term n, rvr_vote_granted = False, rvr_from = nid n\<rparr>"
    by (auto simp: handle_request_vote_def)
  then show ?thesis using True that(1) by blast
next
  case False
  let ?s = "if current_term n < rv_term req then become_follower rng (rv_term req) None n else Some n"
  from False assms obtain m where m: "?s = Some m" by (auto simp: handle_request_vote_def bind_Some_iff)
  define g where "g \<longleftrightarrow> voted_for m \<in> {None, Some (rv_candidate_id req)} \<and>
       candidate_log_is_up_to_date req (log_end m) (last_term m)"
  have "log_end m < u64_limit" using False assms m
    by (auto simp: handle_request_vote_def bind_Some_iff last_log_info_Some_iff)
  then have i: "last_log_info m = Some (log_end m, last_term m)" by (simp add: last_log_info_Some_iff)
  let ?v = "if g then resample_timeout rng (m\<lparr>voted_for := Some (rv_candidate_id req), election_elapsed := 0\<rparr>)
            else Some m"
  have "Option.bind ?v (\<lambda>k. Some (k, \<lparr>rvr_term = current_term k, rvr_vote_granted = g, rvr_from = nid k\<rparr>))
      = Some (n', r)"
    using assms False by (simp add: handle_request_vote_def m i Let_def g_def)
  then have v: "?v = Some n'" and r: "r = \<lparr>rvr_term = current_term n', rvr_vote_granted = g, rvr_from = nid n'\<rparr>"
    by (auto simp only: bind_Some_iff)
  show ?thesis
  proof (rule that(2) [OF _ _ g_def _ r])
    show "current_term n \<le> rv_term req" using False by simp
    show "if current_term n < rv_term req then become_follower rng (rv_term req) None n = Some m else m = n"
      using m by (simp split: if_splits)
    show "if g then resample_timeout rng (m\<lparr>voted_for := Some (rv_candidate_id req), election_elapsed := 0\<rparr>) = Some n'
          else n' = m" using v by (simp split: if_splits)
  qed
qed

lemma handle_request_vote_effect:
  assumes "handle_request_vote rng req n = Some (n', r)"
  shows "rvr_from r = nid n \<and> rvr_term r = max (current_term n) (rv_term req) \<and>
    current_term n' = max (current_term n) (rv_term req) \<and>
    (rvr_vote_granted r \<longleftrightarrow> current_term n \<le> rv_term req \<and>
      (current_term n < rv_term req \<or> voted_for n \<in> {None, Some (rv_candidate_id req)}) \<and>
      candidate_log_is_up_to_date req (log_end n) (last_term n)) \<and>
    voted_for n' = (if rvr_vote_granted r then Some (rv_candidate_id req)
                    else if current_term n < rv_term req then None else voted_for n) \<and>
    role n' = (if current_term n < rv_term req then Follower else role n) \<and>
    log n' = log n \<and> commit_index n' = commit_index n \<and> last_applied n' = last_applied n \<and>
    snapshot_last_included_index n' = snapshot_last_included_index n \<and>
    snapshot_last_included_term n' = snapshot_last_included_term n \<and>
    nid n' = nid n \<and> peers n' = peers n \<and>
    votes_received n' = (if current_term n < rv_term req then {} else votes_received n)"
  using assms
proof (cases rule: handle_request_vote_cases)
  case stale
  then show ?thesis by simp
next
  case (vote m g)
  have m: "current_term m = rv_term req" "voted_for m = (if current_term n < rv_term req then None else voted_for n)"
    "role m = (if current_term n < rv_term req then Follower else role n)"
    "log m = log n" "commit_index m = commit_index n" "last_applied m = last_applied n"
    "snapshot_last_included_index m = snapshot_last_included_index n"
    "snapshot_last_included_term m = snapshot_last_included_term n"
    "nid m = nid n" "peers m = peers n" "log_end m = log_end n" "last_term m = last_term n"
    "votes_received m = (if current_term n < rv_term req then {} else votes_received n)"
    using vote(1,2) by (auto simp: become_follower_Some_iff split: if_splits)
  show ?thesis
  proof (cases g)
    case True
    then have "\<exists>tm. n' = m\<lparr>voted_for := Some (rv_candidate_id req), election_elapsed := 0,
        current_election_timeout := tm, rng_draws := Suc (rng_draws m)\<rparr>"
      using vote(4) by (auto simp: resample_timeout_Some_iff)
    then obtain tm where n': "n' = m\<lparr>voted_for := Some (rv_candidate_id req), election_elapsed := 0,
        current_election_timeout := tm, rng_draws := Suc (rng_draws m)\<rparr>" by blast
    show ?thesis
      using True vote(1,3) by (cases "current_term n < rv_term req"; simp add: n' vote(5) m)
  next
    case False
    then have n': "n' = m" using vote(4) by simp
    show ?thesis
      using False vote(1,3) by (cases "current_term n < rv_term req"; auto simp add: n' vote(5) m)
  qed
qed

lemma handle_request_vote_response_cases:
  assumes "handle_request_vote_response rng resp n = Some (n', b)"
  obtains (newer) "current_term n < rvr_term resp" "become_follower rng (rvr_term resp) None n = Some n'" "\<not> b"
  | (ignored) "rvr_term resp \<le> current_term n" "role n \<noteq> Candidate \<or> rvr_term resp \<noteq> current_term n" "n' = n" "\<not> b"
  | (counted) m where "rvr_term resp = current_term n" "role n = Candidate"
    "m = (if rvr_vote_granted resp
          then n\<lparr>votes_received := insert (rvr_from resp) (votes_received n)\<rparr> else n)"
    "b \<longleftrightarrow> majority n \<le> card (votes_received m)" "if b then become_leader m = Some n' else n' = m"
proof (cases "rvr_term resp \<le> current_term n \<and> role n = Candidate \<and> rvr_term resp = current_term n")
  case False
  then have "current_term n < rvr_term resp \<and> become_follower rng (rvr_term resp) None n = Some n' \<and> \<not> b \<or>
      rvr_term resp \<le> current_term n \<and> (role n \<noteq> Candidate \<or> rvr_term resp \<noteq> current_term n) \<and> n' = n \<and> \<not> b"
    using assms by (auto simp: handle_request_vote_response_def bind_Some_iff split: if_splits)
  then show ?thesis using that(1,2) by blast
next
  case True
  define m where "m = (if rvr_vote_granted resp
      then n\<lparr>votes_received := insert (rvr_from resp) (votes_received n)\<rparr> else n)"
  have "(if majority m \<le> card (votes_received m)
         then Option.bind (become_leader m) (\<lambda>n. Some (n, True)) else Some (m, False)) = Some (n', b)"
    using assms True by (auto simp: handle_request_vote_response_def m_def Let_def split: if_splits)
  moreover have "majority m = majority n" by (simp add: m_def)
  ultimately show ?thesis
    using that(3) [of m] True m_def by (auto simp: bind_Some_iff split: if_splits)
qed

lemma handle_request_vote_response_effect:
  assumes "handle_request_vote_response rng resp n = Some (n', b)"
  shows "(if current_term n < rvr_term resp
          then current_term n' = rvr_term resp \<and> role n' = Follower \<and> voted_for n' = None \<and> \<not> b
          else current_term n' = current_term n \<and> voted_for n' = voted_for n) \<and>
    (b \<longrightarrow> role n = Candidate \<and> rvr_term resp = current_term n \<and> role n' = Leader \<and>
       majority n \<le> card (votes_received n')) \<and>
    (role n' = Leader \<longrightarrow> b \<or> n' = n) \<and>
    (votes_received n' = {} \<or> votes_received n' = votes_received n \<or>
       role n = Candidate \<and> rvr_term resp = current_term n \<and> rvr_vote_granted resp \<and>
       votes_received n' = insert (rvr_from resp) (votes_received n)) \<and>
    log n' = log n \<and> commit_index n' = commit_index n \<and> last_applied n' = last_applied n \<and>
    snapshot_last_included_index n' = snapshot_last_included_index n \<and>
    snapshot_last_included_term n' = snapshot_last_included_term n \<and>
    nid n' = nid n \<and> peers n' = peers n"
  using assms
proof (cases rule: handle_request_vote_response_cases)
  case newer
  then show ?thesis by (auto simp: become_follower_Some_iff)
next
  case ignored
  then show ?thesis by auto
next
  case (counted m)
  have m: "nid m = nid n" "peers m = peers n" "log m = log n" "commit_index m = commit_index n"
    "last_applied m = last_applied n" "snapshot_last_included_index m = snapshot_last_included_index n"
    "snapshot_last_included_term m = snapshot_last_included_term n" "current_term m = current_term n"
    "voted_for m = voted_for n" "role m = role n"
    "votes_received m = (if rvr_vote_granted resp then insert (rvr_from resp) (votes_received n) else votes_received n)"
    using counted(3) by simp_all
  show ?thesis
  proof (cases b)
    case True
    then have l: "become_leader m = Some n'" using counted(5) by simp
    have "role n' = Leader" "votes_received n' = votes_received m" "current_term n' = current_term m"
      "voted_for n' = voted_for m" "nid n' = nid m" "peers n' = peers m" "log n' = log m" "commit_index n' = commit_index m"
    "last_applied n' = last_applied m" "snapshot_last_included_index n' = snapshot_last_included_index m"
    "snapshot_last_included_term n' = snapshot_last_included_term m"
      using l by (auto simp: become_leader_Some_iff)
    then show ?thesis using m True counted(1,2,4) by simp
  next
    case False
    then show ?thesis using m counted(1,2,5) by simp
  qed
qed

subsection \<open>Terms and votes of one node\<close>

lemma ae_step_down_effect:
  "ae_step_down rng req n = Some m \<Longrightarrow>
   log m = log n \<and> commit_index m = commit_index n \<and> last_applied m = last_applied n \<and>
   snapshot_last_included_index m = snapshot_last_included_index n \<and>
   snapshot_last_included_term m = snapshot_last_included_term n \<and> nid m = nid n \<and> peers m = peers n \<and>
   role m = Follower \<and> leader_id m = Some (ae_leader_id req) \<and>
   current_term m = (if ae_term req > current_term n \<or> role n \<noteq> Follower then ae_term req else current_term n) \<and>
   voted_for m = (if ae_term req > current_term n \<or> role n \<noteq> Follower then None else voted_for n) \<and>
   election_elapsed m = 0 \<and> (votes_received m = {} \<or> m = n\<lparr>leader_id := Some (ae_leader_id req), election_elapsed := 0\<rparr>)"
proof (cases "ae_term req > current_term n \<or> role n \<noteq> Follower")
  case True
  then show "ae_step_down rng req n = Some m \<Longrightarrow> ?thesis"
    by (auto simp: ae_step_down_def become_follower_Some_iff)
next
  case False
  then show "ae_step_down rng req n = Some m \<Longrightarrow> ?thesis"
    by (auto simp: ae_step_down_def)
qed

lemma ae_accept_effect:
  assumes "ae_accept req n = Some n'"
  shows "\<exists>l c. n' = n\<lparr>log := l, commit_index := c\<rparr>"
proof -
  from assms obtain i k where "append_loop (ae_entries req) i n = Some k"
    and k: "n' = k \<or> (\<exists>c. commit_to c k = Some n')"
    by (auto simp: ae_accept_def bind_Some_iff split: if_splits)
  then obtain l where "k = n\<lparr>log := l\<rparr>" by (auto dest!: append_loop_effect)
  then have "n' = n\<lparr>log := l, commit_index := commit_index n\<rparr> \<or> (\<exists>c. n' = n\<lparr>log := l, commit_index := c\<rparr>)"
    using k by (auto simp: commit_to_Some_iff)
  then show ?thesis by blast
qed

lemma handle_append_entries_cases:
  assumes "handle_append_entries rng req n = Some (n', r)"
  obtains (stale) "ae_term req < current_term n" "n' = n" "\<not> aer_success r" "aer_match_index r = log_end n"
    "aer_term r = current_term n" "aer_from r = nid n"
  | (reject) "current_term n \<le> ae_term req" "ae_step_down rng req n = Some n'" "\<not> ae_consistent req n'"
    "\<not> aer_success r" "aer_match_index r = ae_reject_index req n'" "aer_term r = current_term n'" "aer_from r = nid n"
  | (accept) m where "current_term n \<le> ae_term req" "ae_step_down rng req n = Some m" "ae_consistent req m"
    "ae_accept req m = Some n'" "aer_success r" "aer_match_index r = log_end n'" "log_end n' < u64_limit"
    "aer_term r = current_term n'" "aer_from r = nid n"
proof (cases "ae_term req < current_term n")
  case True
  with assms have "n' = n \<and> log_end n < u64_limit \<and> r = \<lparr>aer_term = current_term n, aer_success = False,
      aer_from = nid n, aer_match_index = log_end n\<rparr>"
    by (auto simp: handle_append_entries_split last_log_index_Some_iff)
  then show ?thesis using True that(1) by simp
next
  case False
  then obtain m where m: "ae_step_down rng req n = Some m"
    using assms by (auto simp: handle_append_entries_split bind_Some_iff)
  then have ids: "nid m = nid n" by (simp add: ae_step_down_effect)
  show ?thesis
  proof (cases "ae_consistent req m")
    case True
    with assms False m obtain k where "ae_accept req m = Some k" "last_log_index k = Some (log_end k)"
      "n' = k" "r = \<lparr>aer_term = current_term k, aer_success = True, aer_from = nid k, aer_match_index = log_end k\<rparr>"
      by (auto simp: handle_append_entries_split bind_Some_iff last_log_index_Some_iff split: if_splits)
    moreover have "nid k = nid m" using ae_accept_effect [OF calculation(1)] by auto
    ultimately show ?thesis
      using that(3) [of m] False m True ids by (simp add: last_log_index_Some_iff)
  next
    case no: False
    then have "n' = m \<and> r = \<lparr>aer_term = current_term m, aer_success = False, aer_from = nid m,
        aer_match_index = ae_reject_index req m\<rparr>"
      using assms False m by (auto simp: handle_append_entries_split split: if_splits)
    then show ?thesis using that(2) False m no ids by simp
  qed
qed

lemma try_advance_frame:
  "try_advance_commit_index n = Some n' \<Longrightarrow> \<exists>c. n' = n\<lparr>commit_index := c\<rparr>"
  using try_advance_effect by blast

lemma handle_append_entries_response_effect:
  assumes "handle_append_entries_response rng resp n = Some (n', ms)"
  shows "\<exists>x m c. n' = n\<lparr>leader_next_index := x, leader_match_index := m, commit_index := c\<rparr> \<or>
    (current_term n < aer_term resp \<and> ms = [] \<and> become_follower rng (aer_term resp) None n = Some n')"
proof (cases "aer_term resp \<le> current_term n \<and> role n = Leader \<and> aer_term resp = current_term n")
  case False
  then consider "current_term n < aer_term resp" | "aer_term resp \<le> current_term n" "n' = n"
    using assms by (fastforce simp: handle_append_entries_response_def split: if_splits)
  then show ?thesis
  proof cases
    case 1
    with assms show ?thesis by (auto simp: handle_append_entries_response_def bind_Some_iff)
  next
    case 2
    then have "n' = n\<lparr>leader_next_index := leader_next_index n, leader_match_index := leader_match_index n,
      commit_index := commit_index n\<rparr>" by simp
    then show ?thesis by blast
  qed
next
  case True
  show ?thesis
  proof (cases "aer_success resp")
    case suc: True
    define m where "m = n\<lparr>leader_match_index := hm_insert (aer_from resp) (aer_match_index resp) (leader_match_index n)\<rparr>"
    define k where "k = m\<lparr>leader_next_index := hm_insert (aer_from resp) (aer_match_index resp + 1) (leader_next_index m)\<rparr>"
    have "try_advance_commit_index k = Some n'"
      using assms suc True
      by (auto simp: handle_append_entries_response_def Let_def m_def k_def bind_Some_iff uadd_Some_iff)
    then obtain c where "n' = k\<lparr>commit_index := c\<rparr>" using try_advance_frame by blast
    then have "n' = n\<lparr>leader_next_index := leader_next_index k, leader_match_index := leader_match_index k,
      commit_index := c\<rparr>" by (simp add: k_def m_def)
    then show ?thesis by blast
  next
    case False
    with assms True obtain x where
      "n' = n\<lparr>leader_next_index := x\<rparr>"
      by (auto simp: handle_append_entries_response_def Let_def bind_Some_iff)
    then have "n' = n\<lparr>leader_next_index := x, leader_match_index := leader_match_index n,
      commit_index := commit_index n\<rparr>" by simp
    then show ?thesis by blast
  qed
qed

lemma propose_command_effect:
  assumes "propose_command c n = Some (n', ms)"
  shows "(role n \<noteq> Leader \<and> n' = n \<and> ms = None) \<or>
    (role n = Leader \<and> (\<exists>out k m. ms = Some out \<and>
       n' = n\<lparr>log := log n @ [\<lparr>le_term = current_term n, le_command = c\<rparr>], leader_match_index := m, commit_index := k\<rparr>))"
proof (cases "role n = Leader")
  case False
  with assms show ?thesis by (simp add: propose_command_def)
next
  case True
  define m where "m = n\<lparr>log := log n @ [\<lparr>le_term = current_term n, le_command = c\<rparr>]\<rparr>"
  define k where "k = m\<lparr>leader_match_index := hm_insert (nid m) (log_end m) (leader_match_index m)\<rparr>"
  from True assms have "\<exists>out. ms = Some out" "n' = k \<or> commit_to (log_end k) k = Some n'"
    by (auto simp: propose_command_def Let_def m_def [symmetric] bind_Some_iff last_log_index_Some_iff
        k_def [symmetric] split: if_splits)
  then obtain out where ms: "ms = Some out"
    and "n' = k\<lparr>commit_index := commit_index k\<rparr> \<or> (\<exists>x. n' = k\<lparr>commit_index := x\<rparr>)"
    by (auto simp: commit_to_Some_iff)
  then obtain x where "n' = k\<lparr>commit_index := x\<rparr>" by blast
  then have "n' = n\<lparr>log := log n @ [\<lparr>le_term = current_term n, le_command = c\<rparr>],
      leader_match_index := leader_match_index k, commit_index := x\<rparr>" by (simp add: k_def m_def)
  then show ?thesis using True ms by blast
qed

lemma tick_cases:
  assumes "tick rng n = Some (n', ms)"
  obtains (leader) h where "role n = Leader" "n' = n\<lparr>heartbeat_elapsed := h\<rparr>"
    "ms = [] \<or> build_heartbeat_messages n' = Some ms"
  | (quiet) "role n \<noteq> Leader" "n' = n\<lparr>election_elapsed := election_elapsed n + 1\<rparr>" "ms = []"
  | (election) "role n \<noteq> Leader" "start_election rng (n\<lparr>election_elapsed := election_elapsed n + 1\<rparr>) = Some (n', ms)"
proof (cases "role n")
  case Leader
  then have h: "uadd (heartbeat_elapsed n) 1 = Some (heartbeat_elapsed n + 1)"
    using assms by (cases "uadd (heartbeat_elapsed n) 1") (auto simp: tick_def uadd_Some_iff)
  show ?thesis
  proof (cases "heartbeat_interval n \<le> heartbeat_elapsed n + 1")
    case True
    with Leader h assms that(1) [of 0] show ?thesis by (auto simp: tick_def Let_def bind_Some_iff)
  next
    case False
    with Leader h assms that(1) [of "heartbeat_elapsed n + 1"] show ?thesis by (auto simp: tick_def Let_def)
  qed
next
  case Follower
  then have h: "uadd (election_elapsed n) 1 = Some (election_elapsed n + 1)"
    using assms by (cases "uadd (election_elapsed n) 1") (auto simp: tick_def uadd_Some_iff)
  show ?thesis
  proof (cases "current_election_timeout n \<le> election_elapsed n + 1")
    case True
    with Follower h assms that(3) show ?thesis by (simp add: tick_def Let_def)
  next
    case False
    with Follower h assms that(2) show ?thesis by (simp add: tick_def Let_def)
  qed
next
  case Candidate
  then have h: "uadd (election_elapsed n) 1 = Some (election_elapsed n + 1)"
    using assms by (cases "uadd (election_elapsed n) 1") (auto simp: tick_def uadd_Some_iff)
  show ?thesis
  proof (cases "current_election_timeout n \<le> election_elapsed n + 1")
    case True
    with Candidate h assms that(3) show ?thesis by (simp add: tick_def Let_def)
  next
    case False
    with Candidate h assms that(2) show ?thesis by (simp add: tick_def Let_def)
  qed
qed

lemma restore_from_storage_Some_iff [panic_simps]:
  "(restore_from_storage t v es c i it n = Some n') =
     (i + length es < u64_limit \<and>
      n' = n\<lparr>current_term := t, voted_for := v, log := es, snapshot_last_included_index := i,
             snapshot_last_included_term := it, role := Follower, leader_id := None,
             votes_received := {}, leader_next_index := [], leader_match_index := [],
             election_elapsed := 0, heartbeat_elapsed := 0,
             commit_index := max i (min c (i + length es)), last_applied := i\<rparr>)"
  by (auto simp: restore_from_storage_def Let_def panic_simps log_end_def)

fun is_restore :: "node_call \<Rightarrow> bool" where
  "is_restore (RestoreFromStorage _ _ _ _ _ _) = True"
| "is_restore _ = False"

text \<open>
  What a call other than \<open>restore_from_storage\<close> does to the term and the vote: a newer term, with the
  vote then set by the call itself; or the same term, with the vote kept, given for the first time,
  or dropped by a candidate or leader that steps down to the leader of its own term.
\<close>

text \<open>A node that gives up its vote in its term was not a follower and yields to a leader.\<close>

lemma append_entries_term_vote:
  assumes "handle_append_entries rng req n = Some (n', r)"
  shows "current_term n < current_term n' \<or>
    current_term n' = current_term n \<and>
      (voted_for n' = voted_for n \<or>
       role n \<noteq> Follower \<and> role n' = Follower \<and> voted_for n' = None \<and> ae_term req = current_term n)"
  using assms
proof (cases rule: handle_append_entries_cases)
  case stale
  then show ?thesis by simp
next
  case reject
  then show ?thesis using ae_step_down_effect [OF reject(2)] by (auto split: if_splits)
next
  case (accept m)
  then show ?thesis
    using ae_step_down_effect [OF accept(2)] ae_accept_effect [OF accept(4)] by (auto split: if_splits)
qed

lemma node_step_term_vote:
  assumes "node_step rng c n = Some n'" and "\<not> is_restore c"
  shows "current_term n < current_term n' \<or>
    (current_term n' = current_term n \<and>
      (voted_for n' = voted_for n \<or> voted_for n = None \<or>
       (role n \<noteq> Follower \<and> role n' = Follower \<and> voted_for n' = None \<and>
        (\<exists>req. c = HandleAppendEntries req \<and> ae_term req = current_term n))))"
proof (cases c)
  case Tick
  then obtain ms where "tick rng n = Some (n', ms)" using assms(1) by auto
  then show ?thesis by (cases rule: tick_cases) (auto simp: start_election_Some_iff)
next
  case StartElection
  then show ?thesis using assms(1) by (auto simp: start_election_Some_iff)
next
  case (HandleRequestVote req)
  then obtain r where "handle_request_vote rng req n = Some (n', r)" using assms(1) by auto
  then show ?thesis by (auto dest!: handle_request_vote_effect split: if_splits)
next
  case (HandleRequestVoteResponse resp)
  then obtain b where "handle_request_vote_response rng resp n = Some (n', b)" using assms(1) by auto
  then show ?thesis by (auto dest!: handle_request_vote_response_effect split: if_splits)
next
  case (HandleAppendEntries req)
  then obtain r where "handle_append_entries rng req n = Some (n', r)" using assms(1) by auto
  from append_entries_term_vote [OF this] show ?thesis using HandleAppendEntries by blast
next
  case (HandleAppendEntriesResponse resp)
  then obtain ms where "handle_append_entries_response rng resp n = Some (n', ms)" using assms(1) by auto
  then show ?thesis by (auto dest!: handle_append_entries_response_effect simp: become_follower_Some_iff)
next
  case (ProposeCommand x)
  then obtain ms where "propose_command x n = Some (n', ms)" using assms(1) by auto
  then show ?thesis by (auto dest!: propose_command_effect)
next
  case (CommitTo k)
  then show ?thesis using assms(1) by (auto simp: commit_to_Some_iff)
next
  case TakeUnapplied
  then show ?thesis using assms(1) by (auto dest!: take_unapplied_effect)
next
  case CompactCommitted
  then show ?thesis using assms(1) by (auto simp: compact_committed_eq split: if_splits)
next
  case RestoreFromStorage
  then show ?thesis using assms(2) by simp
qed

text \<open>The identity of a node and its peers never change.\<close>

lemma node_step_ids:
  assumes "node_step rng c n = Some n'"
  shows "nid n' = nid n \<and> peers n' = peers n"
proof (cases c)
  case Tick
  then obtain ms where "tick rng n = Some (n', ms)" using assms by auto
  then show ?thesis by (cases rule: tick_cases) (auto simp: start_election_Some_iff)
next
  case (HandleRequestVote req)
  then obtain r where "handle_request_vote rng req n = Some (n', r)" using assms by auto
  then show ?thesis by (auto dest!: handle_request_vote_effect)
next
  case (HandleRequestVoteResponse resp)
  then obtain b where "handle_request_vote_response rng resp n = Some (n', b)" using assms by auto
  then show ?thesis by (auto dest!: handle_request_vote_response_effect)
next
  case (HandleAppendEntries req)
  then obtain r where "handle_append_entries rng req n = Some (n', r)" using assms by auto
  then show ?thesis
    by (cases rule: handle_append_entries_cases) (auto dest!: ae_step_down_effect ae_accept_effect)
next
  case (HandleAppendEntriesResponse resp)
  then obtain ms where "handle_append_entries_response rng resp n = Some (n', ms)" using assms by auto
  then show ?thesis by (auto dest!: handle_append_entries_response_effect simp: become_follower_Some_iff)
next
  case (ProposeCommand x)
  then obtain ms where "propose_command x n = Some (n', ms)" using assms by auto
  then show ?thesis by (auto dest!: propose_command_effect)
next
  case TakeUnapplied
  then obtain es where "take_unapplied_entries n = Some (n', es)" using assms by auto
  then show ?thesis by (auto dest!: take_unapplied_effect)
next
  case CompactCommitted
  then show ?thesis using assms by (auto simp: compact_committed_eq split: if_splits)
qed (use assms in \<open>auto simp: start_election_Some_iff commit_to_Some_iff restore_from_storage_Some_iff\<close>)

lemma node_run_ids: "node_run rng cs n = Some n' \<Longrightarrow> nid n' = nid n \<and> peers n' = peers n"
  by (induction cs arbitrary: n) (auto simp: bind_Some_iff dest!: node_step_ids)

lemma node_step_term_mono:
  "node_step rng c n = Some n' \<Longrightarrow> \<not> is_restore c \<Longrightarrow> current_term n \<le> current_term n'"
  using node_step_term_vote by fastforce

lemma node_run_term_mono:
  "node_run rng cs n = Some n' \<Longrightarrow> \<forall>c \<in> set cs. \<not> is_restore c \<Longrightarrow> current_term n \<le> current_term n'"
proof (induction cs arbitrary: n)
  case (Cons c cs)
  then obtain m where "node_step rng c n = Some m" "node_run rng cs m = Some n'"
    by (auto simp: bind_Some_iff)
  then show ?case using Cons.IH Cons.prems(2) node_step_term_mono by fastforce
qed simp

subsection \<open>Majorities\<close>

text \<open>Two majorities of the same cluster share a member; a smaller vote count would not do.\<close>

lemma majority_intersect:
  assumes "A \<subseteq> U" and "B \<subseteq> U" and "finite U" and "card U \<le> length (peers n) + 1"
    and "majority n \<le> card A" and "majority n \<le> card B"
  shows "A \<inter> B \<noteq> {}"
proof
  assume "A \<inter> B = {}"
  then have "card A + card B = card (A \<union> B)"
    using assms by (metis card_Un_disjoint finite_subset)
  also have "\<dots> \<le> card U" using assms by (intro card_mono) auto
  finally show False using assms(4-6) by (simp add: majority_def)
qed

end
