(* ===== verification/Node_Replication.thy ===== *)
theory Node_Replication
  imports Node_Votes
begin

text \<open>
  Log replication on one node: what a follower's log is after an AppendEntries request, what a
  leader sends and when it gives up, how the commit index moves, which entries are handed to the
  state machine, and what compaction keeps.
\<close>

subsection \<open>The log of a follower after a request\<close>

lemma entry_at_log:
  "entry_at n i =
     (if snapshot_last_included_index n < i \<and> i - snapshot_last_included_index n - 1 < length (log n)
      then Some (log n ! (i - snapshot_last_included_index n - 1)) else None)"
  by (auto simp: entry_at_def log_end_def)

lemma ae_accept_log:
  assumes "ae_consistent req n" and "ae_accept req n = Some n'"
  defines "j \<equiv> ae_prev_log_index req - snapshot_last_included_index n"
  shows "log n' = take j (log n) @ reconcile (drop j (log n)) (ae_entries req) \<and>
    snapshot_last_included_index n' = snapshot_last_included_index n \<and>
    snapshot_last_included_term n' = snapshot_last_included_term n \<and>
    commit_index n' = (if ae_leader_commit req > commit_index n
      then max (snapshot_last_included_index n) (min (ae_leader_commit req) (log_end n')) else commit_index n)"
proof -
  from assms(2) obtain k where k: "append_loop (ae_entries req) (ae_prev_log_index req + 1) n = Some k"
    and c: "(if ae_leader_commit req > commit_index k
       then log_end k < u64_limit \<and> commit_to (min (ae_leader_commit req) (log_end k)) k = Some n' else n' = k)"
    by (auto simp: ae_accept_def bind_Some_iff uadd_Some_iff last_log_index_Some_iff split: if_splits)
  have "k = n\<lparr>log := take j (log n) @ reconcile (drop j (log n)) (ae_entries req)\<rparr>"
    using append_loop_reconcile [OF _ _ k] assms(1) unfolding j_def ae_consistent_def by simp
  then show ?thesis using c
    by (auto simp: commit_to_Some_iff log_end_def split: if_splits)
qed

lemma ae_consistent_prefix_length:
  "ae_consistent req n \<Longrightarrow>
   ae_prev_log_index req - snapshot_last_included_index n \<le> length (log n) \<and>
   snapshot_last_included_index n \<le> ae_prev_log_index req"
  by (auto simp: ae_consistent_def log_end_def)

lemma ae_accept_log_end:
  assumes "ae_consistent req n" and "ae_accept req n = Some n'"
  shows "ae_prev_log_index req + length (ae_entries req) \<le> log_end n'"
  using ae_accept_log [OF assms] ae_consistent_prefix_length [OF assms(1)]
    length_reconcile [of "ae_entries req"
      "drop (ae_prev_log_index req - snapshot_last_included_index n) (log n)"]
  by (simp add: log_end_def)

text \<open>Up to \<open>prev_log_index\<close> nothing changes.\<close>

lemma ae_accept_keeps_prefix:
  assumes "ae_consistent req n" and "ae_accept req n = Some n'" and "i \<le> ae_prev_log_index req"
  shows "entry_at n' i = entry_at n i" and "term_at n' i = term_at n i"
proof -
  define s where "s = snapshot_last_included_index n"
  define j where "j = ae_prev_log_index req - s"
  have s: "snapshot_last_included_index n' = s" "snapshot_last_included_term n' = snapshot_last_included_term n"
    and l: "log n' = take j (log n) @ reconcile (drop j (log n)) (ae_entries req)"
    using ae_accept_log [OF assms(1,2)] by (simp_all add: s_def j_def)
  have j: "j \<le> length (log n)" "s \<le> ae_prev_log_index req"
    using ae_consistent_prefix_length [OF assms(1)] by (simp_all add: s_def j_def)
  show e: "entry_at n' i = entry_at n i"
  proof (cases "s < i")
    case True
    then have "i - s - 1 < j" using assms(3) j by (simp add: j_def)
    then show ?thesis using True j s l by (simp add: entry_at_log s_def [symmetric] nth_append)
  next
    case False
    then show ?thesis using s by (simp add: entry_at_log s_def [symmetric])
  qed
  show "term_at n' i = term_at n i" using e s by (simp add: term_at_entry s_def)
qed

text \<open>After it, the terms are those of the request.\<close>

lemma ae_accept_new_terms:
  assumes "ae_consistent req n" and "ae_accept req n = Some n'" and "k < length (ae_entries req)"
  shows "term_at n' (ae_prev_log_index req + 1 + k) = Some (le_term (ae_entries req ! k))"
proof -
  define s where "s = snapshot_last_included_index n"
  define j where "j = ae_prev_log_index req - s"
  have s: "snapshot_last_included_index n' = s"
    and l: "log n' = take j (log n) @ reconcile (drop j (log n)) (ae_entries req)"
    using ae_accept_log [OF assms(1,2)] by (simp_all add: s_def j_def)
  have j: "j \<le> length (log n)" "s \<le> ae_prev_log_index req"
    using ae_consistent_prefix_length [OF assms(1)] by (simp_all add: s_def j_def)
  have x: "ae_prev_log_index req + 1 + k - s - 1 = j + k" using j by (simp add: j_def)
  have len: "k < length (reconcile (drop j (log n)) (ae_entries req))"
    using assms(3) length_reconcile less_le_trans by blast
  have "entry_at n' (ae_prev_log_index req + 1 + k) = Some (reconcile (drop j (log n)) (ae_entries req) ! k)"
    unfolding entry_at_log s x l using j len by (simp add: nth_append min_absorb2)
  then show ?thesis
    using j s reconcile_terms [OF assms(3)] by (simp add: term_at_entry)
qed

text \<open>
  Entries up to an index \<open>c\<close> survive when the request does not contradict them. With \<open>c\<close> the commit
  index this is what the leader's completeness guarantees to the follower.
\<close>

definition agrees_up_to :: "append_entries \<Rightarrow> nat \<Rightarrow> raft_node \<Rightarrow> bool" where
  "agrees_up_to req c n \<longleftrightarrow>
     (\<forall>k < length (ae_entries req). ae_prev_log_index req + 1 + k \<le> c \<longrightarrow>
        term_at n (ae_prev_log_index req + 1 + k) = Some (le_term (ae_entries req ! k)))"

lemma ae_accept_keeps_agreed:
  assumes "ae_consistent req n" and "ae_accept req n = Some n'" and "agrees_up_to req c n"
    and "c \<le> log_end n" and "i \<le> c"
  shows "entry_at n' i = entry_at n i" and "c \<le> log_end n'"
proof -
  define s where "s = snapshot_last_included_index n"
  define j where "j = ae_prev_log_index req - s"
  define xs where "xs = drop j (log n)"
  define d where "d = c - ae_prev_log_index req"
  have s: "snapshot_last_included_index n' = s"
    and l: "log n' = take j (log n) @ reconcile xs (ae_entries req)"
    using ae_accept_log [OF assms(1,2)] by (simp_all add: s_def j_def xs_def)
  have j: "j \<le> length (log n)" "s \<le> ae_prev_log_index req"
    using ae_consistent_prefix_length [OF assms(1)] by (simp_all add: s_def j_def)
  have "le_term (xs ! k) = le_term (ae_entries req ! k)"
    if "k < d" "k < length xs" "k < length (ae_entries req)" for k
  proof -
    have "term_at n (ae_prev_log_index req + 1 + k) = Some (le_term (ae_entries req ! k))"
      using assms(3) that by (auto simp: agrees_up_to_def d_def)
    moreover have "entry_at n (ae_prev_log_index req + 1 + k) = Some (xs ! k)"
      using j that by (simp add: entry_at_log xs_def j_def s_def [symmetric] add.commute)
    ultimately show ?thesis using j by (simp add: term_at_entry s_def [symmetric])
  qed
  then have "agrees (take d xs) (take d (ae_entries req))" by (auto simp: agrees_def)
  then have t: "take d (reconcile xs (ae_entries req)) = take d (xs @ drop (length xs) (ae_entries req))"
    by (rule reconcile_keeps_prefix)
  have lx: "d \<le> length xs" using assms(4) j by (simp add: d_def xs_def j_def log_end_def s_def)
  then have t': "take d (reconcile xs (ae_entries req)) = take d xs" using t by simp
  then have lr: "d \<le> length (reconcile xs (ae_entries req))"
    using lx by (metis length_take min.absorb_iff2 min.cobounded1 min_absorb2)
  then show "c \<le> log_end n'" using s l j by (simp add: log_end_def d_def j_def min_absorb2)
  show "entry_at n' i = entry_at n i"
  proof (cases "i \<le> ae_prev_log_index req")
    case True
    then show ?thesis using ae_accept_keeps_prefix(1) assms(1,2) by blast
  next
    case False
    define k where "k = i - ae_prev_log_index req - 1"
    have k: "k < d" "i - s - 1 = j + k" using False assms(5) j by (auto simp: k_def d_def j_def)
    have "log n' ! (j + k) = log n ! (j + k)"
      using t' k(1) lr lx j nth_take [of k d "reconcile xs (ae_entries req)"] nth_take [of k d xs]
      by (simp add: l nth_append min_absorb2 xs_def)
    then show ?thesis using False j lr lx k
      by (simp add: entry_at_log s s_def [symmetric] l min_absorb2 xs_def)
  qed
qed

subsection \<open>The messages of a leader\<close>

definition next_index_for :: "raft_node \<Rightarrow> node_id \<Rightarrow> nat" where
  "next_index_for n peer = (case hm_get (leader_next_index n) peer of Some i \<Rightarrow> i | None \<Rightarrow> 1)"

definition replication_message :: "raft_node \<Rightarrow> nat \<Rightarrow> append_entries" where
  "replication_message n next_idx =
     \<lparr>ae_term = current_term n, ae_leader_id = nid n, ae_prev_log_index = next_idx - 1,
      ae_prev_log_term = the (term_at n (next_idx - 1)),
      ae_entries = drop (next_idx - 1 - snapshot_last_included_index n) (log n),
      ae_leader_commit = commit_index n\<rparr>"

text \<open>
  A message is built exactly when the next index lies above the snapshot and at most one past the
  end of the log. At or below the snapshot, and past the end, the peer gets nothing.
\<close>

lemma build_append_entries_eq:
  assumes "log_end n < u64_limit"
  shows "build_append_entries_for_peer n peer =
     Some (if snapshot_last_included_index n < next_index_for n peer \<and> next_index_for n peer \<le> log_end n + 1
           then Some (replication_message n (next_index_for n peer)) else None)"
proof -
  let ?i = "next_index_for n peer"
  consider "?i \<le> snapshot_last_included_index n" | "log_end n + 1 < ?i"
    | "snapshot_last_included_index n < ?i" "?i \<le> log_end n" | "snapshot_last_included_index n < ?i" "?i = log_end n + 1"
    by linarith
  then show ?thesis
  proof cases
    case 1
    then show ?thesis by (simp add: build_append_entries_for_peer_def next_index_for_def [symmetric] Let_def)
  next
    case 2
    then have "term_at n (?i - 1) = None" unfolding term_at_None_iff by linarith
    then show ?thesis using 2
      by (simp add: build_append_entries_for_peer_def next_index_for_def [symmetric] Let_def)
  next
    case 3
    then obtain t where t: "term_at n (?i - 1) = Some t"
      using term_at_inside [of n "?i - 1"] by fastforce
    have o: "offset_for_index n ?i = Some (?i - snapshot_last_included_index n - 1)"
      using 3 by (simp add: offset_for_index_Some_iff)
    have sl: "slice_from (log n) (?i - snapshot_last_included_index n - 1) =
        Some (drop (?i - snapshot_last_included_index n - 1) (log n))"
      using 3 by (simp add: slice_from_def log_end_def)
    show ?thesis using 3 assms t o sl
      by (simp add: build_append_entries_for_peer_def next_index_for_def [symmetric] Let_def
          last_log_index_eq replication_message_def diff_commute)
  next
    case 4
    then have "term_at n (?i - 1) = Some (last_term n)" by (simp add: term_at_log_end)
    moreover have "drop (?i - 1 - snapshot_last_included_index n) (log n) = []"
      using 4 by (simp add: log_end_def)
    ultimately show ?thesis using 4 assms
      by (simp add: build_append_entries_for_peer_def next_index_for_def [symmetric] Let_def
          last_log_index_eq replication_message_def)
  qed
qed

text \<open>The request always carries the whole tail of the log, so it ends where the leader's log ends.\<close>

lemma replication_message_end:
  assumes "snapshot_last_included_index n < i" and "i \<le> log_end n + 1"
  shows "ae_prev_log_index (replication_message n i) + length (ae_entries (replication_message n i)) = log_end n"
    and "term_at n (i - 1) = Some (ae_prev_log_term (replication_message n i))"
    and "k < length (ae_entries (replication_message n i)) \<Longrightarrow>
      entry_at n (i + k) = Some (ae_entries (replication_message n i) ! k)"
proof -
  show "ae_prev_log_index (replication_message n i) + length (ae_entries (replication_message n i)) = log_end n"
    using assms by (simp add: replication_message_def log_end_def)
  show "term_at n (i - 1) = Some (ae_prev_log_term (replication_message n i))"
    using assms term_at_inside [of n "i - 1"] by (auto simp: replication_message_def)
  show "k < length (ae_entries (replication_message n i)) \<Longrightarrow>
      entry_at n (i + k) = Some (ae_entries (replication_message n i) ! k)"
  proof -
    let ?s = "snapshot_last_included_index n"
    assume "k < length (ae_entries (replication_message n i))"
    then have k: "k < length (log n) - (i - 1 - ?s)" by (simp add: replication_message_def)
    then have x: "i + k - ?s - 1 = i - 1 - ?s + k" and "i - 1 - ?s + k < length (log n)" "?s < i + k"
      using assms by simp_all
    then have "entry_at n (i + k) = Some (log n ! (i - 1 - ?s + k))"
      unfolding entry_at_log x by simp
    then show ?thesis using k by (simp add: replication_message_def)
  qed
qed

lemma build_messages_for_eq:
  assumes "log_end n < u64_limit"
  shows "build_messages_for n ps =
     Some (map (\<lambda>p. OutAppendEntries p (replication_message n (next_index_for n p)))
       (filter (\<lambda>p. snapshot_last_included_index n < next_index_for n p \<and> next_index_for n p \<le> log_end n + 1) ps))"
  by (induction ps) (simp_all add: build_append_entries_eq [OF assms])

subsection \<open>Backing off after a rejection\<close>

lemma handle_rejection:
  assumes "log_end n + 1 < u64_limit" and "role n = Leader" and "aer_term resp = current_term n"
    and "\<not> aer_success resp" and "hm_get (leader_next_index n) (aer_from resp) = Some i"
  shows "\<exists>ms. handle_append_entries_response rng resp n =
    Some (n\<lparr>leader_next_index := hm_insert (aer_from resp) (max (i - 1) 1) (leader_next_index n)\<rparr>, ms) \<and>
    ms = (if snapshot_last_included_index n < max (i - 1) 1 \<and> max (i - 1) 1 \<le> log_end n + 1
          then [OutAppendEntries (aer_from resp) (replication_message n (max (i - 1) 1))] else [])"
proof -
  define m where "m = n\<lparr>leader_next_index := hm_insert (aer_from resp) (max (i - 1) 1) (leader_next_index n)\<rparr>"
  have b: "build_append_entries_for_peer m (aer_from resp) =
     Some (if snapshot_last_included_index n < max (i - 1) 1 \<and> max (i - 1) 1 \<le> log_end n + 1
           then Some (replication_message n (max (i - 1) 1)) else None)"
    using assms(1) by (simp add: build_append_entries_eq m_def next_index_for_def replication_message_def)
  show ?thesis
    using assms b
    by (simp add: handle_append_entries_response_def last_log_index_eq m_def Let_def)
qed

text \<open>\<open>k\<close> rejections in a row lower one next index by \<open>k\<close>, but never below 1, and keep the others.\<close>

lemma rejections_lower_next_index:
  assumes "log_end n + 1 < u64_limit" and "role n = Leader" and "aer_term resp = current_term n"
    and "\<not> aer_success resp" and "hm_get (leader_next_index n) (aer_from resp) = Some i" and "1 \<le> i"
  shows "\<exists>x. node_run rng (replicate k (HandleAppendEntriesResponse resp)) n = Some (n\<lparr>leader_next_index := x\<rparr>) \<and>
    (\<forall>p. hm_get x p = (if p = aer_from resp then Some (max (i - k) 1) else hm_get (leader_next_index n) p))"
  using assms
proof (induction k arbitrary: n i)
  case 0
  then show ?case by (intro exI [where x = "leader_next_index n"]) simp
next
  case (Suc k)
  let ?n = "n\<lparr>leader_next_index := hm_insert (aer_from resp) (max (i - 1) 1) (leader_next_index n)\<rparr>"
  have step: "node_step rng (HandleAppendEntriesResponse resp) n = Some ?n"
    using handle_rejection [OF Suc.prems(1-5), of rng] by auto
  have "max (max (i - 1) 1 - k) 1 = max (i - Suc k) 1" by linarith
  moreover obtain x where "node_run rng (replicate k (HandleAppendEntriesResponse resp)) ?n = Some (?n\<lparr>leader_next_index := x\<rparr>)"
    "\<forall>p. hm_get x p = (if p = aer_from resp then Some (max (max (i - 1) 1 - k) 1) else hm_get (leader_next_index ?n) p)"
    using Suc.IH [of ?n "max (i - 1) 1"] Suc.prems by (auto simp del: node_step.simps)
  ultimately show ?case using step by (intro exI [where x = x]) (simp del: node_step.simps)
qed

subsection \<open>Advancing the commit index\<close>

definition commit_candidate :: "raft_node \<Rightarrow> nat \<Rightarrow> bool" where
  "commit_candidate n i \<longleftrightarrow> commit_index n < i \<and> i \<le> log_end n \<and>
     term_at n i = Some (current_term n) \<and> majority n \<le> replicated_count n i"

lemma advance_loop_find:
  "advance_loop is n =
     (case find (\<lambda>i. term_at n i = Some (current_term n) \<and> majority n \<le> replicated_count n i) is of
        None \<Rightarrow> Some n | Some i \<Rightarrow> commit_to i n)"
  by (induction "is") auto

lemma find_rev_upt:
  "find P (rev [a..<b]) = (if \<exists>i. a \<le> i \<and> i < b \<and> P i then Some (GREATEST i. i < b \<and> P i) else None)"
proof (induction b)
  case 0
  then show ?case by simp
next
  case (Suc b)
  show ?case
  proof (cases "a \<le> b")
    case False
    then show ?thesis by auto
  next
    case True
    show ?thesis
    proof (cases "P b")
      case pb: True
      then have "(GREATEST i. i < Suc b \<and> P i) = b" by (intro Greatest_equality) auto
      then show ?thesis using True pb by (auto simp: less_Suc_eq)
    next
      case False
      then have "(i < Suc b \<and> P i) = (i < b \<and> P i)" for i by (auto simp: less_Suc_eq)
      then show ?thesis using Suc True False by (simp add: less_Suc_eq)
        (metis less_Suc_eq)
    qed
  qed
qed

lemma try_advance_commit_index_spec:
  assumes "role n = Leader" and "snapshot_last_included_index n \<le> commit_index n"
    and "try_advance_commit_index n = Some n'"
  shows "n' = n\<lparr>commit_index :=
     if \<exists>i. commit_candidate n i then (GREATEST i. commit_candidate n i) else commit_index n\<rparr>"
proof -
  let ?P = "\<lambda>i. term_at n i = Some (current_term n) \<and> majority n \<le> replicated_count n i"
  have cc: "commit_candidate n i \<longleftrightarrow> commit_index n + 1 \<le> i \<and> i < Suc (log_end n) \<and> ?P i" for i
    by (auto simp: commit_candidate_def)
  have loop: "advance_loop (rev [commit_index n + 1..<Suc (log_end n)]) n = Some n'"
    using assms by (auto simp: try_advance_commit_index_def bind_Some_iff uadd_Some_iff last_log_index_Some_iff
        simp del: upt_Suc)
  show ?thesis
  proof (cases "\<exists>i. commit_candidate n i")
    case True
    let ?g = "GREATEST i. i < Suc (log_end n) \<and> ?P i"
    obtain i where i: "commit_candidate n i" using True by blast
    have bound: "\<forall>j. (j < Suc (log_end n) \<and> ?P j) \<longrightarrow> j \<le> Suc (log_end n)" by auto
    have gp: "?g < Suc (log_end n) \<and> ?P ?g" 
      using GreatestI_nat [of "\<lambda>i. i < Suc (log_end n) \<and> ?P i" i "Suc (log_end n)"] i cc bound by blast
    have above: "j \<le> ?g" if "commit_candidate n j" for j
      using Greatest_le_nat [of "\<lambda>i. i < Suc (log_end n) \<and> ?P i" j "Suc (log_end n)"] that cc bound by blast
    have "commit_index n + 1 \<le> ?g" using above [OF i] i cc le_trans by blast
    then have gc: "commit_candidate n ?g" using gp cc by blast
    have eq: "(GREATEST i. commit_candidate n i) = ?g" using gc above by (rule Greatest_equality)
    have ex: "\<exists>i. commit_index n + 1 \<le> i \<and> i < Suc (log_end n) \<and> ?P i" using i cc by blast
    have "commit_to ?g n = Some n'"
      using loop unfolding advance_loop_find find_rev_upt if_P [OF ex] option.case .
    then have n': "n' = n\<lparr>commit_index := max (snapshot_last_included_index n) (min ?g (log_end n))\<rparr>"
      unfolding commit_to_Some_iff by blast
    have "commit_index n < ?g \<and> ?g \<le> log_end n" using gc unfolding commit_candidate_def by blast
    then have "max (snapshot_last_included_index n) (min ?g (log_end n)) = ?g"
      using assms(2) by linarith
    then show ?thesis unfolding n' if_P [OF True] eq by (rule arg_cong)
  next
    case False
    then have nex: "\<not> (\<exists>i. commit_index n + 1 \<le> i \<and> i < Suc (log_end n) \<and> ?P i)" using cc by blast
    have "n' = n" using loop unfolding advance_loop_find find_rev_upt if_not_P [OF nex] by simp
    then show ?thesis using False by simp
  qed
qed

end
