(* ===== verification/Node_Apply.thy ===== *)
theory Node_Apply
  imports Node_Replication
begin

text \<open>
  Handing committed entries to the state machine, compacting the log, and freedom from panics.
\<close>

subsection \<open>Committed entries are handed out once, in order\<close>

lemma take_unapplied_entries_spec:
  assumes "take_unapplied_entries n = Some (n', es)"
  shows "length es = apply_to n - apply_from n"
    and "k < length es \<Longrightarrow> entry_at n (apply_from n + 1 + k) = Some (es ! k)"
    and "n' = n\<lparr>last_applied := max (apply_from n) (apply_to n)\<rparr>"
    and "take_unapplied_entries n' = Some (n', [])"
proof -
  let ?s = "snapshot_last_included_index n"
  note lim = take_unapplied_Some [OF assms]
  have bounds: "?s \<le> apply_from n" "apply_to n \<le> log_end n" by (simp_all add: apply_from_def apply_to_def)
  have es: "es = take (apply_to n - apply_from n) (drop (apply_from n - ?s) (log n))"
    using assms lim by (auto simp: take_unapplied_eq split: if_splits)
  show len: "length es = apply_to n - apply_from n"
    using bounds by (auto simp: es log_end_def)
  show n': "n' = n\<lparr>last_applied := max (apply_from n) (apply_to n)\<rparr>"
    using assms lim by (auto simp: take_unapplied_eq max_def split: if_splits)
  show "entry_at n (apply_from n + 1 + k) = Some (es ! k)" if "k < length es"
  proof -
    have x: "apply_from n + 1 + k - ?s - 1 = apply_from n - ?s + k" using bounds by simp
    have ki: "apply_from n - ?s + k < length (log n)" using that len bounds by (simp add: log_end_def)
    moreover have "?s < apply_from n + 1 + k" using bounds by simp
    ultimately have "entry_at n (apply_from n + 1 + k) = Some (log n ! (apply_from n - ?s + k))"
      unfolding entry_at_log x by simp
    then show ?thesis using that len ki by (simp add: es)
  qed
  have "apply_from n' = max (max (apply_from n) (apply_to n)) ?s"
    unfolding n' apply_from_def [of "n\<lparr>last_applied := x\<rparr>" for x] by simp
  then have "apply_from n' = max (apply_from n) (apply_to n)" using bounds by linarith
  moreover have "apply_to n' = apply_to n" "log_end n' = log_end n" by (simp_all add: n' apply_to_def)
  ultimately show "take_unapplied_entries n' = Some (n', [])"
    using lim by (simp add: take_unapplied_eq n')
qed

text \<open>The applied index never goes back, so no entry is handed out twice.\<close>

lemma node_step_last_applied_mono:
  assumes "node_step rng c n = Some n'" and "\<not> is_restore c"
  shows "last_applied n \<le> last_applied n'"
proof (cases c)
  case Tick
  then obtain ms where "tick rng n = Some (n', ms)" using assms(1) by auto
  then show ?thesis by (cases rule: tick_cases) (auto simp: start_election_Some_iff)
next
  case StartElection
  then show ?thesis using assms(1) by (auto simp: start_election_Some_iff)
next
  case (HandleRequestVote req)
  then show ?thesis using assms(1) by (auto dest!: handle_request_vote_effect)
next
  case (HandleRequestVoteResponse resp)
  then show ?thesis using assms(1) by (auto dest!: handle_request_vote_response_effect)
next
  case (HandleAppendEntries req)
  then obtain r where "handle_append_entries rng req n = Some (n', r)" using assms(1) by auto
  then show ?thesis
    by (cases rule: handle_append_entries_cases) (auto dest!: ae_step_down_effect ae_accept_effect)
next
  case (HandleAppendEntriesResponse resp)
  then show ?thesis using assms(1)
    by (auto dest!: handle_append_entries_response_effect simp: become_follower_Some_iff)
next
  case (ProposeCommand x)
  then show ?thesis using assms(1) by (auto dest!: propose_command_effect)
next
  case (CommitTo k)
  then show ?thesis using assms(1) by (auto simp: commit_to_Some_iff)
next
  case TakeUnapplied
  then show ?thesis using assms(1) by (auto dest!: take_unapplied_entries_spec(3) simp: apply_from_def)
next
  case CompactCommitted
  then show ?thesis using assms(1) by (auto simp: compact_committed_eq split: if_splits)
next
  case RestoreFromStorage
  then show ?thesis using assms(2) by simp
qed

subsection \<open>Compaction keeps what the protocol reads\<close>

lemma compact_committed_view:
  assumes "compact_committed n = Some (n', b)" and "snapshot_last_included_index n \<le> commit_index n"
  shows "log_end n' = log_end n"
    and "commit_index n \<le> log_end n \<Longrightarrow> commit_index n \<le> i \<Longrightarrow> term_at n' i = term_at n i"
    and "commit_index n \<le> log_end n \<Longrightarrow> commit_index n < i \<Longrightarrow> entry_at n' i = entry_at n i"
    and "last_term n' = last_term n"
    and "b \<longleftrightarrow> snapshot_last_included_index n < commit_index n \<and> commit_index n \<le> log_end n"
proof -
  let ?s = "snapshot_last_included_index n" and ?c = "commit_index n"
  show b: "b \<longleftrightarrow> ?s < ?c \<and> ?c \<le> log_end n"
    using assms(1) by (auto simp: compact_committed_eq split: if_splits)
  have n': "n' = (if b then n\<lparr>log := drop (?c - ?s) (log n), snapshot_last_included_index := ?c,
                   snapshot_last_included_term := the (term_at n ?c),
                   last_applied := max (last_applied n) ?c\<rparr> else n)"
    using assms(1) b by (auto simp: compact_committed_eq split: if_splits)
  show le: "log_end n' = log_end n"
    using b unfolding n' by (auto simp: log_end_def)
  show entry: "entry_at n' i = entry_at n i" if "?c \<le> log_end n" "?c < i" for i
  proof (cases b)
    case True
    have d: "(\<not> i - ?c - 1 < length (log n) - (?c - ?s)) = (\<not> i - ?s - 1 < length (log n))"
      "?c - ?s + (i - ?c - 1) = i - ?s - 1"
      using that True b by (auto simp: log_end_def)
    show ?thesis using that True b d
      by (simp add: entry_at_log n')
  next
    case False
    then show ?thesis by (simp add: n')
  qed
  show "term_at n' i = term_at n i" if "?c \<le> log_end n" "?c \<le> i" for i
  proof (cases "b \<and> i = ?c")
    case True
    then have "term_at n ?c \<noteq> None" using b term_at_inside by simp
    then show ?thesis using True by (auto simp: n' term_at_entry)
  next
    case False
    have si: "snapshot_last_included_index n' = (if b then ?c else ?s)" by (simp add: n')
    show ?thesis
    proof (cases b)
      case True
      then show ?thesis using False that entry [of i] b si by (simp add: term_at_entry)
    next
      case False
      then show ?thesis by (simp add: n')
    qed
  qed
  then have "term_at n' (log_end n) = term_at n (log_end n)" if "?c \<le> log_end n" using that by blast
  then show "last_term n' = last_term n"
    using le term_at_log_end [of n] term_at_log_end [of n'] b n' by (cases b) auto
qed

subsection \<open>Freedom from panics\<close>

text \<open>
  What a call may bring in from outside: indices and lengths that stay in the machine range. The
  terms in requests are taken over as they are and need no bound.
\<close>

fun call_in_range :: "node_call \<Rightarrow> bool" where
  "call_in_range (HandleAppendEntries req) = (ae_prev_log_index req + length (ae_entries req) + 1 < u64_limit)"
| "call_in_range (HandleAppendEntriesResponse resp) = (aer_match_index resp + 1 < u64_limit)"
| "call_in_range (RestoreFromStorage t v es c i it) = (i + length es < u64_limit)"
| "call_in_range _ = True"

definition node_in_range :: "raft_node \<Rightarrow> bool" where
  "node_in_range n \<longleftrightarrow> current_term n + 1 < u64_limit \<and> log_end n + 1 < u64_limit \<and> commit_index n + 1 < u64_limit"

lemma sample_total: "node_inv n \<Longrightarrow>
    \<exists>t. sample_election_timeout rng k (election_timeout_min n) (election_timeout_max n) = Some t"
  by (simp add: inv_defs sample_election_timeout_def)

lemma become_follower_total: "node_inv n \<Longrightarrow> \<exists>n'. become_follower rng t l n = Some n'"
  using sample_total [of n rng "rng_draws n"] by (simp add: become_follower_Some_iff)

lemma start_election_total:
  "node_inv n \<Longrightarrow> node_in_range n \<Longrightarrow> \<exists>r. start_election rng n = Some r"
  using sample_total [of n rng "rng_draws n"]
  by (auto simp: start_election_Some_iff node_in_range_def)

lemma build_heartbeat_messages_total: "log_end n < u64_limit \<Longrightarrow> \<exists>ms. build_heartbeat_messages n = Some ms"
  by (simp add: build_heartbeat_messages_def build_messages_for_eq)

lemma tick_total:
  assumes "node_inv n" and "node_in_range n"
  shows "\<exists>r. tick rng n = Some r"
proof (cases "role n = Leader")
  case True
  have "1 < u64_limit" by (simp add: u64_limit_def)
  moreover have "heartbeat_interval n < u64_limit" "heartbeat_elapsed n < max 1 (heartbeat_interval n)"
    using assms(1) unfolding node_inv_def timers_ok_def by blast+
  ultimately have "heartbeat_elapsed n + 1 < u64_limit" by linarith
  moreover obtain ms where "build_heartbeat_messages (n\<lparr>heartbeat_elapsed := 0\<rparr>) = Some ms"
    using build_heartbeat_messages_total [of "n\<lparr>heartbeat_elapsed := 0\<rparr>"] assms(2)
    by (auto simp: node_in_range_def)
  ultimately show ?thesis using True by (simp add: tick_def Let_def)
next
  case False
  define m where "m = n\<lparr>election_elapsed := election_elapsed n + 1\<rparr>"
  have u: "uadd (election_elapsed n) 1 = Some (election_elapsed n + 1)" using assms(1) by (simp add: inv_defs)
  obtain t where "sample_election_timeout rng (rng_draws m) (election_timeout_min m) (election_timeout_max m) = Some t"
    using sample_total [OF assms(1), of rng "rng_draws n"] by (auto simp: m_def)
  then have "\<exists>r. start_election rng m = Some r"
    using assms(2) by (auto simp: start_election_Some_iff node_in_range_def m_def)
  then obtain r where "start_election rng m = Some r" by blast
  then show ?thesis using False u
    by (cases "role n"; cases "current_election_timeout n \<le> election_elapsed n + 1")
      (simp_all add: tick_def Let_def m_def)
qed

lemma handle_request_vote_total:
  assumes "node_inv n" and "node_in_range n"
  shows "\<exists>r. handle_request_vote rng req n = Some r"
proof -
  obtain m where m: "(if rv_term req > current_term n then become_follower rng (rv_term req) None n else Some n) = Some m"
    using become_follower_total [OF assms(1)] by fastforce
  have mf: "log_end m < u64_limit" "election_timeout_min m = election_timeout_min n"
    "election_timeout_max m = election_timeout_max n"
    using m assms(2) by (auto simp: become_follower_Some_iff node_in_range_def split: if_splits)
  obtain k where "resample_timeout rng (m\<lparr>voted_for := Some (rv_candidate_id req), election_elapsed := 0\<rparr>) = Some k"
    using sample_total [OF assms(1), of rng "rng_draws m"] mf by (auto simp: resample_timeout_Some_iff)
  moreover have "last_log_info m = Some (log_end m, last_term m)" using mf by (simp add: last_log_info_Some_iff)
  ultimately show ?thesis
    using m by (auto simp: handle_request_vote_def Let_def)
qed

lemma handle_request_vote_response_total:
  assumes "node_inv n" and "node_in_range n"
  shows "\<exists>r. handle_request_vote_response rng resp n = Some r"
proof -
  obtain f where "become_follower rng (rvr_term resp) None n = Some f" using become_follower_total [OF assms(1)] by blast
  moreover obtain l where "become_leader (n\<lparr>votes_received := insert (rvr_from resp) (votes_received n)\<rparr>) = Some l"
    using assms(2) by (auto simp: become_leader_Some_iff node_in_range_def)
  moreover obtain k where "become_leader n = Some k"
    using assms(2) by (auto simp: become_leader_Some_iff node_in_range_def)
  ultimately show ?thesis by (auto simp: handle_request_vote_response_def Let_def)
qed

lemma ae_accept_total:
  assumes "ae_consistent req n" and "ae_prev_log_index req + length (ae_entries req) + 1 < u64_limit"
    and "log_end n + 1 < u64_limit"
  shows "\<exists>n'. ae_accept req n = Some n' \<and> log_end n' < u64_limit"
proof -
  let ?j = "ae_prev_log_index req - snapshot_last_included_index n"
  obtain k where k: "append_loop (ae_entries req) (ae_prev_log_index req + 1) n = Some k"
    using append_loop_no_panic [of "ae_prev_log_index req + 1" "ae_entries req" n] assms(2) by auto
  have "k = n\<lparr>log := take ?j (log n) @ reconcile (drop ?j (log n)) (ae_entries req)\<rparr>"
    using append_loop_reconcile [OF _ _ k] assms(1) by (simp add: ae_consistent_def)
  moreover have "length (reconcile xs ys) \<le> max (length xs) (length ys)" for xs ys
    by (cases "agrees xs ys") (simp_all add: reconcile_agrees reconcile_conflict)
  from this [of "drop ?j (log n)" "ae_entries req"]
  have "length (take ?j (log n) @ reconcile (drop ?j (log n)) (ae_entries req)) + snapshot_last_included_index n
      \<le> max (log_end n) (ae_prev_log_index req + length (ae_entries req))"
    using ae_consistent_prefix_length [OF assms(1)] by (simp add: log_end_def)
  ultimately have lim: "log_end k < u64_limit" using assms(2,3) by (simp add: log_end_def)
  moreover have "snapshot_last_included_index k \<le> log_end k" by (simp add: log_end_def)
  ultimately show ?thesis
    using k assms(2) by (auto simp: ae_accept_def last_log_index_eq commit_to_def uclamp_def Let_def)
qed

lemma handle_append_entries_total:
  assumes "node_inv n" and "node_in_range n" and "call_in_range (HandleAppendEntries req)"
  shows "\<exists>r. handle_append_entries rng req n = Some r"
proof -
  obtain m where m: "ae_step_down rng req n = Some m"
    using become_follower_total [OF assms(1)] by (fastforce simp: ae_step_down_def)
  have "log_end m = log_end n" using ae_step_down_effect [OF m] by (simp add: log_end_def)
  then have lim: "log_end m + 1 < u64_limit" "log_end n < u64_limit"
    using assms(2) by (simp_all add: node_in_range_def)
  show ?thesis
  proof (cases "ae_consistent req m")
    case True
    then obtain k where "ae_accept req m = Some k" "log_end k < u64_limit"
      using ae_accept_total lim(1) assms(3) by auto
    then show ?thesis using m True lim
      by (simp add: handle_append_entries_split last_log_index_eq)
  next
    case False
    then show ?thesis using m lim by (simp add: handle_append_entries_split last_log_index_eq)
  qed
qed

lemma commit_to_total: "log_end n < u64_limit \<Longrightarrow> \<exists>n'. commit_to c n = Some n'"
  by (simp add: commit_to_Some_iff)

lemma try_advance_total:
  "log_end n < u64_limit \<Longrightarrow> commit_index n + 1 < u64_limit \<Longrightarrow> \<exists>n'. try_advance_commit_index n = Some n'"
  using commit_to_total
  by (auto simp: try_advance_commit_index_def last_log_index_eq advance_loop_find simp del: upt_Suc
      split: option.split)

lemma handle_append_entries_response_total:
  assumes "node_inv n" and "node_in_range n" and "call_in_range (HandleAppendEntriesResponse resp)"
  shows "\<exists>r. handle_append_entries_response rng resp n = Some r"
proof -
  obtain f where f: "become_follower rng (aer_term resp) None n = Some f"
    using become_follower_total [OF assms(1)] by blast
  have t: "\<exists>k. try_advance_commit_index (n\<lparr>leader_match_index := x, leader_next_index := y\<rparr>) = Some k" for x y
    using assms(2) by (intro try_advance_total) (simp_all add: node_in_range_def)
  have b: "\<exists>k. build_append_entries_for_peer (n\<lparr>leader_next_index := y\<rparr>) p = Some k" for y p
    using assms(2) by (subst build_append_entries_eq) (simp_all add: node_in_range_def)
  have l: "last_log_index n = Some (log_end n)" "uadd (log_end n) 1 = Some (log_end n + 1)"
    using assms(2) by (simp_all add: node_in_range_def last_log_index_eq)
  consider "current_term n < aer_term resp" | "aer_term resp \<le> current_term n" "role n \<noteq> Leader \<or> aer_term resp \<noteq> current_term n"
    | "aer_term resp = current_term n" "role n = Leader" "aer_success resp"
    | "aer_term resp = current_term n" "role n = Leader" "\<not> aer_success resp"
    by linarith
  then show ?thesis
  proof cases
    case 3
    obtain k where "try_advance_commit_index
        (n\<lparr>leader_match_index := hm_insert (aer_from resp) (aer_match_index resp) (leader_match_index n),
           leader_next_index := hm_insert (aer_from resp) (aer_match_index resp + 1) (leader_next_index n)\<rparr>) = Some k"
      using t by blast
    then show ?thesis using 3 assms(3) by (simp add: handle_append_entries_response_def Let_def)
  next
    case 4
    obtain k where "build_append_entries_for_peer
        (n\<lparr>leader_next_index := hm_insert (aer_from resp)
            (max ((case hm_get (leader_next_index n) (aer_from resp) of Some i \<Rightarrow> i | None \<Rightarrow> Suc (log_end n)) - 1) 1)
            (leader_next_index n)\<rparr>) (aer_from resp) = Some k"
      using b by blast
    then show ?thesis using 4 l by (simp add: handle_append_entries_response_def Let_def)
  qed (use f in \<open>auto simp: handle_append_entries_response_def\<close>)
qed

lemma propose_command_total:
  assumes "node_in_range n"
  shows "\<exists>r. propose_command c n = Some r"
proof -
  define m where "m = n\<lparr>log := log n @ [\<lparr>le_term = current_term n, le_command = c\<rparr>]\<rparr>"
  define k where "k = m\<lparr>leader_match_index := hm_insert (nid m) (log_end m) (leader_match_index m)\<rparr>"
  have "log_end m < u64_limit" using assms by (simp add: node_in_range_def m_def log_end_def)
  then have l: "last_log_index m = Some (log_end m)" "log_end k < u64_limit" "last_log_index k = Some (log_end k)"
    by (simp_all add: last_log_index_eq k_def)
  obtain k' where k': "commit_to (log_end k) k = Some k'" "log_end k' < u64_limit"
    using l by (auto simp: commit_to_Some_iff)
  obtain ms where "build_heartbeat_messages k = Some ms" using build_heartbeat_messages_total l by blast
  moreover obtain ms' where "build_heartbeat_messages k' = Some ms'" using build_heartbeat_messages_total k' by blast
  ultimately show ?thesis
    using l k' by (simp add: propose_command_def Let_def m_def [symmetric] k_def [symmetric])
qed

text \<open>
  While the node is in range, no call panics, whatever its content: the only panics of the code are
  the overflows that \<open>node_in_range\<close> and \<open>call_in_range\<close> exclude.
\<close>

lemma node_step_total:
  assumes "node_inv n" and "node_in_range n" and "call_in_range c"
  shows "\<exists>n'. node_step rng c n = Some n'"
proof (cases c)
  case Tick
  then show ?thesis using tick_total [OF assms(1,2), of rng] by auto
next
  case StartElection
  then show ?thesis using start_election_total [OF assms(1,2), of rng] by auto
next
  case (HandleRequestVote req)
  then show ?thesis using handle_request_vote_total [OF assms(1,2), of rng req] by auto
next
  case (HandleRequestVoteResponse resp)
  then show ?thesis using handle_request_vote_response_total [OF assms(1,2), of rng resp] by auto
next
  case (HandleAppendEntries req)
  then show ?thesis using handle_append_entries_total [OF assms(1,2), of req rng] assms(3) by auto
next
  case (HandleAppendEntriesResponse resp)
  then show ?thesis using handle_append_entries_response_total [OF assms(1,2), of resp rng] assms(3) by auto
next
  case (ProposeCommand x)
  then show ?thesis using propose_command_total [OF assms(2), of x] by auto
next
  case (CommitTo k)
  then show ?thesis using commit_to_total [of n k] assms(2) by (simp add: node_in_range_def)
next
  case TakeUnapplied
  then show ?thesis using assms(2) by (simp add: take_unapplied_eq node_in_range_def)
next
  case CompactCommitted
  then show ?thesis by (auto simp: compact_committed_eq)
next
  case RestoreFromStorage
  then show ?thesis using assms(3) by (simp add: restore_from_storage_Some_iff)
qed

end
