(* ===== verification/Samples.thy ===== *)
theory Samples
  imports Node_Apply
begin

text \<open>
  Concrete nodes and a concrete random generator, at which the witnesses apply the properties, and the
  definitions that the simplifier unfolds to evaluate the operations of a node.
\<close>

definition min_rng :: gen_range where
  "min_rng k lo hi = lo"

lemma min_rng_ok: "gen_range_ok min_rng"
  by (simp add: gen_range_ok_def min_rng_def)

lemmas eval_node = handle_request_vote_def handle_request_vote_response_def handle_append_entries_def
  handle_append_entries_response_def propose_command_def tick_def start_election_def become_leader_def
  become_follower_def resample_timeout_def sample_election_timeout_def last_log_info_def
  last_log_index_def term_at_def offset_for_index_def majority_def new_node_def
  build_append_entries_for_peer_def build_heartbeat_messages_def commit_to_def uclamp_def
  take_unapplied_entries_def compact_committed_def try_advance_commit_index_def replicated_count_def
  candidate_log_is_up_to_date_def restore_from_storage_def uadd_def u64_limit_def slice_from_def
  slice_incl_def drain_front_def hm_values_def hm_keys_def min_rng_def

definition entry :: "term_no \<Rightarrow> string \<Rightarrow> log_entry" where
  "entry t c = \<lparr>le_term = t, le_command = lit c\<rparr>"

text \<open>A follower in term 2 with three entries, of which it knows one to be committed.\<close>

definition follower :: raft_node where
  "follower =
     \<lparr>nid = 1, peers = [2, 3], current_term = 2, voted_for = None,
      log = [entry 1 ''a'', entry 1 ''b'', entry 2 ''c''],
      snapshot_last_included_index = 0, snapshot_last_included_term = 0, commit_index = 1, last_applied = 0,
      role = Follower, leader_id = None, leader_next_index = [], leader_match_index = [],
      votes_received = {}, election_elapsed = 0, election_timeout_min = 2, election_timeout_max = 3,
      current_election_timeout = 2, heartbeat_elapsed = 0, heartbeat_interval = 1, rng_draws = 1\<rparr>"

definition candidate :: raft_node where
  "candidate = follower\<lparr>current_term := 3, voted_for := Some 1, role := Candidate, votes_received := {1}\<rparr>"

definition leader :: raft_node where
  "leader = follower\<lparr>voted_for := Some 1, role := Leader, leader_id := Some 1, votes_received := {1, 2},
     leader_next_index := [(2, 4), (3, 3)], leader_match_index := [(1, 3), (2, 3), (3, 0)]\<rparr>"

lemmas eval_samples = follower_def candidate_def leader_def entry_def eval_node

lemma samples_inv [simp]: "node_inv follower" "node_inv candidate" "node_inv leader"
  by (auto simp: inv_defs majority_def follower_def candidate_def leader_def entry_def u64_limit_def hm_ok_def)

end
