(* ===== verification/Node_Properties.thy ===== *)
theory Node_Properties
  imports Samples
begin

text \<open>
  The properties of \<open>raftust-core/src/node.rs\<close>: the invariant, the absence of panics, votes and terms,
  the log of a follower, replication by a leader, commitment, application and compaction. Each is
  followed by a witness that applies it to a concrete node.
\<close>

definition sample_append :: append_entries where
  "sample_append = \<lparr>ae_term = 2, ae_leader_id = 2, ae_prev_log_index = 1, ae_prev_log_term = 1,
     ae_entries = [entry 2 ''x''], ae_leader_commit = 2\<rparr>"

fun is_vote_response :: "node_call \<Rightarrow> bool" where
  "is_vote_response (HandleRequestVoteResponse _) = True"
| "is_vote_response _ = False"

lemma leader_step_needs_response:
  assumes "node_step rng c n = Some n'" and "\<not> is_vote_response c" and "role n \<noteq> Leader"
  shows "role n' \<noteq> Leader"
proof (cases c)
  case Tick
  then obtain ms where "tick rng n = Some (n', ms)" using assms(1) by auto
  then show ?thesis using assms(3) by (cases rule: tick_cases) (auto simp: start_election_Some_iff)
next
  case (HandleRequestVote req)
  then obtain r where "handle_request_vote rng req n = Some (n', r)" using assms(1) by auto
  then show ?thesis using assms(3) by (auto dest!: handle_request_vote_effect split: if_splits)
next
  case (HandleRequestVoteResponse resp)
  then show ?thesis using assms(2) by simp
next
  case (HandleAppendEntries req)
  then obtain r where "handle_append_entries rng req n = Some (n', r)" using assms(1) by auto
  then show ?thesis using assms(3)
    by (cases rule: handle_append_entries_cases) (auto dest!: ae_step_down_effect ae_accept_effect)
next
  case (HandleAppendEntriesResponse resp)
  then obtain ms where "handle_append_entries_response rng resp n = Some (n', ms)" using assms(1) by auto
  then show ?thesis using assms(3)
    by (auto dest!: handle_append_entries_response_effect simp: become_follower_Some_iff)
next
  case (ProposeCommand x)
  then obtain ms where "propose_command x n = Some (n', ms)" using assms(1) by auto
  then show ?thesis using assms(3) by (auto dest!: propose_command_effect)
next
  case TakeUnapplied
  then obtain es where "take_unapplied_entries n = Some (n', es)" using assms(1) by auto
  then show ?thesis using assms(3) by (auto dest!: take_unapplied_effect)
next
  case CompactCommitted
  then show ?thesis using assms(1,3) by (auto simp: compact_committed_eq split: if_splits)
qed (use assms in \<open>auto simp: start_election_Some_iff commit_to_Some_iff restore_from_storage_Some_iff\<close>)

text \<open>
  C7. The invariant of a node. A node made by \<open>RaftNode::new\<close> keeps \<open>node_inv\<close> whatever operations are
  called on it, in any order and with any arguments: the timers stay below the timeouts, the commit and
  applied indices stay at or above the snapshot, a follower holds no votes and no leader maps, a
  candidate or leader voted for itself, and a leader has votes from a majority and knows a next and a
  match index for every peer.
\<close>

theorem node_invariant:
  assumes "gen_range_ok rng" and "new_node rng k i ps tmin tmax hb = Some n0"
    and "tmax < u64_limit" and "hb < u64_limit" and "node_run rng cs n0 = Some n"
  shows "node_inv n"
  by (rule node_run_inv [OF assms(1) new_node_inv [OF assms(1-4)] assms(5)])

theorem node_invariant_witness:
  "\<exists>n0 n. new_node min_rng 0 1 [2, 3] 2 3 1 = Some n0 \<and>
     node_run min_rng [StartElection, HandleRequestVoteResponse \<lparr>rvr_term = 1, rvr_vote_granted = True, rvr_from = 2\<rparr>,
       ProposeCommand (lit ''a'')] n0 = Some n \<and> role n = Leader \<and> node_inv n"
proof -
  obtain n0 n where n: "new_node min_rng 0 1 [2, 3] 2 3 1 = Some n0"
    "node_run min_rng [StartElection, HandleRequestVoteResponse \<lparr>rvr_term = 1, rvr_vote_granted = True, rvr_from = 2\<rparr>,
       ProposeCommand (lit ''a'')] n0 = Some n" "role n = Leader"
    by (simp add: eval_node)
  from node_invariant [OF min_rng_ok n(1) _ _ n(2)] n show ?thesis by (auto simp: u64_limit_def)
qed

text \<open>
  C8. No operation panics. While the term, the last log index and the commit index of a node are at
  least two below \<open>2^64\<close> and the indices in the argument are in range, every operation returns, for any
  message: no slice is out of bounds, no clamp has its bounds reversed, no subtraction underflows and
  no random range is empty.
\<close>

theorem never_panics:
  assumes "node_inv n" and "node_in_range n" and "call_in_range c"
  shows "\<exists>n'. node_step rng c n = Some n'"
  using assms by (rule node_step_total)

theorem never_panics_witness: "\<exists>n'. node_step min_rng (HandleAppendEntries sample_append) candidate = Some n'"
  by (rule never_panics [OF samples_inv(2)])
    (simp_all add: node_in_range_def candidate_def follower_def log_end_def u64_limit_def sample_append_def)

text \<open>
  C9. The decision of \<open>handle_request_vote\<close>. A vote is granted exactly when the request is not from an
  older term, the node has no other vote in that term, and the candidate's log is at least as up to date
  as its own. The node then is in the newer of the two terms with that vote recorded; its log and its
  commit and applied indices are untouched.
\<close>

theorem vote_decision:
  assumes "handle_request_vote rng req n = Some (n', r)"
  shows "(rvr_vote_granted r \<longleftrightarrow> current_term n \<le> rv_term req \<and>
      (current_term n < rv_term req \<or> voted_for n \<in> {None, Some (rv_candidate_id req)}) \<and>
      (last_term n < rv_last_log_term req \<or>
       rv_last_log_term req = last_term n \<and> log_end n \<le> rv_last_log_index req)) \<and>
    current_term n' = max (current_term n) (rv_term req) \<and> rvr_term r = current_term n' \<and>
    voted_for n' = (if rvr_vote_granted r then Some (rv_candidate_id req)
                    else if current_term n < rv_term req then None else voted_for n) \<and>
    log n' = log n \<and> commit_index n' = commit_index n \<and> last_applied n' = last_applied n"
  using handle_request_vote_effect [OF assms] by (simp_all add: candidate_log_is_up_to_date_def)

theorem vote_decision_witness:
  "\<exists>n' r. handle_request_vote min_rng \<lparr>rv_term = 4, rv_candidate_id = 2, rv_last_log_index = 9, rv_last_log_term = 1\<rparr>
       candidate = Some (n', r) \<and> \<not> rvr_vote_granted r \<and> current_term n' = 4 \<and> voted_for n' = None"
proof -
  let ?req = "\<lparr>rv_term = 4, rv_candidate_id = 2, rv_last_log_index = 9, rv_last_log_term = 1\<rparr> :: request_vote"
  obtain n' r where h: "handle_request_vote min_rng ?req candidate = Some (n', r)"
    by (simp add: eval_samples)
  have "last_term candidate = 2" "current_term candidate = 3"
    by (simp_all add: candidate_def follower_def last_term_def entry_def)
  then show ?thesis using h vote_decision [OF h] by simp
qed

text \<open>
  C10. One vote per term. Apart from a restore, no operation lowers the term, and while the term stays the
  same a node's vote never changes to another candidate. The one way to lose it is that a candidate or
  leader receives an AppendEntries request of its own term: it then becomes a follower without a vote.
\<close>

theorem vote_kept_in_term:
  assumes "node_step rng c n = Some n'" and "\<not> is_restore c"
  shows "current_term n \<le> current_term n' \<and>
    (current_term n' = current_term n \<and> voted_for n = Some v \<and> voted_for n' \<noteq> Some v \<longrightarrow>
      voted_for n' = None \<and> role n \<noteq> Follower \<and> role n' = Follower \<and>
      (\<exists>req. c = HandleAppendEntries req \<and> ae_term req = current_term n))"
  using node_step_term_vote [OF assms] by auto

theorem vote_kept_in_term_witness:
  "\<exists>n'. node_step min_rng (HandleAppendEntries (sample_append\<lparr>ae_term := 3\<rparr>)) candidate = Some n' \<and>
     current_term n' = current_term candidate \<and> voted_for candidate = Some 1 \<and> voted_for n' = None \<and> role n' = Follower"
proof -
  let ?c = "HandleAppendEntries (sample_append\<lparr>ae_term := 3\<rparr>)"
  obtain n' where n: "node_step min_rng ?c candidate = Some n'" "current_term n' = current_term candidate"
    "voted_for n' \<noteq> Some 1"
    by (simp add: eval_samples sample_append_def)
  have v: "voted_for candidate = Some 1" by (simp add: candidate_def)
  have "voted_for n' = None" "role n' = Follower" using vote_kept_in_term [OF n(1), of 1] n(2,3) v by simp_all
  then show ?thesis using n(1,2) v by (intro exI [of _ n'] conjI)
qed

text \<open>
  C11. How a leader is made. A vote response makes a node a leader exactly when it is a candidate, the
  response is of its term, and the votes it then has are a majority of the cluster. A new leader expects
  every peer at the end of its own log and counts nothing above its snapshot as replicated there.
\<close>

theorem leader_by_majority:
  assumes "handle_request_vote_response rng resp n = Some (n', b)"
  defines "vs \<equiv> (if rvr_vote_granted resp then insert (rvr_from resp) (votes_received n) else votes_received n)"
  shows "(b \<longleftrightarrow> role n = Candidate \<and> rvr_term resp = current_term n \<and> (length (peers n) + 1) div 2 < card vs) \<and>
    (b \<longrightarrow> role n' = Leader \<and> (\<forall>p \<in> set (peers n). hm_get (leader_next_index n') p = Some (log_end n + 1)) \<and>
       (\<forall>p \<in> set (peers n). hm_get (leader_match_index n') p = Some (snapshot_last_included_index n))) \<and>
    (\<not> b \<longrightarrow> role n' = Leader \<longrightarrow> n' = n)"
  using assms(1)
proof (cases rule: handle_request_vote_response_cases)
  case newer
  then show ?thesis by (auto simp: become_follower_Some_iff)
next
  case ignored
  then show ?thesis by auto
next
  case (counted m)
  then have "votes_received m = vs" "log_end m = log_end n" "peers m = peers n" "role m = Candidate"
    "snapshot_last_included_index m = snapshot_last_included_index n"
    by (auto simp: vs_def)
  then show ?thesis using counted by (auto simp: become_leader_Some_iff majority_def split: if_splits)
qed

theorem leader_by_majority_witness:
  "\<exists>n' b. handle_request_vote_response min_rng \<lparr>rvr_term = 3, rvr_vote_granted = True, rvr_from = 3\<rparr> candidate = Some (n', b) \<and>
     b \<and> role n' = Leader \<and> hm_get (leader_next_index n') 2 = Some 4"
proof -
  obtain n' b where h: "handle_request_vote_response min_rng \<lparr>rvr_term = 3, rvr_vote_granted = True, rvr_from = 3\<rparr>
      candidate = Some (n', b)" "b"
    by (simp add: eval_samples)
  have "log_end candidate = 3" "peers candidate = [2, 3]" by (simp_all add: candidate_def follower_def log_end_def)
  then show ?thesis
    using h leader_by_majority [OF h(1)] by (intro exI [of _ n'] exI [of _ b] conjI) simp_all
qed

text \<open>
  C12. The log of a follower after a request it accepts: the entries up to \<open>prev_log_index\<close>, followed by
  what the Raft paper asks for, the old tail reconciled with the entries of the request (agreeing
  entries kept, the log cut at the first conflict, new entries appended). The answer carries the last
  index of the resulting log.
\<close>

theorem accepted_request_reconciles:
  assumes "handle_append_entries rng req n = Some (n', r)" and "aer_success r"
  shows "ae_prev_log_index req \<le> log_end n \<and>
    log n' = take (ae_prev_log_index req - snapshot_last_included_index n) (log n) @
             reconcile (drop (ae_prev_log_index req - snapshot_last_included_index n) (log n)) (ae_entries req) \<and>
    aer_match_index r = log_end n' \<and> ae_prev_log_index req + length (ae_entries req) \<le> aer_match_index r \<and>
    (\<forall>k < length (ae_entries req). term_at n' (ae_prev_log_index req + 1 + k) = Some (le_term (ae_entries req ! k))) \<and>
    (\<forall>i \<le> ae_prev_log_index req. entry_at n' i = entry_at n i) \<and>
    current_term n' = ae_term req \<and> leader_id n' = Some (ae_leader_id req) \<and> role n' = Follower"
proof -
  from assms obtain m where m: "ae_step_down rng req n = Some m" "ae_consistent req m" "ae_accept req m = Some n'"
    "aer_match_index r = log_end n'" "current_term n \<le> ae_term req"
    by (cases rule: handle_append_entries_cases) auto
  have same: "log m = log n" "snapshot_last_included_index m = snapshot_last_included_index n" "log_end m = log_end n"
    "entry_at m i = entry_at n i" for i
    using ae_step_down_effect [OF m(1)] by (simp_all add: log_end_def entry_at_def)
  have "ae_prev_log_index req \<le> log_end n" using m(2) same(3) by (simp add: ae_consistent_def)
  moreover have "log n' = take (ae_prev_log_index req - snapshot_last_included_index n) (log n) @
      reconcile (drop (ae_prev_log_index req - snapshot_last_included_index n) (log n)) (ae_entries req)"
    using ae_accept_log [OF m(2,3)] same by simp
  moreover have "ae_prev_log_index req + length (ae_entries req) \<le> aer_match_index r"
    using ae_accept_log_end [OF m(2,3)] m(4) by simp
  moreover have "term_at n' (ae_prev_log_index req + 1 + k) = Some (le_term (ae_entries req ! k))"
    if "k < length (ae_entries req)" for k
    using that by (rule ae_accept_new_terms [OF m(2,3)])
  moreover have "entry_at n' i = entry_at n i" if "i \<le> ae_prev_log_index req" for i
    using ae_accept_keeps_prefix(1) [OF m(2,3) that] same(4) by simp
  moreover obtain l c where "n' = m\<lparr>log := l, commit_index := c\<rparr>" using ae_accept_effect [OF m(3)] by blast
  then have "current_term n' = ae_term req" "leader_id n' = Some (ae_leader_id req)" "role n' = Follower"
    using ae_step_down_effect [OF m(1)] m(5) by auto
  ultimately show ?thesis using m(4) by blast
qed

theorem accepted_request_reconciles_witness:
  "\<exists>n' r. handle_append_entries min_rng sample_append follower = Some (n', r) \<and> aer_success r \<and>
     log n' = [entry 1 ''a'', entry 2 ''x''] \<and> aer_match_index r = 2"
proof -
  obtain n' r where h: "handle_append_entries min_rng sample_append follower = Some (n', r)" "aer_success r"
    by (simp add: eval_samples sample_append_def)
  have "log n' = [entry 1 ''a'', entry 2 ''x'']"
    using accepted_request_reconciles [OF h] by (simp add: sample_append_def follower_def entry_def)
  moreover have "snapshot_last_included_index n' = 0"
    using h(1) by (auto simp: eval_samples sample_append_def)
  ultimately show ?thesis
    using h accepted_request_reconciles [OF h] by (auto simp: log_end_def)
qed

text \<open>
  C13. A request never removes what it agrees with. If, up to an index \<open>c\<close> inside the log, every entry of
  the request has the term that the follower's log already has there, then all entries up to \<open>c\<close>
  survive. With \<open>c\<close> the commit index: committed entries are safe as long as the leader has them.
\<close>

theorem agreed_entries_survive:
  assumes "handle_append_entries rng req n = Some (n', r)" and "aer_success r"
    and "agrees_up_to req c n" and "c \<le> log_end n" and "i \<le> c"
  shows "entry_at n' i = entry_at n i \<and> c \<le> log_end n'"
proof -
  from assms(1,2) obtain m where m: "ae_step_down rng req n = Some m" "ae_consistent req m" "ae_accept req m = Some n'"
    by (cases rule: handle_append_entries_cases) auto
  have same: "log m = log n" "snapshot_last_included_index m = snapshot_last_included_index n"
    "snapshot_last_included_term m = snapshot_last_included_term n"
    using ae_step_down_effect [OF m(1)] by simp_all
  then have v: "entry_at m i = entry_at n i" "log_end m = log_end n" "agrees_up_to req c m"
    using assms(3) log_view_cong [of m n] by (simp_all add: agrees_up_to_def)
  show ?thesis
    using ae_accept_keeps_agreed [OF m(2,3) v(3) _ assms(5)] assms(4) v by simp_all
qed

theorem agreed_entries_survive_witness:
  "\<exists>n' r. handle_append_entries min_rng (sample_append\<lparr>ae_prev_log_index := 0, ae_entries := [entry 1 ''a'']\<rparr>)
       follower = Some (n', r) \<and> aer_success r \<and> entry_at n' 3 = Some (entry 2 ''c'')"
proof -
  let ?req = "sample_append\<lparr>ae_prev_log_index := 0, ae_entries := [entry 1 ''a'']\<rparr>"
  obtain n' r where h: "handle_append_entries min_rng ?req follower = Some (n', r)" "aer_success r"
    by (simp add: eval_samples sample_append_def)
  have "agrees_up_to ?req 3 follower" by (auto simp: agrees_up_to_def eval_samples)
  moreover have "3 \<le> log_end follower" by (simp add: log_end_def follower_def)
  ultimately have "entry_at n' 3 = entry_at follower 3" using agreed_entries_survive [OF h] by simp
  then show ?thesis using h by (auto simp: entry_at_def log_end_def follower_def)
qed

text \<open>
  C14. A rejected request changes no log. The answer to a request that does not fit, or that comes from
  an older term, is negative, the log and the commit and applied indices stay as they are, and a node
  that is not behind has stepped down to the sender as its leader.
\<close>

theorem rejected_request_keeps_log:
  assumes "handle_append_entries rng req n = Some (n', r)" and "\<not> aer_success r"
  shows "(log n' = log n \<and> commit_index n' = commit_index n \<and> last_applied n' = last_applied n \<and>
      snapshot_last_included_index n' = snapshot_last_included_index n) \<and>
    (ae_term req < current_term n \<or>
      (ae_prev_log_index req < snapshot_last_included_index n \<and> aer_match_index r = snapshot_last_included_index n) \<or>
      (log_end n < ae_prev_log_index req \<and> aer_match_index r = log_end n) \<or>
      (term_at n (ae_prev_log_index req) \<noteq> Some (ae_prev_log_term req) \<and>
         0 < ae_prev_log_index req \<and> aer_match_index r = ae_prev_log_index req - 1)) \<and>
    (ae_term req < current_term n \<longrightarrow> n' = n) \<and>
    (current_term n \<le> ae_term req \<longrightarrow> role n' = Follower \<and> leader_id n' = Some (ae_leader_id req) \<and>
      current_term n' = ae_term req)"
  using assms(1)
proof (cases rule: handle_append_entries_cases)
  case stale
  then show ?thesis by simp
next
  case reject
  note d = ae_step_down_effect [OF reject(2)]
  have v: "term_at n' j = term_at n j" "log_end n' = log_end n" for j
    using d log_view_cong [of n' n] by auto
  show ?thesis using d v reject by (auto simp: ae_consistent_def ae_reject_index_def)
next
  case (accept m)
  then show ?thesis using assms(2) by simp
qed

theorem rejected_request_keeps_log_witness:
  "\<exists>n' r. handle_append_entries min_rng (sample_append\<lparr>ae_term := 3, ae_prev_log_index := 3\<rparr>) candidate = Some (n', r) \<and>
     \<not> aer_success r \<and> log n' = log candidate \<and> role n' = Follower \<and> aer_match_index r = 2"
proof -
  let ?req = "sample_append\<lparr>ae_term := 3, ae_prev_log_index := 3\<rparr>"
  obtain n' r where h: "handle_append_entries min_rng ?req candidate = Some (n', r)" "\<not> aer_success r"
    by (simp add: eval_samples sample_append_def)
  have "current_term candidate = 3" "log_end candidate = 3" "snapshot_last_included_index candidate = 0"
    by (simp_all add: candidate_def follower_def log_end_def)
  then have "log n' = log candidate" "role n' = Follower" "aer_match_index r = 2"
    using rejected_request_keeps_log [OF h] by (auto simp: sample_append_def)
  then show ?thesis using h by blast
qed

text \<open>
  C15. What a leader sends. A heartbeat is a list of AppendEntries requests and of nothing else: one for
  each peer whose next index lies above the snapshot and at most one past the end of the log, in the
  order of the peers, and none for any other peer. A request names the term of the entry before the next
  index and carries all entries from it on, so it ends where the leader's log ends.
\<close>

theorem heartbeat_messages:
  assumes "build_heartbeat_messages n = Some ms" and "log_end n < u64_limit"
  shows "ms = map (\<lambda>p. OutAppendEntries p (replication_message n (next_index_for n p)))
      (filter (\<lambda>p. snapshot_last_included_index n < next_index_for n p \<and> next_index_for n p \<le> log_end n + 1) (peers n)) \<and>
    (OutAppendEntries p req \<in> set ms \<longleftrightarrow> p \<in> set (peers n) \<and>
      snapshot_last_included_index n < next_index_for n p \<and> next_index_for n p \<le> log_end n + 1 \<and>
      req = replication_message n (next_index_for n p)) \<and>
    (OutAppendEntries p req \<in> set ms \<longrightarrow>
      ae_term req = current_term n \<and> ae_leader_id req = nid n \<and> ae_leader_commit req = commit_index n \<and>
      ae_prev_log_index req = next_index_for n p - 1 \<and>
      term_at n (ae_prev_log_index req) = Some (ae_prev_log_term req) \<and>
      ae_prev_log_index req + length (ae_entries req) = log_end n \<and>
      (\<forall>k < length (ae_entries req). entry_at n (next_index_for n p + k) = Some (ae_entries req ! k)))"
proof -
  have eq: "ms = map (\<lambda>p. OutAppendEntries p (replication_message n (next_index_for n p)))
       (filter (\<lambda>p. snapshot_last_included_index n < next_index_for n p \<and> next_index_for n p \<le> log_end n + 1) (peers n))"
    using assms by (simp add: build_heartbeat_messages_def build_messages_for_eq)
  then have m: "OutAppendEntries p req \<in> set ms \<longleftrightarrow> p \<in> set (peers n) \<and>
      snapshot_last_included_index n < next_index_for n p \<and> next_index_for n p \<le> log_end n + 1 \<and>
      req = replication_message n (next_index_for n p)"
    by auto
  have "ae_term req = current_term n \<and> ae_leader_id req = nid n \<and> ae_leader_commit req = commit_index n \<and>
      ae_prev_log_index req = next_index_for n p - 1 \<and>
      term_at n (ae_prev_log_index req) = Some (ae_prev_log_term req) \<and>
      ae_prev_log_index req + length (ae_entries req) = log_end n \<and>
      (\<forall>k < length (ae_entries req). entry_at n (next_index_for n p + k) = Some (ae_entries req ! k))"
    if "OutAppendEntries p req \<in> set ms"
  proof -
    have r: "snapshot_last_included_index n < next_index_for n p" "next_index_for n p \<le> log_end n + 1"
      "req = replication_message n (next_index_for n p)" using that m by blast+
    show ?thesis
      using replication_message_end [OF r(1,2), folded r(3)] r(3) by (simp add: replication_message_def)
  qed
  then show ?thesis by (intro conjI [OF eq conjI [OF m]] impI)
qed

theorem heartbeat_messages_witness:
  "\<exists>ms req. build_heartbeat_messages leader = Some ms \<and> length ms = 2 \<and> OutAppendEntries 3 req \<in> set ms \<and>
     ae_prev_log_index req = 2 \<and> ae_entries req = [entry 2 ''c'']"
proof -
  have l: "log_end leader < u64_limit" by (simp add: log_end_def leader_def follower_def u64_limit_def)
  obtain ms where ms: "build_heartbeat_messages leader = Some ms" by (simp add: eval_samples)
  have "length ms = 2 \<and> OutAppendEntries 3 (replication_message leader 3) \<in> set ms"
    using heartbeat_messages [OF ms l, of 3 "replication_message leader 3"] by (simp add: leader_def follower_def next_index_for_def log_end_def)
  moreover have "ae_prev_log_index (replication_message leader 3) = 2 \<and> ae_entries (replication_message leader 3) = [entry 2 ''c'']"
    by (simp add: replication_message_def leader_def follower_def)
  ultimately show ?thesis using ms by blast
qed

text \<open>
  C16. Backing off. \<open>k\<close> rejections of its term from one follower lower the leader's next index for that
  follower by \<open>k\<close>, but never below 1, and leave everything else of the leader unchanged: its next index
  for every other follower and all its other fields.
\<close>

theorem rejections_back_off:
  assumes "log_end n + 1 < u64_limit" and "role n = Leader" and "aer_term resp = current_term n"
    and "\<not> aer_success resp" and "hm_get (leader_next_index n) (aer_from resp) = Some i" and "1 \<le> i"
  shows "\<exists>x. node_run rng (replicate k (HandleAppendEntriesResponse resp)) n = Some (n\<lparr>leader_next_index := x\<rparr>) \<and>
    (\<forall>p. hm_get x p = (if p = aer_from resp then Some (max (i - k) 1) else hm_get (leader_next_index n) p))"
  using assms by (rule rejections_lower_next_index)

theorem rejections_back_off_witness:
  "\<exists>x. node_run min_rng (replicate 5 (HandleAppendEntriesResponse
       \<lparr>aer_term = 2, aer_success = False, aer_from = 3, aer_match_index = 0\<rparr>)) leader = Some (leader\<lparr>leader_next_index := x\<rparr>) \<and>
     hm_get x 3 = Some 1 \<and> hm_get x 2 = hm_get (leader_next_index leader) 2"
proof -
  let ?r = "\<lparr>aer_term = 2, aer_success = False, aer_from = 3, aer_match_index = 0\<rparr> :: append_entries_response"
  have h: "log_end leader + 1 < u64_limit" "role leader = Leader" "aer_term ?r = current_term leader"
    "\<not> aer_success ?r" "hm_get (leader_next_index leader) (aer_from ?r) = Some 3" "1 \<le> (3 :: nat)"
    by (simp_all add: leader_def follower_def log_end_def u64_limit_def)
  obtain x where "node_run min_rng (replicate 5 (HandleAppendEntriesResponse ?r)) leader = Some (leader\<lparr>leader_next_index := x\<rparr>)"
    and "\<forall>p. hm_get x p = (if p = aer_from ?r then Some (max (3 - 5) 1) else hm_get (leader_next_index leader) p)"
    using rejections_back_off [OF h, of min_rng 5] by (elim exE conjE) (rule that)
  then show ?thesis by (intro exI [of _ x]) simp
qed

text \<open>
  C17. The commit index of a leader. An acknowledgement of its term records the follower's match index and
  then moves the commit index to the greatest index above it that lies in the log, holds an entry of the
  leader's own term and is matched by a majority of the cluster, and leaves it where no such index exists.
\<close>

theorem commit_advances:
  assumes "handle_append_entries_response rng resp n = Some (n', ms)" and "role n = Leader"
    and "aer_term resp = current_term n" and "aer_success resp"
    and "snapshot_last_included_index n \<le> commit_index n"
  defines "m \<equiv> n\<lparr>leader_match_index := hm_insert (aer_from resp) (aer_match_index resp) (leader_match_index n),
                  leader_next_index := hm_insert (aer_from resp) (aer_match_index resp + 1) (leader_next_index n)\<rparr>"
  shows "ms = [] \<and>
    n' = m\<lparr>commit_index := if \<exists>i. commit_candidate m i then (GREATEST i. commit_candidate m i) else commit_index n\<rparr> \<and>
    commit_index n \<le> commit_index n'"
proof -
  have h: "ms = [] \<and> try_advance_commit_index m = Some n'"
    using assms(1-4) by (auto simp: handle_append_entries_response_def m_def bind_Some_iff uadd_Some_iff Let_def)
  have r: "role m = Leader" "snapshot_last_included_index m \<le> commit_index m"
    using assms(2,5) by (simp_all add: m_def)
  have c: "commit_index m = commit_index n" by (simp add: m_def)
  have n': "n' = m\<lparr>commit_index := if \<exists>i. commit_candidate m i then (GREATEST i. commit_candidate m i) else commit_index n\<rparr>"
    unfolding c [symmetric] using try_advance_commit_index_spec [OF r] h by blast
  have "commit_index n \<le> (GREATEST i. commit_candidate m i)" if "commit_candidate m j" for j
  proof -
    have "\<forall>x. commit_candidate m x \<longrightarrow> x \<le> log_end m" by (simp add: commit_candidate_def)
    then have "commit_candidate m (GREATEST i. commit_candidate m i)"
      using GreatestI_nat [of "commit_candidate m" j "log_end m"] that by blast
    then show ?thesis using c by (simp add: commit_candidate_def)
  qed
  then have "commit_index n \<le> commit_index n'" unfolding n' by auto
  then show ?thesis using h n' by blast
qed

theorem commit_advances_witness:
  "\<exists>n' ms. handle_append_entries_response min_rng
       \<lparr>aer_term = 2, aer_success = True, aer_from = 2, aer_match_index = 3\<rparr> leader = Some (n', ms) \<and>
     commit_index n' = 3 \<and> commit_index leader \<le> commit_index n'"
proof -
  let ?r = "\<lparr>aer_term = 2, aer_success = True, aer_from = 2, aer_match_index = 3\<rparr> :: append_entries_response"
  obtain n' ms where h: "handle_append_entries_response min_rng ?r leader = Some (n', ms)" "commit_index n' = 3"
    by (simp add: eval_samples)
  have "role leader = Leader" "aer_term ?r = current_term leader" "aer_success ?r"
    "snapshot_last_included_index leader \<le> commit_index leader"
    by (simp_all add: leader_def follower_def)
  from commit_advances [OF h(1) this] h show ?thesis by blast
qed

text \<open>
  C18. Entries are handed to the state machine once and in order. \<open>take_unapplied_entries\<close> returns
  exactly the entries after the applied index (or the snapshot, if that is later) up to the commit
  index, as far as the log reaches, and moves the applied index there: called again it returns nothing.
\<close>

theorem unapplied_entries_once:
  assumes "take_unapplied_entries n = Some (n', es)"
  defines "start \<equiv> max (last_applied n) (snapshot_last_included_index n)"
  shows "length es = min (commit_index n) (log_end n) - start \<and>
    (\<forall>k < length es. entry_at n (start + 1 + k) = Some (es ! k)) \<and>
    n' = n\<lparr>last_applied := max start (min (commit_index n) (log_end n))\<rparr> \<and>
    take_unapplied_entries n' = Some (n', [])"
  using take_unapplied_entries_spec [OF assms(1)] by (simp add: start_def apply_from_def apply_to_def)

theorem unapplied_entries_once_witness:
  "\<exists>n' es. take_unapplied_entries (leader\<lparr>commit_index := 2\<rparr>) = Some (n', es) \<and>
     es = [entry 1 ''a'', entry 1 ''b''] \<and> take_unapplied_entries n' = Some (n', [])"
proof -
  obtain n' es where h: "take_unapplied_entries (leader\<lparr>commit_index := 2\<rparr>) = Some (n', es)"
    "es = [entry 1 ''a'', entry 1 ''b'']"
    by (simp add: eval_samples)
  then show ?thesis using unapplied_entries_once [OF h(1)] by blast
qed

text \<open>
  The applied index never goes back. Whatever is called on a node, short of a restore, the index of
  the last applied entry does not decrease, so no entry is handed to the state machine twice.
\<close>

theorem applied_index_monotone:
  assumes "node_run rng cs n = Some n'" and "\<forall>c \<in> set cs. \<not> is_restore c"
  shows "last_applied n \<le> last_applied n'"
  using assms
proof (induction cs arbitrary: n)
  case (Cons c cs)
  then obtain m where "node_step rng c n = Some m" "node_run rng cs m = Some n'" by (auto simp: bind_Some_iff)
  then show ?case using Cons.IH Cons.prems(2) node_step_last_applied_mono by fastforce
qed simp

theorem applied_index_monotone_witness:
  "\<exists>n'. node_run min_rng [CommitTo 2, TakeUnapplied, CompactCommitted] leader = Some n' \<and>
     last_applied leader \<le> last_applied n' \<and> last_applied n' = 2"
proof -
  obtain n' where h: "node_run min_rng [CommitTo 2, TakeUnapplied, CompactCommitted] leader = Some n'" "last_applied n' = 2"
    by (simp add: eval_samples)
  from applied_index_monotone [OF h(1)] h show ?thesis by auto
qed

text \<open>
  C19. Compaction keeps the log as seen from outside. \<open>compact_committed\<close> cuts the log at the commit
  index and nowhere else: the last index, the term of every index from the commit index on and the
  entries above it are those of the log before. It acts exactly when the commit index lies above the
  snapshot and inside the log.
\<close>

theorem compaction_keeps_view:
  assumes "compact_committed n = Some (n', b)" and "node_inv n"
  shows "(b \<longleftrightarrow> snapshot_last_included_index n < commit_index n \<and> commit_index n \<le> log_end n) \<and>
    log_end n' = log_end n \<and> last_term n' = last_term n \<and>
    (commit_index n \<le> log_end n \<longrightarrow> (\<forall>i. (commit_index n \<le> i \<longrightarrow> term_at n' i = term_at n i) \<and>
      (commit_index n < i \<longrightarrow> entry_at n' i = entry_at n i))) \<and>
    (b \<longrightarrow> snapshot_last_included_index n' = commit_index n \<and> entry_at n' (commit_index n) = None)"
proof -
  have i: "snapshot_last_included_index n \<le> commit_index n" using assms(2) by (simp add: inv_defs)
  note v = compact_committed_view [OF assms(1) i]
  have "snapshot_last_included_index n' = commit_index n \<and> entry_at n' (commit_index n) = None" if b
    using assms(1) v(5) that by (auto simp: compact_committed_eq entry_at_def split: if_splits)
  then show ?thesis using v by blast
qed

theorem compaction_keeps_view_witness:
  "\<exists>n'. compact_committed (leader\<lparr>commit_index := 2\<rparr>) = Some (n', True) \<and>
     entry_at n' 3 = Some (entry 2 ''c'') \<and> log_end n' = 3 \<and> entry_at n' 2 = None"
proof -
  let ?n = "leader\<lparr>commit_index := 2\<rparr>"
  obtain n' where h: "compact_committed ?n = Some (n', True)" by (simp add: eval_samples)
  have i: "node_inv ?n" using node_inv_commit [OF samples_inv(3), of 2] by (simp add: leader_def follower_def)
  have "entry_at ?n 3 = Some (entry 2 ''c'')" "log_end ?n = 3" "commit_index ?n = 2"
    by (simp_all add: entry_at_def log_end_def leader_def follower_def)
  then show ?thesis using h compaction_keeps_view [OF h i] by simp
qed

text \<open>
  Proposals. Only a leader takes a command: it appends one entry of its term, counts itself as
  holding it, and sends what its heartbeat would send. The commit index moves only in a cluster of one.
  Any other node refuses and does not change.
\<close>

theorem proposals:
  assumes "propose_command c n = Some (n', out)"
  shows "(role n \<noteq> Leader \<longrightarrow> n' = n \<and> out = None) \<and>
    (role n = Leader \<longrightarrow> log n' = log n @ [\<lparr>le_term = current_term n, le_command = c\<rparr>] \<and>
      hm_get (leader_match_index n') (nid n) = Some (log_end n + 1) \<and>
      commit_index n' = (if peers n = [] then log_end n + 1 else commit_index n) \<and>
      out = build_heartbeat_messages n')"
proof (cases "role n = Leader")
  case False
  then show ?thesis using assms by (simp add: propose_command_def)
next
  case l: True
  define m where "m = n\<lparr>log := log n @ [\<lparr>le_term = current_term n, le_command = c\<rparr>]\<rparr>"
  define k where "k = m\<lparr>leader_match_index := hm_insert (nid m) (log_end m) (leader_match_index m)\<rparr>"
  have e: "log_end m = log_end n + 1" "log_end k = log_end n + 1" "majority k = majority n"
    by (simp_all add: m_def k_def log_end_def majority_def)
  have one: "majority n = 1 \<longleftrightarrow> peers n = []" by (cases "peers n") (auto simp: majority_def)
  have lm: "last_log_index m = Some (log_end m)"
    using assms l by (cases "last_log_index m")
      (auto simp: propose_command_def Let_def m_def [symmetric] last_log_index_Some_iff)
  have run: "Option.bind (if majority k = 1 then Option.bind (last_log_index k) (\<lambda>last. commit_to last k) else Some k)
      (\<lambda>n. Option.bind (build_heartbeat_messages n) (\<lambda>ms. Some (n, Some ms))) = Some (n', out)"
    using assms l lm by (simp add: propose_command_def Let_def m_def [symmetric] k_def split: if_splits)
  have h: "(if majority n = 1 then commit_to (log_end k) k = Some n' else n' = k)"
    and out: "out = build_heartbeat_messages n'"
    using run e(3) by (auto simp: bind_Some_iff last_log_index_Some_iff split: if_splits)
  have "snapshot_last_included_index k \<le> log_end k" by (simp add: log_end_def)
  then have "n' = k\<lparr>commit_index := if peers n = [] then log_end n + 1 else commit_index n\<rparr>"
    using h one e by (auto simp: commit_to_Some_iff k_def m_def split: if_splits)
  then show ?thesis using e l out by (simp add: k_def m_def)
qed

theorem proposals_witness:
  "\<exists>n' ms. propose_command (lit ''d'') leader = Some (n', Some ms) \<and> length (log n') = 4 \<and>
     commit_index n' = 1 \<and> build_heartbeat_messages n' = Some ms"
proof -
  obtain n' ms where h: "propose_command (lit ''d'') leader = Some (n', Some ms)" by (simp add: eval_samples)
  have "role leader = Leader" "length (log leader) = 3" "peers leader = [2, 3]" "commit_index leader = 1"
    by (simp_all add: leader_def follower_def)
  then have "length (log n') = 4" "commit_index n' = 1" "build_heartbeat_messages n' = Some ms"
    using proposals [OF h] by simp_all
  then show ?thesis using h by blast
qed

text \<open>
  C39. Nobody leads without an answer. No sequence of operations without a vote response, be they ticks,
  elections, requests, proposals or restores, makes a leader of a node that is none, not even where the
  own vote is a majority.
\<close>

theorem no_leader_without_response:
  assumes "node_run rng cs n = Some n'" and "\<forall>c \<in> set cs. \<not> is_vote_response c" and "role n \<noteq> Leader"
  shows "role n' \<noteq> Leader"
  using assms
proof (induction cs arbitrary: n)
  case (Cons c cs)
  then obtain m where m: "node_step rng c n = Some m" "node_run rng cs m = Some n'" by (auto simp: bind_Some_iff)
  then show ?case using Cons leader_step_needs_response [OF m(1)] by auto
qed simp

theorem no_leader_without_response_witness:
  "\<exists>n0 n. new_node min_rng 0 7 [] 2 3 1 = Some n0 \<and> majority n0 = 1 \<and>
     node_run min_rng [Tick, Tick, Tick, StartElection] n0 = Some n \<and> card (votes_received n) = 1 \<and> role n \<noteq> Leader"
proof -
  obtain n0 n where h: "new_node min_rng 0 7 [] 2 3 1 = Some n0" "majority n0 = 1" "role n0 \<noteq> Leader"
    "node_run min_rng [Tick, Tick, Tick, StartElection] n0 = Some n" "card (votes_received n) = 1"
    by (simp add: eval_node)
  from no_leader_without_response [OF h(4) _ h(3)] h show ?thesis by auto
qed

text \<open>
  A second vote in one term. A candidate, which voted for itself, that receives an AppendEntries
  request of its own term forgets that vote: it then grants the vote of the same term to any other
  candidate whose log is up to date.
\<close>

theorem second_vote_in_term:
  assumes "node_inv n" and "role n = Candidate" and "handle_append_entries rng req n = Some (n1, r1)"
    and "ae_term req = current_term n" and "handle_request_vote rng vote n1 = Some (n2, r2)"
    and "rv_term vote = current_term n" and "last_term n1 < rv_last_log_term vote"
  shows "voted_for n = Some (nid n) \<and> rvr_vote_granted r2 \<and> rvr_term r2 = current_term n \<and>
    voted_for n2 = Some (rv_candidate_id vote)"
proof -
  have v: "voted_for n = Some (nid n)" using assms(1,2) by (simp add: inv_defs)
  have n1: "current_term n1 = current_term n \<and> voted_for n1 = None"
    using assms(3)
  proof (cases rule: handle_append_entries_cases)
    case stale
    then show ?thesis using assms(4) by simp
  next
    case reject
    then show ?thesis using ae_step_down_effect assms(2,4) by fastforce
  next
    case (accept m)
    then show ?thesis using ae_step_down_effect [OF accept(2)] ae_accept_effect [OF accept(4)] assms(2,4) by auto
  qed
  have "rvr_vote_granted r2 \<longleftrightarrow> True"
    using handle_request_vote_effect [OF assms(5)] n1 assms(6,7) by (simp add: candidate_log_is_up_to_date_def)
  then show ?thesis using handle_request_vote_effect [OF assms(5)] n1 v assms(6) by simp
qed

theorem second_vote_in_term_witness:
  "\<exists>n1 r1 n2 r2. handle_append_entries min_rng (sample_append\<lparr>ae_term := 3\<rparr>) candidate = Some (n1, r1) \<and>
     handle_request_vote min_rng \<lparr>rv_term = 3, rv_candidate_id = 3, rv_last_log_index = 9, rv_last_log_term = 9\<rparr> n1 = Some (n2, r2) \<and>
     voted_for candidate = Some 1 \<and> voted_for n2 = Some 3 \<and> current_term candidate = current_term n2"
proof -
  let ?vote = "\<lparr>rv_term = 3, rv_candidate_id = 3, rv_last_log_index = 9, rv_last_log_term = 9\<rparr> :: request_vote"
  obtain n1 r1 n2 r2 where h: "handle_append_entries min_rng (sample_append\<lparr>ae_term := 3\<rparr>) candidate = Some (n1, r1)"
    "handle_request_vote min_rng ?vote n1 = Some (n2, r2)" "last_term n1 = 2" "current_term n2 = 3"
    by (simp add: eval_samples sample_append_def last_term_def)
  have c: "role candidate = Candidate" "ae_term (sample_append\<lparr>ae_term := 3\<rparr>) = current_term candidate"
    "rv_term ?vote = current_term candidate" "nid candidate = 1" "current_term candidate = 3"
    by (simp_all add: candidate_def follower_def)
  from second_vote_in_term [OF samples_inv(2) c(1) h(1) c(2) h(2) c(3)] h c show ?thesis by auto
qed

text \<open>
  A new leader is silent at first. The runner ticks a node that has just become a leader, but that
  tick sends heartbeats only when the heartbeat interval is at most one tick: with a longer one, as in the
  default configuration, no message leaves.
\<close>

theorem new_leader_first_tick:
  assumes "handle_request_vote_response rng resp n = Some (n1, True)" and "tick rng n1 = Some (n2, ms)"
  shows "if 1 < heartbeat_interval n1 then ms = [] \<and> n2 = n1\<lparr>heartbeat_elapsed := 1\<rparr>
         else Some ms = build_heartbeat_messages n1 \<and> n2 = n1"
proof -
  from assms(1) obtain m where "become_leader m = Some n1"
    by (cases rule: handle_request_vote_response_cases) auto
  then have l: "role n1 = Leader" "heartbeat_elapsed n1 = 0" by (auto simp: become_leader_Some_iff)
  have u: "uadd 0 1 = Some 1" by (simp add: uadd_def u64_limit_def)
  have same: "n1\<lparr>heartbeat_elapsed := 0\<rparr> = n1" using l(2) by simp
  have "ms = [] \<and> n2 = n1\<lparr>heartbeat_elapsed := 1\<rparr>" if "1 < heartbeat_interval n1"
    using assms(2) l u that by (simp add: tick_def Let_def)
  moreover have "build_heartbeat_messages (n1\<lparr>heartbeat_elapsed := 0\<rparr>) = Some ms \<and> n2 = n1\<lparr>heartbeat_elapsed := 0\<rparr>"
    if "\<not> 1 < heartbeat_interval n1"
    using assms(2) l u that by (auto simp: tick_def Let_def bind_Some_iff)
  ultimately show ?thesis unfolding same by simp
qed

theorem new_leader_first_tick_witness:
  "\<exists>n1 n2 ms. handle_request_vote_response min_rng \<lparr>rvr_term = 3, rvr_vote_granted = True, rvr_from = 2\<rparr>
       (candidate\<lparr>heartbeat_interval := 4\<rparr>) = Some (n1, True) \<and> tick min_rng n1 = Some (n2, ms) \<and> ms = []"
proof -
  obtain n1 n2 ms where h: "handle_request_vote_response min_rng \<lparr>rvr_term = 3, rvr_vote_granted = True, rvr_from = 2\<rparr>
      (candidate\<lparr>heartbeat_interval := 4\<rparr>) = Some (n1, True)" "tick min_rng n1 = Some (n2, ms)" "heartbeat_interval n1 = 4"
    by (simp add: eval_samples)
  from new_leader_first_tick [OF h(1,2)] h show ?thesis by auto
qed

text \<open>
  One message exhausts the terms. A vote request that carries the term \<open>2^64 - 1\<close> is adopted by any
  node, and the next election of that node panics (an overflow of the addition that starts it).
\<close>

theorem terms_exhausted:
  assumes "handle_request_vote rng req n = Some (n', r)" and "rv_term req = u64_max" and "current_term n < u64_limit"
  shows "current_term n' = u64_max \<and> start_election rng n' = None \<and>
    (role n' \<noteq> Leader \<and> current_election_timeout n' \<le> election_elapsed n' + 1 \<longrightarrow> tick rng n' = None)"
proof -
  have "current_term n \<le> u64_max" using assms(3) by (simp add: u64_max_def)
  then have t: "current_term n' = u64_max" using handle_request_vote_effect [OF assms(1)] assms(2) by simp
  have "\<not> u64_max + 1 < u64_limit" by (simp add: u64_max_def)
  then have s: "start_election rng m = None" if "current_term m = u64_max" for m
    using that by (simp add: start_election_def uadd_def)
  have "tick rng n' = None" if "role n' \<noteq> Leader" "current_election_timeout n' \<le> election_elapsed n' + 1"
    using s t that by (cases "role n'"; cases "uadd (election_elapsed n') 1")
      (auto simp: tick_def Let_def uadd_Some_iff)
  then show ?thesis using s t by blast
qed

theorem terms_exhausted_witness:
  "\<exists>n' r. handle_request_vote min_rng \<lparr>rv_term = 18446744073709551615, rv_candidate_id = 2, rv_last_log_index = 0,
       rv_last_log_term = 0\<rparr> follower = Some (n', r) \<and> start_election min_rng n' = None"
proof -
  let ?req = "\<lparr>rv_term = 18446744073709551615, rv_candidate_id = 2, rv_last_log_index = 0, rv_last_log_term = 0\<rparr> :: request_vote"
  obtain n' r where h: "handle_request_vote min_rng ?req follower = Some (n', r)" by (simp add: eval_samples)
  have "rv_term ?req = u64_max" "current_term follower < u64_limit"
    by (simp_all add: u64_max_def u64_limit_def follower_def)
  from terms_exhausted [OF h this] h show ?thesis by blast
qed

end
