(* ===== verification/Rust_Str.thy ===== *)
theory Rust_Str
  imports Types
begin

text \<open>
  The string operations of Rust's standard library that the state machines and the configuration
  parser call, on strings as lists of Unicode code points: \<open>trim\<close>, \<open>strip_prefix\<close>, \<open>split_once\<close>,
  \<open>eq_ignore_ascii_case\<close>, decimal parsing and printing of \<open>u64\<close> and \<open>i64\<close>, UTF-8, searching, and
  the \<open>{:?}\<close> output of a string.
\<close>

subsection \<open>Whitespace, prefixes, separators\<close>

text \<open>\<open>char::is_whitespace\<close>: the code points with the Unicode property White\_Space.\<close>

definition is_whitespace :: "nat \<Rightarrow> bool" where
  "is_whitespace c \<longleftrightarrow> 9 \<le> c \<and> c \<le> 13 \<or> c = 32 \<or> c = 133 \<or> c = 160 \<or> c = 5760 \<or>
     8192 \<le> c \<and> c \<le> 8202 \<or> c = 8232 \<or> c = 8233 \<or> c = 8239 \<or> c = 8287 \<or> c = 12288"

definition trim :: "str \<Rightarrow> str" where
  "trim s = rev (dropWhile is_whitespace (rev (dropWhile is_whitespace s)))"

definition strip_prefix :: "str \<Rightarrow> str \<Rightarrow> str option" where
  "strip_prefix p s = (if take (length p) s = p then Some (drop (length p) s) else None)"

fun split_once :: "nat \<Rightarrow> str \<Rightarrow> (str \<times> str) option" where
  "split_once c [] = None"
| "split_once c (x # xs) =
     (if x = c then Some ([], xs) else map_option (\<lambda>(a, b). (x # a, b)) (split_once c xs))"

definition to_ascii_lower :: "nat \<Rightarrow> nat" where
  "to_ascii_lower c = (if 65 \<le> c \<and> c \<le> 90 then c + 32 else c)"

definition eq_ignore_ascii_case :: "str \<Rightarrow> str \<Rightarrow> bool" where
  "eq_ignore_ascii_case a b \<longleftrightarrow> map to_ascii_lower a = map to_ascii_lower b"

lemma strip_prefix_append [simp]: "strip_prefix p (p @ s) = Some s"
  by (simp add: strip_prefix_def)

lemma strip_prefix_Some_iff: "(strip_prefix p s = Some r) = (s = p @ r)"
  by (auto simp: strip_prefix_def) (metis append_take_drop_id)

lemma split_once_Some_iff: "(split_once c s = Some (a, b)) = (s = a @ c # b \<and> c \<notin> set a)"
proof (induction s arbitrary: a)
  case (Cons x s)
  then show ?case by (cases a) auto
qed simp

lemma split_once_None_iff: "(split_once c s = None) = (c \<notin> set s)"
  by (induction s) auto

lemma trim_no_edge:
  "trim s = [] \<or> \<not> is_whitespace (hd (trim s)) \<and> \<not> is_whitespace (last (trim s))"
proof (cases "trim s = []")
  case False
  define d where "d = dropWhile is_whitespace s"
  define e where "e = dropWhile is_whitespace (rev d)"
  have t: "trim s = rev e" by (simp add: trim_def e_def d_def)
  with False have e: "e \<noteq> []" by auto
  then have "\<not> is_whitespace (hd e)" by (simp add: e_def hd_dropWhile)
  then have l: "\<not> is_whitespace (last (trim s))" using t e by (simp add: last_rev)
  have "rev d = takeWhile is_whitespace (rev d) @ e" by (simp add: e_def)
  then have "last e = last (rev d)" using e by (metis last_appendR)
  moreover have "d \<noteq> []" using e e_def by auto
  ultimately have "hd (trim s) = hd d" using t e by (simp add: hd_rev last_rev)
  moreover have "\<not> is_whitespace (hd d)" using \<open>d \<noteq> []\<close> by (simp add: d_def hd_dropWhile)
  ultimately show ?thesis using l by simp
qed simp

lemma dropWhile_id: "xs = [] \<or> \<not> P (hd xs) \<Longrightarrow> dropWhile P xs = xs"
  by (cases xs) auto

lemma trim_id: "s = [] \<or> \<not> is_whitespace (hd s) \<and> \<not> is_whitespace (last s) \<Longrightarrow> trim s = s"
  by (auto simp: trim_def dropWhile_id hd_rev)

lemma trim_idem [simp]: "trim (trim s) = trim s"
  using trim_no_edge by (intro trim_id)

subsection \<open>Decimal numbers\<close>

definition is_digit :: "nat \<Rightarrow> bool" where
  "is_digit c \<longleftrightarrow> 48 \<le> c \<and> c \<le> 57"

fun parse_digits :: "nat \<Rightarrow> str \<Rightarrow> nat option" where
  "parse_digits acc [] = Some acc"
| "parse_digits acc (c # cs) = (if is_digit c then parse_digits (10 * acc + (c - 48)) cs else None)"

text \<open>\<open>str::parse::<u64>\<close> (and \<open>usize\<close>): an optional plus sign, at least one digit, no overflow.\<close>

definition parse_u64 :: "str \<Rightarrow> nat option" where
  "parse_u64 s =
     (case s of
        [] \<Rightarrow> None
      | c # cs \<Rightarrow>
          (case parse_digits 0 (if c = 43 \<and> cs \<noteq> [] then cs else s) of
             None \<Rightarrow> None
           | Some v \<Rightarrow> if v < u64_limit then Some v else None))"

definition i64_min :: int where
  "i64_min = - (2 ^ 63)"

definition i64_max :: int where
  "i64_max = 2 ^ 63 - 1"

text \<open>\<open>str::parse::<i64>\<close>: also a minus sign, and the range of \<open>i64\<close>.\<close>

definition parse_i64 :: "str \<Rightarrow> int option" where
  "parse_i64 s =
     (case s of
        [] \<Rightarrow> None
      | c # cs \<Rightarrow>
          (case parse_digits 0 (if (c = 43 \<or> c = 45) \<and> cs \<noteq> [] then cs else s) of
             None \<Rightarrow> None
           | Some v \<Rightarrow>
               (let x = (if c = 45 then - int v else int v)
                in if i64_min \<le> x \<and> x \<le> i64_max then Some x else None)))"

fun nat_digits :: "nat \<Rightarrow> str" where
  "nat_digits n = (if n < 10 then [48 + n] else nat_digits (n div 10) @ [48 + n mod 10])"

declare nat_digits.simps [simp del]

definition u64_to_string :: "nat \<Rightarrow> str" where
  "u64_to_string n = nat_digits n"

definition i64_to_string :: "int \<Rightarrow> str" where
  "i64_to_string v = (if v < 0 then 45 # nat_digits (nat (- v)) else nat_digits (nat v))"

lemma nat_digits_all: "\<forall>c \<in> set (nat_digits n). is_digit c"
proof (induction n rule: nat_digits.induct)
  case (1 n)
  then show ?case by (subst nat_digits.simps) (auto simp: is_digit_def)
qed

lemma nat_digits_nonempty: "nat_digits n \<noteq> []"
  by (subst nat_digits.simps) simp

lemma parse_digits_append:
  "parse_digits acc (xs @ ys) = Option.bind (parse_digits acc xs) (\<lambda>a. parse_digits a ys)"
  by (induction acc xs rule: parse_digits.induct) auto

lemma parse_nat_digits: "parse_digits 0 (nat_digits n) = Some n"
proof (induction n rule: nat_digits.induct)
  case (1 n)
  then show ?case
    by (cases "n < 10") (simp_all add: nat_digits.simps [of n] is_digit_def parse_digits_append)
qed

lemma nat_digits_head: "\<exists>c cs. nat_digits n = c # cs \<and> c \<noteq> 43 \<and> c \<noteq> 45"
proof -
  obtain c cs where c: "nat_digits n = c # cs" using nat_digits_nonempty by (cases "nat_digits n") auto
  then have "is_digit c" using nat_digits_all [of n] by simp
  then show ?thesis using c by (auto simp: is_digit_def)
qed

lemma parse_u64_to_string: "n < u64_limit \<Longrightarrow> parse_u64 (u64_to_string n) = Some n"
  using nat_digits_head [of n] parse_nat_digits [of n]
  by (auto simp: parse_u64_def u64_to_string_def)

lemma parse_i64_to_string:
  assumes "i64_min \<le> v" and "v \<le> i64_max"
  shows "parse_i64 (i64_to_string v) = Some v"
proof (cases "v < 0")
  case True
  then show ?thesis using assms parse_nat_digits [of "nat (- v)"] nat_digits_nonempty [of "nat (- v)"]
    by (simp add: parse_i64_def i64_to_string_def)
next
  case False
  then show ?thesis using assms nat_digits_head [of "nat v"] parse_nat_digits [of "nat v"]
    by (auto simp: parse_i64_def i64_to_string_def)
qed

lemma parse_u64_bound: "parse_u64 s = Some v \<Longrightarrow> v < u64_limit"
  by (auto simp: parse_u64_def split: list.splits option.splits if_splits)

lemma parse_i64_bound: "parse_i64 s = Some v \<Longrightarrow> i64_min \<le> v \<and> v \<le> i64_max"
  by (auto simp: parse_i64_def Let_def split: list.splits option.splits if_splits)

subsection \<open>UTF-8\<close>

definition utf8_char :: "nat \<Rightarrow> bytes" where
  "utf8_char c =
     (if c < 128 then [c]
      else if c < 2048 then [192 + c div 64, 128 + c mod 64]
      else if c < 65536 then [224 + c div 4096, 128 + c div 64 mod 64, 128 + c mod 64]
      else [240 + c div 262144, 128 + c div 4096 mod 64, 128 + c div 64 mod 64, 128 + c mod 64])"

text \<open>\<open>String::into_bytes\<close>.\<close>

definition into_bytes :: "str \<Rightarrow> bytes" where
  "into_bytes s = concat (map utf8_char s)"

definition utf8_cont :: "nat \<Rightarrow> bool" where
  "utf8_cont b \<longleftrightarrow> 128 \<le> b \<and> b \<le> 191"

text \<open>
  \<open>std::str::from_utf8\<close>, \<open>None\<close> for its error: the byte ranges of the Unicode standard, without
  overlong forms, surrogates and values past U+10FFFF.
\<close>

fun from_utf8 :: "bytes \<Rightarrow> str option" where
  "from_utf8 [] = Some []"
| "from_utf8 (b0 # bs) =
     (if b0 < 128 then map_option (Cons b0) (from_utf8 bs)
      else case bs of
        [] \<Rightarrow> None
      | b1 # bs1 \<Rightarrow>
          (if 194 \<le> b0 \<and> b0 \<le> 223 then
             (if utf8_cont b1 then map_option (Cons ((b0 - 192) * 64 + (b1 - 128))) (from_utf8 bs1) else None)
           else case bs1 of
             [] \<Rightarrow> None
           | b2 # bs2 \<Rightarrow>
               (if 224 \<le> b0 \<and> b0 \<le> 239 then
                  (if utf8_cont b1 \<and> utf8_cont b2 \<and> (b0 = 224 \<longrightarrow> 160 \<le> b1) \<and> (b0 = 237 \<longrightarrow> b1 \<le> 159)
                   then map_option (Cons ((b0 - 224) * 4096 + (b1 - 128) * 64 + (b2 - 128))) (from_utf8 bs2)
                   else None)
                else case bs2 of
                  [] \<Rightarrow> None
                | b3 # bs3 \<Rightarrow>
                    (if 240 \<le> b0 \<and> b0 \<le> 244 \<and> utf8_cont b1 \<and> utf8_cont b2 \<and> utf8_cont b3 \<and>
                        (b0 = 240 \<longrightarrow> 144 \<le> b1) \<and> (b0 = 244 \<longrightarrow> b1 \<le> 143)
                     then map_option (Cons ((b0 - 240) * 262144 + (b1 - 128) * 4096 + (b2 - 128) * 64 + (b3 - 128)))
                            (from_utf8 bs3)
                     else None))))"

lemma from_utf8_ascii: "\<forall>c \<in> set s. c < 128 \<Longrightarrow> from_utf8 s = Some s"
  by (induction s) auto

lemma into_bytes_ascii: "\<forall>c \<in> set s. c < 128 \<Longrightarrow> into_bytes s = s"
  by (induction s) (auto simp: into_bytes_def utf8_char_def)

lemma i64_to_string_ascii: "\<forall>c \<in> set (i64_to_string v). c < 128"
proof -
  have "c < 128" if "c \<in> set (nat_digits n)" for c n
    using nat_digits_all [of n] that by (auto simp: is_digit_def)
  then show ?thesis by (auto simp: i64_to_string_def)
qed

text \<open>A Unicode scalar value, the content of a Rust \<open>char\<close>.\<close>

definition scalar :: "nat \<Rightarrow> bool" where
  "scalar c \<longleftrightarrow> c < 55296 \<or> 57344 \<le> c \<and> c < 1114112"

lemma digits_64: "(c::nat) div 64 * 64 + c mod 64 = c"
  "c div 4096 * 4096 + c div 64 mod 64 * 64 + c mod 64 = (c::nat)"
  "c div 262144 * 262144 + c div 4096 mod 64 * 4096 + c div 64 mod 64 * 64 + c mod 64 = (c::nat)"
proof -
  have a: "c div 4096 = c div 64 div 64" "c div 262144 = c div 64 div 64 div 64" by (simp_all add: div_mult2_eq [symmetric])
  show "c div 64 * 64 + c mod 64 = c" by simp
  show b: "c div 4096 * 4096 + c div 64 mod 64 * 64 + c mod 64 = c"
    unfolding a using div_mult_mod_eq [of "c div 64" 64] div_mult_mod_eq [of c 64] by linarith
  show "c div 262144 * 262144 + c div 4096 mod 64 * 4096 + c div 64 mod 64 * 64 + c mod 64 = c"
    unfolding a using div_mult_mod_eq [of "c div 64 div 64" 64] div_mult_mod_eq [of "c div 64" 64]
      div_mult_mod_eq [of c 64] by linarith
qed

lemma utf8_cont_mod: "utf8_cont (128 + x mod 64)"
  unfolding utf8_cont_def by simp

lemma from_utf8_char:
  assumes "scalar c"
  shows "from_utf8 (utf8_char c @ bs) = map_option (Cons c) (from_utf8 bs)"
proof -
  consider "c < 128" | "128 \<le> c" "c < 2048" | "2048 \<le> c" "c < 65536" | "65536 \<le> c" "c < 1114112"
    using assms unfolding scalar_def by linarith
  then show ?thesis
  proof cases
    case 1
    then show ?thesis by (simp add: utf8_char_def)
  next
    case 2
    define d m where "d = c div 64" and "m = c mod 64"
    have "2 \<le> d" "d \<le> 31" "m < 64" "d * 64 + m = c"
      using 2 digits_64(1) [of c] unfolding d_def m_def by (linarith | simp)+
    moreover have "utf8_char c = [192 + d, 128 + m]" using 2 by (simp add: utf8_char_def d_def m_def)
    ultimately show ?thesis by (simp add: utf8_cont_def)
  next
    case 3
    define d e m where "d = c div 4096" and "e = c div 64 mod 64" and "m = c mod 64"
    have b: "d \<le> 15" "e < 64" "m < 64" and n: "d * 4096 + e * 64 + m = c"
      using 3 digits_64(2) [of c] unfolding d_def e_def m_def by (linarith | simp)+
    have o: "d = 0 \<longrightarrow> 32 \<le> e" using 3 b n by linarith
    have s: "d = 13 \<longrightarrow> e \<le> 31" using assms b n unfolding scalar_def by linarith
    have "utf8_char c = [224 + d, 128 + e, 128 + m]" using 3 by (simp add: utf8_char_def d_def e_def m_def)
    then show ?thesis using b n o s by (simp add: utf8_cont_def)
  next
    case 4
    define d e f m where "d = c div 262144" and "e = c div 4096 mod 64" and "f = c div 64 mod 64" and "m = c mod 64"
    have b: "d \<le> 4" "e < 64" "f < 64" "m < 64" and n: "d * 262144 + e * 4096 + f * 64 + m = c"
      using 4 digits_64(3) [of c] unfolding d_def e_def f_def m_def by (linarith | simp)+
    have o: "d = 0 \<longrightarrow> 16 \<le> e" using 4 b n by linarith
    have s: "d = 4 \<longrightarrow> e \<le> 15" using 4 b n by linarith
    have "utf8_char c = [240 + d, 128 + e, 128 + f, 128 + m]"
      using 4 by (simp add: utf8_char_def d_def e_def f_def m_def)
    then show ?thesis using b n o s by (simp add: utf8_cont_def)
  qed
qed

lemma from_utf8_into_bytes: "\<forall>c \<in> set s. scalar c \<Longrightarrow> from_utf8 (into_bytes s) = Some s"
  by (induction s) (simp_all add: into_bytes_def from_utf8_char)

lemma nat_digits_inj: "nat_digits m = nat_digits n \<Longrightarrow> m = n"
  using parse_nat_digits by (metis option.inject)

subsection \<open>Searching and \<open>Debug\<close> output\<close>

fun str_contains :: "str \<Rightarrow> str \<Rightarrow> bool" where
  "str_contains p [] \<longleftrightarrow> p = []"
| "str_contains p (c # cs) \<longleftrightarrow> strip_prefix p (c # cs) \<noteq> None \<or> str_contains p cs"

lemma str_contains_append: "str_contains p (a @ p @ b)"
proof (induction a)
  case Nil
  show ?case
  proof (cases "p @ b")
    case (Cons c cs)
    then have "strip_prefix p (c # cs) = Some b" by (metis strip_prefix_append)
    then show ?thesis using Cons by simp
  qed simp
qed simp

fun join_with :: "str \<Rightarrow> str list \<Rightarrow> str" where
  "join_with sep [] = []"
| "join_with sep [x] = x"
| "join_with sep (x # y # xs) = x @ sep @ join_with sep (y # xs)"

lemma join_with_split: "x \<in> set xs \<Longrightarrow> \<exists>a b. join_with sep xs = a @ x @ b"
proof (induction sep xs rule: join_with.induct)
  case (3 sep y z ys)
  show ?case
  proof (cases "x = y")
    case True
    then show ?thesis by (auto intro: exI [of _ "[]"])
  next
    case False
    then obtain a b where "join_with sep (z # ys) = a @ x @ b" using 3 by auto
    then show ?thesis by (auto intro: exI [of _ "y @ sep @ a"])
  qed
qed (auto intro: exI [of _ "[]"])

fun hex_digits :: "nat \<Rightarrow> str" where
  "hex_digits n =
     (let d = n mod 16; c = (if d < 10 then 48 + d else 87 + d)
      in if n < 16 then [c] else hex_digits (n div 16) @ [c])"

declare hex_digits.simps [simp del]

text \<open>
  The \<open>{:?}\<close> form of a string. Which characters beyond ASCII are printed as they are is a table of the
  standard library, the parameter \<open>shown\<close>.
\<close>

definition escape_debug :: "(nat \<Rightarrow> bool) \<Rightarrow> nat \<Rightarrow> str" where
  "escape_debug shown c =
     (if c = 0 then [92, 48]
      else if c = 9 then [92, 116]
      else if c = 10 then [92, 110]
      else if c = 13 then [92, 114]
      else if c = 34 \<or> c = 92 then [92, c]
      else if (if c < 128 then 32 \<le> c \<and> c < 127 else shown c) then [c]
      else [92, 117, 123] @ hex_digits c @ [125])"

definition debug_str :: "(nat \<Rightarrow> bool) \<Rightarrow> str \<Rightarrow> str" where
  "debug_str shown s = [34] @ concat (map (escape_debug shown) s) @ [34]"

end
