(* ===== verification/Config.thy ===== *)
theory Config
  imports Node_Apply Rust_Str
begin

text \<open>
  The configuration of a node and its command-line parser, \<open>raftust-core/src/config.rs\<close>, up to
  the construction of the node that \<open>Runner::new\<close> makes of it.
\<close>

record raft_config =
  cfg_id :: node_id
  cfg_addr :: str
  cfg_peer_addrs :: "(node_id, str) hash_map"
  cfg_election_timeout_min_ticks :: nat
  cfg_election_timeout_max_ticks :: nat
  cfg_heartbeat_interval_ticks :: nat
  cfg_tick_ms :: nat
  cfg_log_compaction_threshold :: nat
  cfg_report_metrics_interval_ticks :: nat

definition join_lines :: "str list \<Rightarrow> str" where
  "join_lines ls = (case ls of [] \<Rightarrow> [] | l # ls \<Rightarrow> l @ concat (map (\<lambda>x. 10 # x) ls))"

definition help_text :: str where
  "help_text = join_lines
     [lit ''Usage:'',
      lit ''  raftust-core --id <node-id> --addr <host:port> --peer <id=host:port> [--peer ...]'',
      lit '''',
      lit ''Options:'',
      lit ''  --id <u64>                  Node ID'',
      lit ''  --addr <host:port>          Listen address for this node'',
      lit ''  --peer <id=host:port>       Peer mapping (repeatable)'',
      lit ''  --election-timeout-min <ticks> Election timeout minimum in ticks (default: 20)'',
      lit ''  --election-timeout-max <ticks> Election timeout maximum in ticks (default: 40)'',
      lit ''  --heartbeat-interval <ticks> Heartbeat interval in ticks (default: 4)'',
      lit ''  --tick-ms <ms>              Tick duration in ms (default: 100)'',
      lit ''  --log-compaction-threshold <n> Compact when in-memory log length reaches n (default: 128)'',
      lit ''  --report-metrics-interval <ticks> Report metrics interval in ticks (default: 100)'',
      lit '''',
      lit ''Example (3 nodes on localhost):'',
      lit ''  raftust-core --id 1 --addr 127.0.0.1:5001 --peer 2=127.0.0.1:5002 --peer 3=127.0.0.1:5003'']"

subsection \<open>The local variables of \<open>parse_config\<close>\<close>

record parse_state =
  p_id :: "node_id option"
  p_addr :: "str option"
  p_peer_addrs :: "(node_id, str) hash_map"
  p_election_timeout_min_ticks :: nat
  p_election_timeout_max_ticks :: nat
  p_heartbeat_interval_ticks :: nat
  p_tick_ms :: nat
  p_log_compaction_threshold :: nat
  p_report_metrics_interval_ticks :: nat

definition parse_defaults :: parse_state where
  "parse_defaults =
     \<lparr>p_id = None, p_addr = None, p_peer_addrs = [], p_election_timeout_min_ticks = 20,
      p_election_timeout_max_ticks = 40, p_heartbeat_interval_ticks = 4, p_tick_ms = 100,
      p_log_compaction_threshold = 128, p_report_metrics_interval_ticks = 100\<rparr>"

text \<open>\<open>value.parse().map_err(|_| msg)?\<close> followed by the assignment of the parsed number.\<close>

definition parse_into :: "str \<Rightarrow> str \<Rightarrow> (nat \<Rightarrow> parse_state) \<Rightarrow> str + parse_state" where
  "parse_into value msg assign = (case parse_u64 value of None \<Rightarrow> Inl msg | Some v \<Rightarrow> Inr (assign v))"

text \<open>The arms of the \<open>match\<close> that take a value: the message when it is missing, and what it sets.\<close>

definition missing_value :: "str \<Rightarrow> str" where
  "missing_value flag =
     (if flag = lit ''--peer'' then lit ''--peer requires <id>=<addr>'' else flag @ lit '' requires a value'')"

definition set_option :: "str \<Rightarrow> str \<Rightarrow> parse_state \<Rightarrow> (str + parse_state) option" where
  "set_option flag value st =
     (if flag = lit ''--id'' then
        Some (parse_into value (lit ''invalid --id value'') (\<lambda>v. st\<lparr>p_id := Some v\<rparr>))
      else if flag = lit ''--addr'' then Some (Inr (st\<lparr>p_addr := Some value\<rparr>))
      else if flag = lit ''--peer'' then
        Some (case split_once 61 value of
          None \<Rightarrow> Inl (lit ''--peer must be formatted as <id>=<addr>'')
        | Some (peer_id, peer_addr) \<Rightarrow>
            parse_into peer_id (lit ''invalid peer id'')
              (\<lambda>v. st\<lparr>p_peer_addrs := hm_insert v peer_addr (p_peer_addrs st)\<rparr>))
      else if flag = lit ''--election-timeout-min'' then
        Some (parse_into value (lit ''invalid --election-timeout-min value'')
                (\<lambda>v. st\<lparr>p_election_timeout_min_ticks := v\<rparr>))
      else if flag = lit ''--election-timeout-max'' then
        Some (parse_into value (lit ''invalid --election-timeout-max value'')
                (\<lambda>v. st\<lparr>p_election_timeout_max_ticks := v\<rparr>))
      else if flag = lit ''--heartbeat-interval'' then
        Some (parse_into value (lit ''invalid --heartbeat-interval value'')
                (\<lambda>v. st\<lparr>p_heartbeat_interval_ticks := v\<rparr>))
      else if flag = lit ''--tick-ms'' then
        Some (parse_into value (lit ''invalid --tick-ms value'') (\<lambda>v. st\<lparr>p_tick_ms := v\<rparr>))
      else if flag = lit ''--log-compaction-threshold'' then
        Some (parse_into value (lit ''invalid --log-compaction-threshold value'')
                (\<lambda>v. st\<lparr>p_log_compaction_threshold := v\<rparr>))
      else if flag = lit ''--report-metrics-interval'' then
        Some (parse_into value (lit ''invalid --report-metrics-interval value'')
                (\<lambda>v. st\<lparr>p_report_metrics_interval_ticks := v\<rparr>))
      else None)"

definition value_flags :: "str list" where
  "value_flags = map lit [''--id'', ''--addr'', ''--peer'', ''--election-timeout-min'',
     ''--election-timeout-max'', ''--heartbeat-interval'', ''--tick-ms'',
     ''--log-compaction-threshold'', ''--report-metrics-interval'']"

text \<open>The loop over the arguments.\<close>

fun parse_args :: "str list \<Rightarrow> parse_state \<Rightarrow> str + parse_state" where
  "parse_args [] st = Inr st"
| "parse_args (arg # args) st =
     (if arg \<in> set value_flags then
        (case args of
           [] \<Rightarrow> Inl (missing_value arg)
         | value # rest \<Rightarrow>
             (case set_option arg value st of
                Some (Inr st') \<Rightarrow> parse_args rest st'
              | Some (Inl err) \<Rightarrow> Inl err
              | None \<Rightarrow> Inl []))
      else if arg = lit ''--help'' \<or> arg = lit ''-h'' then Inl help_text
      else Inl (lit ''unknown arg: '' @ arg @ [10, 10] @ help_text))"

definition parse_config :: "str list \<Rightarrow> str + raft_config" where
  "parse_config args =
     (case parse_args args parse_defaults of
        Inl err \<Rightarrow> Inl err
      | Inr st \<Rightarrow>
          (case p_id st of
             None \<Rightarrow> Inl help_text
           | Some i \<Rightarrow>
               (case p_addr st of
                  None \<Rightarrow> Inl help_text
                | Some a \<Rightarrow>
                    if hm_get (p_peer_addrs st) i \<noteq> None
                    then Inl (lit ''--peer cannot include this node'' @ [39] @ lit ''s own id'')
                    else if p_election_timeout_min_ticks st = 0
                    then Inl (lit ''election timeout min must be greater than zero'')
                    else if p_election_timeout_max_ticks st < p_election_timeout_min_ticks st
                    then Inl (lit ''election timeout max must be greater than or equal to min'')
                    else if p_heartbeat_interval_ticks st \<ge> p_election_timeout_min_ticks st
                    then Inl (lit ''heartbeat interval must be less than election timeout min'')
                    else if p_log_compaction_threshold st = 0
                    then Inl (lit ''log compaction threshold must be greater than zero'')
                    else Inr
                      \<lparr>cfg_id = i, cfg_addr = a, cfg_peer_addrs = p_peer_addrs st,
                       cfg_election_timeout_min_ticks = p_election_timeout_min_ticks st,
                       cfg_election_timeout_max_ticks = p_election_timeout_max_ticks st,
                       cfg_heartbeat_interval_ticks = p_heartbeat_interval_ticks st,
                       cfg_tick_ms = p_tick_ms st,
                       cfg_log_compaction_threshold = p_log_compaction_threshold st,
                       cfg_report_metrics_interval_ticks = p_report_metrics_interval_ticks st\<rparr>)))"

subsection \<open>What an accepted configuration satisfies\<close>

definition config_ok :: "raft_config \<Rightarrow> bool" where
  "config_ok c \<longleftrightarrow> hm_ok (cfg_peer_addrs c) \<and> hm_get (cfg_peer_addrs c) (cfg_id c) = None \<and>
     0 < cfg_election_timeout_min_ticks c \<and>
     cfg_election_timeout_min_ticks c \<le> cfg_election_timeout_max_ticks c \<and>
     cfg_heartbeat_interval_ticks c < cfg_election_timeout_min_ticks c \<and>
     0 < cfg_log_compaction_threshold c"

definition config_u64 :: "raft_config \<Rightarrow> bool" where
  "config_u64 c \<longleftrightarrow> cfg_id c < u64_limit \<and> (\<forall>p \<in> set (hm_keys (cfg_peer_addrs c)). p < u64_limit) \<and>
     cfg_election_timeout_min_ticks c < u64_limit \<and> cfg_election_timeout_max_ticks c < u64_limit \<and>
     cfg_heartbeat_interval_ticks c < u64_limit \<and> cfg_tick_ms c < u64_limit \<and>
     cfg_log_compaction_threshold c < u64_limit \<and> cfg_report_metrics_interval_ticks c < u64_limit"

lemma lit_eq_iff [simp]: "(lit a = lit b) = (a = b)"
proof
  assume "lit a = lit b"
  then show "a = b"
    by (induction a arbitrary: b) (auto simp: lit_def Cons_eq_map_conv)
qed simp

text \<open>The state of the parser holds \<open>u64\<close> values and one address per peer, whatever was read.\<close>

definition parse_ok :: "parse_state \<Rightarrow> bool" where
  "parse_ok st \<longleftrightarrow> hm_ok (p_peer_addrs st) \<and> (\<forall>p \<in> set (hm_keys (p_peer_addrs st)). p < u64_limit) \<and>
     (\<forall>i. p_id st = Some i \<longrightarrow> i < u64_limit) \<and>
     p_election_timeout_min_ticks st < u64_limit \<and> p_election_timeout_max_ticks st < u64_limit \<and>
     p_heartbeat_interval_ticks st < u64_limit \<and> p_tick_ms st < u64_limit \<and>
     p_log_compaction_threshold st < u64_limit \<and> p_report_metrics_interval_ticks st < u64_limit"

lemma parse_defaults_ok: "parse_ok parse_defaults"
  by (simp add: parse_ok_def parse_defaults_def hm_keys_def u64_limit_def)

lemma parse_into_Inr: "(parse_into v msg f = Inr st) = (\<exists>x. parse_u64 v = Some x \<and> f x = st)"
  by (auto simp: parse_into_def split: option.splits)

lemma keys_insert: "set (hm_keys (hm_insert k v m)) = insert k (set (hm_keys m))"
  by (simp add: hm_keys_def)

lemma set_option_ok:
  assumes "parse_ok st" and "set_option flag value st = Some (Inr st')"
  shows "parse_ok st'"
  using assms(2) unfolding set_option_def
  by (simp split: if_split_asm option.splits prod.splits add: parse_into_Inr;
      use assms(1) in \<open>auto simp: parse_ok_def parse_into_Inr keys_insert dest!: parse_u64_bound\<close>)

lemma parse_args_ok: "parse_ok st \<Longrightarrow> parse_args args st = Inr st' \<Longrightarrow> parse_ok st'"
proof (induction args st rule: parse_args.induct)
  case (2 arg args st)
  then have flag: "arg \<in> set value_flags" by (simp split: if_splits)
  then obtain v rest where args: "args = v # rest" using "2.prems"(2) by (cases args) auto
  then obtain st1 where o: "set_option arg v st = Some (Inr st1)" and "parse_args rest st1 = Inr st'"
    using "2.prems"(2) flag by (auto split: option.splits sum.splits)
  then show ?case using "2.IH" [OF flag args o refl] set_option_ok [OF "2.prems"(1) o] by simp
qed simp

lemma parse_config_Inr:
  assumes "parse_config args = Inr c"
  shows "config_ok c \<and> config_u64 c"
proof -
  obtain st where st: "parse_args args parse_defaults = Inr st"
    using assms by (auto simp: parse_config_def split: sum.splits)
  have "parse_ok st" using parse_args_ok [OF parse_defaults_ok st] .
  then show ?thesis
    using assms st
    by (auto simp: parse_config_def parse_ok_def config_ok_def config_u64_def split: option.splits if_splits)
qed

subsection \<open>Every acceptable configuration can be given on the command line\<close>

definition peer_args :: "(node_id, str) hash_map \<Rightarrow> str list" where
  "peer_args ps = concat (map (\<lambda>(p, a). [lit ''--peer'', u64_to_string p @ 61 # a]) ps)"

definition number_args :: "raft_config \<Rightarrow> str list" where
  "number_args c =
     [lit ''--election-timeout-min'', u64_to_string (cfg_election_timeout_min_ticks c),
      lit ''--election-timeout-max'', u64_to_string (cfg_election_timeout_max_ticks c),
      lit ''--heartbeat-interval'', u64_to_string (cfg_heartbeat_interval_ticks c),
      lit ''--tick-ms'', u64_to_string (cfg_tick_ms c),
      lit ''--log-compaction-threshold'', u64_to_string (cfg_log_compaction_threshold c),
      lit ''--report-metrics-interval'', u64_to_string (cfg_report_metrics_interval_ticks c)]"

definition config_args :: "raft_config \<Rightarrow> str list" where
  "config_args c =
     lit ''--id'' # u64_to_string (cfg_id c) # lit ''--addr'' # cfg_addr c #
     peer_args (cfg_peer_addrs c) @ number_args c"

lemma parse_args_option:
  "flag \<in> set value_flags \<Longrightarrow> set_option flag value st = Some (Inr st') \<Longrightarrow>
     parse_args (flag # value # rest) st = parse_args rest st'"
  by simp

lemma parse_into_number: "v < u64_limit \<Longrightarrow> parse_into (u64_to_string v) msg f = Inr (f v)"
  by (simp add: parse_into_def parse_u64_to_string)

lemma split_peer: "split_once 61 (u64_to_string p @ 61 # a) = Some (u64_to_string p, a)"
proof -
  have "(61::nat) \<notin> set (u64_to_string p)"
    using nat_digits_all [of p] by (auto simp: u64_to_string_def is_digit_def)
  then show ?thesis by (simp add: split_once_Some_iff)
qed

lemma hm_insert_new: "k \<notin> fst ` set m \<Longrightarrow> hm_insert k v m = m @ [(k, v)]"
  by (induction k v m rule: hm_insert.induct) auto

lemma parse_peer_args:
  "hm_ok (p_peer_addrs st @ ps) \<Longrightarrow> \<forall>p \<in> set (hm_keys ps). p < u64_limit \<Longrightarrow>
     parse_args (peer_args ps @ rest) st = parse_args rest (st\<lparr>p_peer_addrs := p_peer_addrs st @ ps\<rparr>)"
proof (induction ps arbitrary: st)
  case Nil
  then show ?case by (simp add: peer_args_def)
next
  case (Cons e ps)
  obtain p a where e: "e = (p, a)" by fastforce
  have new: "hm_insert p a (p_peer_addrs st) = p_peer_addrs st @ [e]"
    using Cons.prems(1) by (simp add: hm_insert_new hm_ok_def e)
  have "set_option (lit ''--peer'') (u64_to_string p @ 61 # a) st =
      Some (Inr (st\<lparr>p_peer_addrs := p_peer_addrs st @ [e]\<rparr>))"
    using Cons.prems(2) by (simp add: set_option_def split_peer parse_into_number new e hm_keys_def)
  moreover have "lit ''--peer'' \<in> set value_flags" by (simp add: value_flags_def)
  ultimately have "parse_args (peer_args (e # ps) @ rest) st =
      parse_args (peer_args ps @ rest) (st\<lparr>p_peer_addrs := p_peer_addrs st @ [e]\<rparr>)"
    using parse_args_option by (simp add: peer_args_def e)
  then show ?case using Cons by (simp add: hm_keys_def)
qed

lemma parse_config_args:
  assumes "config_ok c" and "config_u64 c"
  shows "parse_config (config_args c) = Inr c"
proof -
  let ?st = "parse_defaults\<lparr>p_id := Some (cfg_id c), p_addr := Some (cfg_addr c)\<rparr>"
  have u: "\<forall>p \<in> set (hm_keys (cfg_peer_addrs c)). p < u64_limit" "hm_ok (cfg_peer_addrs c)"
    using assms by (simp_all add: config_ok_def config_u64_def)
  have "parse_args (config_args c) parse_defaults = parse_args (peer_args (cfg_peer_addrs c) @ number_args c) ?st"
    using assms(2) by (simp add: config_args_def value_flags_def set_option_def parse_into_number config_u64_def)
  also have "\<dots> = parse_args (number_args c) (?st\<lparr>p_peer_addrs := cfg_peer_addrs c\<rparr>)"
    using parse_peer_args [of ?st "cfg_peer_addrs c" "number_args c"] u by (simp add: parse_defaults_def)
  also have "\<dots> = Inr (?st\<lparr>p_peer_addrs := cfg_peer_addrs c,
      p_election_timeout_min_ticks := cfg_election_timeout_min_ticks c,
      p_election_timeout_max_ticks := cfg_election_timeout_max_ticks c,
      p_heartbeat_interval_ticks := cfg_heartbeat_interval_ticks c, p_tick_ms := cfg_tick_ms c,
      p_log_compaction_threshold := cfg_log_compaction_threshold c,
      p_report_metrics_interval_ticks := cfg_report_metrics_interval_ticks c\<rparr>)"
    using assms(2) by (simp add: number_args_def value_flags_def set_option_def parse_into_number config_u64_def)
  finally show ?thesis
    using assms(1) by (simp add: parse_config_def config_ok_def)
qed

subsection \<open>The node of a configuration\<close>

text \<open>The call of \<open>RaftNode::new\<close> in \<open>Runner::new\<close>.\<close>

definition node_of_config :: "gen_range \<Rightarrow> nat \<Rightarrow> raft_config \<Rightarrow> raft_node option" where
  "node_of_config rng k c =
     new_node rng k (cfg_id c) (hm_keys (cfg_peer_addrs c)) (cfg_election_timeout_min_ticks c)
       (cfg_election_timeout_max_ticks c) (cfg_heartbeat_interval_ticks c)"

lemma node_of_config_total:
  assumes "config_ok c"
  shows "\<exists>n. node_of_config rng k c = Some n"
  using assms by (simp add: node_of_config_def new_node_def config_ok_def sample_election_timeout_def)

lemma node_of_config_inv:
  assumes "gen_range_ok rng" and "config_u64 c" and "node_of_config rng k c = Some n"
  shows "node_inv n"
  using assms(2) new_node_inv [OF assms(1) assms(3) [unfolded node_of_config_def]]
  by (simp add: config_u64_def)

end
