(* ===== verification/Storage.thy ===== *)
theory Storage
  imports Node_Apply
begin

text \<open>
  The trait \<open>StorageStrategy\<close> and the record it stores, \<open>raftust-core/src/storage.rs\<close>, with the
  in-memory storage of \<open>raftust-core-storage-in-memory/src/lib.rs\<close>.
\<close>

record storage_snapshot =
  ss_node_id :: node_id
  ss_current_term :: term_no
  ss_voted_for :: "node_id option"
  ss_log :: "log_entry list"
  ss_commit_index :: nat
  ss_last_included_index :: nat
  ss_last_included_term :: term_no
  ss_state_machine_snapshot :: bytes

definition from_node :: "raft_node \<Rightarrow> bytes \<Rightarrow> storage_snapshot" where
  "from_node node state_machine_snapshot =
     \<lparr>ss_node_id = nid node, ss_current_term = current_term node, ss_voted_for = voted_for node,
      ss_log = log node, ss_commit_index = commit_index node,
      ss_last_included_index = snapshot_last_included_index node,
      ss_last_included_term = snapshot_last_included_term node,
      ss_state_machine_snapshot = state_machine_snapshot\<rparr>"

record 's storage_ops =
  st_load :: "'s \<Rightarrow> node_id \<Rightarrow> storage_snapshot option"
  st_save :: "storage_snapshot \<Rightarrow> 's \<Rightarrow> 's"

text \<open>The default body of \<open>load\<close> in the trait.\<close>

definition default_load :: "'s \<Rightarrow> node_id \<Rightarrow> storage_snapshot option" where
  "default_load s i = None"

subsection \<open>The contract\<close>

locale storage_strategy =
  fixes load :: "'s \<Rightarrow> node_id \<Rightarrow> storage_snapshot option"
    and save :: "storage_snapshot \<Rightarrow> 's \<Rightarrow> 's"
    and good :: "'s \<Rightarrow> bool"
  assumes good_save: "good s \<Longrightarrow> good (save x s)"
    and load_save: "good s \<Longrightarrow> load (save x s) (ss_node_id x) = Some x"
    and load_save_other: "good s \<Longrightarrow> i \<noteq> ss_node_id x \<Longrightarrow> load (save x s) i = load s i"
begin

lemma good_saves: "good s \<Longrightarrow> good (fold save xs s)"
  by (induction xs arbitrary: s) (simp_all add: good_save)

text \<open>After any sequence of saves, a node finds the last snapshot saved under its id.\<close>

lemma load_after_saves:
  "good s \<Longrightarrow> load (fold save xs s) i =
     (case filter (\<lambda>x. ss_node_id x = i) (rev xs) of x # _ \<Rightarrow> Some x | [] \<Rightarrow> load s i)"
proof (induction xs rule: rev_induct)
  case (snoc x xs)
  then show ?case by (cases "ss_node_id x = i") (auto simp: load_save load_save_other good_saves)
qed simp

lemma save_overwrites: "good s \<Longrightarrow> ss_node_id x = ss_node_id y \<Longrightarrow> load (save y (save x s)) (ss_node_id x) = Some y"
  by (metis good_save load_save)

end

subsection \<open>The in-memory storage\<close>

record in_memory_storage =
  snapshots :: "(node_id, storage_snapshot) hash_map"

definition in_memory_new :: in_memory_storage where
  "in_memory_new = \<lparr>snapshots = []\<rparr>"

definition in_memory_get :: "in_memory_storage \<Rightarrow> node_id \<Rightarrow> storage_snapshot option" where
  "in_memory_get s i = hm_get (snapshots s) i"

definition in_memory_load :: "in_memory_storage \<Rightarrow> node_id \<Rightarrow> storage_snapshot option" where
  "in_memory_load s i = hm_get (snapshots s) i"

definition in_memory_save :: "storage_snapshot \<Rightarrow> in_memory_storage \<Rightarrow> in_memory_storage" where
  "in_memory_save x s = s\<lparr>snapshots := hm_insert (ss_node_id x) x (snapshots s)\<rparr>"

definition in_memory_ops :: "in_memory_storage storage_ops" where
  "in_memory_ops = \<lparr>st_load = in_memory_load, st_save = in_memory_save\<rparr>"

text \<open>One entry per node, filed under the id it carries.\<close>

definition in_memory_ok :: "in_memory_storage \<Rightarrow> bool" where
  "in_memory_ok s \<longleftrightarrow> hm_ok (snapshots s) \<and>
     (\<forall>i x. in_memory_load s i = Some x \<longrightarrow> ss_node_id x = i)"

lemma in_memory_save_ok: "in_memory_ok s \<Longrightarrow> in_memory_ok (in_memory_save x s)"
  by (auto simp: in_memory_ok_def in_memory_save_def in_memory_load_def split: if_splits)

lemma in_memory_load_save:
  "in_memory_load (in_memory_save x s) i = (if i = ss_node_id x then Some x else in_memory_load s i)"
  by (simp add: in_memory_load_def in_memory_save_def)

interpretation in_memory: storage_strategy in_memory_load in_memory_save in_memory_ok
  by unfold_locales (auto simp: in_memory_save_ok in_memory_load_save)

end
