(* ===== verification/State_Machine.thy ===== *)
theory State_Machine
  imports Rust_Str
begin

text \<open>
  The trait \<open>StateMachineStrategy\<close> of \<open>raftust-core/src/state_machine.rs\<close>: its operations as a
  record of functions (the methods a runner is generic over) and its contract as locales. \<open>restore\<close>
  takes \<open>&mut self\<close>, so its model returns the machine it leaves behind together with the result.
\<close>

record 'm state_machine_ops =
  sm_apply :: "'m \<Rightarrow> str \<Rightarrow> 'm"
  sm_snapshot :: "'m \<Rightarrow> bytes"
  sm_restore :: "'m \<Rightarrow> bytes \<Rightarrow> 'm \<times> (str + unit)"

text \<open>The default bodies of the trait: an empty snapshot, and a restore that accepts anything.\<close>

definition default_snapshot :: "'m \<Rightarrow> bytes" where
  "default_snapshot m = []"

definition default_restore :: "'m \<Rightarrow> bytes \<Rightarrow> 'm \<times> (str + unit)" where
  "default_restore m b = (m, Inr ())"

definition default_describe :: "'m \<Rightarrow> str" where
  "default_describe m = lit ''<state-machine>''"

text \<open>Applying a list of committed commands in order.\<close>

definition sm_run :: "('m \<Rightarrow> str \<Rightarrow> 'm) \<Rightarrow> str list \<Rightarrow> 'm \<Rightarrow> 'm" where
  "sm_run ap cmds m = foldl ap m cmds"

lemma sm_run_simps [simp]:
  "sm_run ap [] m = m"
  "sm_run ap (c # cs) m = sm_run ap cs (ap m c)"
  "sm_run ap (xs @ ys) m = sm_run ap ys (sm_run ap xs m)"
  by (simp_all add: sm_run_def)

subsection \<open>The contract of a state machine\<close>

text \<open>
  A snapshot restores the machine it was taken from, whatever the machine it is loaded into, and a
  restore that fails leaves the machine alone. \<open>good\<close> is the set of states the machine can be in.
\<close>

locale state_machine =
  fixes ap :: "'m \<Rightarrow> str \<Rightarrow> 'm"
    and snap :: "'m \<Rightarrow> bytes"
    and rest :: "'m \<Rightarrow> bytes \<Rightarrow> 'm \<times> (str + unit)"
    and good :: "'m \<Rightarrow> bool"
  assumes good_apply: "good m \<Longrightarrow> good (ap m c)"
    and restore_snapshot: "good m \<Longrightarrow> rest m' (snap m) = (m, Inr ())"
    and failed_restore: "rest m b = (m', Inl e) \<Longrightarrow> m' = m"
begin

lemma good_run: "good m \<Longrightarrow> good (sm_run ap cs m)"
  by (induction cs arbitrary: m) (simp_all add: good_apply)

text \<open>Restoring a snapshot and replaying the commands after it is running without the restart.\<close>

lemma restore_then_replay:
  assumes "good m"
  shows "sm_run ap ys (fst (rest m' (snap (sm_run ap xs m)))) = sm_run ap (xs @ ys) m"
  using assms by (simp add: restore_snapshot good_run)

lemma snapshot_inj: "good m \<Longrightarrow> good m2 \<Longrightarrow> snap m = snap m2 \<Longrightarrow> m = m2"
  using restore_snapshot by (metis prod.inject)

end

text \<open>
  A machine whose commands may be applied again: running a suffix of the commands once more over
  the state they all produced changes nothing.
\<close>

locale replayable_state_machine = state_machine +
  assumes replay_suffix: "good m \<Longrightarrow> sm_run ap ys (sm_run ap (xs @ ys) m) = sm_run ap (xs @ ys) m"
begin

text \<open>So a snapshot taken after a suffix was applied tolerates that the suffix is applied again.\<close>

lemma restore_then_reapply:
  assumes "good m"
  shows "sm_run ap ys (fst (rest m' (snap (sm_run ap (xs @ ys) m)))) = sm_run ap (xs @ ys) m"
  using assms replay_suffix good_run by (simp add: restore_snapshot del: sm_run_simps(3))

end

end
