(* ===== verification/Runner.thy ===== *)
theory Runner
  imports Config Storage State_Machine
begin

text \<open>
  The event loop, \<open>raftust-core/src/runner.rs\<close>: it owns the node, the transport, the storage and the
  state machine, turns inbound messages into calls of the node, sends the answers, applies what is
  committed and saves the node. The three strategies it is generic over are records of functions,
  collected in an environment together with the random numbers of the node. The clock is an input:
  an instant is a number of nanoseconds. Log lines and the printing of \<open>status\<close> are not modelled.
\<close>

subsection \<open>The strategies\<close>

text \<open>The trait \<open>RaftCommunication\<close> of \<open>communication.rs\<close>.\<close>

record 'c communication_ops =
  co_start :: "str \<Rightarrow> 'c \<Rightarrow> 'c \<times> (communication_error + unit)"
  co_poll :: "'c \<Rightarrow> 'c \<times> (communication_error + inbound_message option)"
  co_send :: "node_id \<Rightarrow> raft_message \<Rightarrow> 'c \<Rightarrow> 'c \<times> send_outcome"

record ('c, 's, 'm) runner_env =
  en_communication :: "'c communication_ops"
  en_storage :: "'s storage_ops"
  en_machine :: "'m state_machine_ops"
  en_rng :: gen_range

datatype command = Propose str | ForceElection | Status | Shutdown

type_synonym instant = nat

definition from_millis :: "nat \<Rightarrow> nat" where
  "from_millis ms = ms * 1000000"

record ('c, 's, 'm) runner =
  r_config :: raft_config
  r_node :: raft_node
  r_communication :: 'c
  r_storage :: 's
  r_machine :: 'm
  r_inbound_count :: nat
  r_applied_count :: nat
  r_dropped_outbound :: nat
  r_last_report_at :: instant

definition runner_new ::
  "('c, 's, 'm) runner_env \<Rightarrow> nat \<Rightarrow> instant \<Rightarrow> raft_config \<Rightarrow> 'c \<Rightarrow> 's \<Rightarrow> 'm \<Rightarrow> ('c, 's, 'm) runner option" where
  "runner_new E k now cfg c s m = do {
     node \<leftarrow> node_of_config (en_rng E) k cfg;
     Some \<lparr>r_config = cfg, r_node = node, r_communication = c, r_storage = s, r_machine = m,
           r_inbound_count = 0, r_applied_count = 0, r_dropped_outbound = 0, r_last_report_at = now\<rparr>
   }"

subsection \<open>Sending\<close>

definition send_or_log ::
  "('c, 's, 'm) runner_env \<Rightarrow> node_id \<Rightarrow> raft_message \<Rightarrow> ('c, 's, 'm) runner \<Rightarrow> ('c, 's, 'm) runner option" where
  "send_or_log E to msg r =
     (case co_send (en_communication E) to msg (r_communication r) of
        (c, Sent) \<Rightarrow> Some (r\<lparr>r_communication := c\<rparr>)
      | (c, Dropped reason) \<Rightarrow> do {
          d \<leftarrow> uadd (r_dropped_outbound r) 1;
          Some (r\<lparr>r_communication := c, r_dropped_outbound := d\<rparr>)
        })"

definition outbound_to :: "outbound_message \<Rightarrow> node_id \<times> raft_message" where
  "outbound_to m =
     (case m of OutRequestVote to msg \<Rightarrow> (to, RequestVote msg) | OutAppendEntries to msg \<Rightarrow> (to, AppendEntries msg))"

fun dispatch_outbound ::
  "('c, 's, 'm) runner_env \<Rightarrow> outbound_message list \<Rightarrow> ('c, 's, 'm) runner \<Rightarrow> ('c, 's, 'm) runner option" where
  "dispatch_outbound E [] r = Some r"
| "dispatch_outbound E (m # ms) r = do {
     r \<leftarrow> send_or_log E (fst (outbound_to m)) (snd (outbound_to m)) r;
     dispatch_outbound E ms r
   }"

subsection \<open>Saving, compacting, applying\<close>

definition maybe_compact_log :: "('c, 's, 'm) runner \<Rightarrow> ('c, 's, 'm) runner option" where
  "maybe_compact_log r =
     (if length (log (r_node r)) \<ge> cfg_log_compaction_threshold (r_config r) then do {
        (n, compacted) \<leftarrow> compact_committed (r_node r);
        Some (r\<lparr>r_node := n\<rparr>)
      } else Some r)"

definition persist :: "('c, 's, 'm) runner_env \<Rightarrow> ('c, 's, 'm) runner \<Rightarrow> ('c, 's, 'm) runner option" where
  "persist E r = do {
     r \<leftarrow> maybe_compact_log r;
     Some (r\<lparr>r_storage := st_save (en_storage E)
               (from_node (r_node r) (sm_snapshot (en_machine E) (r_machine r))) (r_storage r)\<rparr>)
   }"

fun apply_entries ::
  "('c, 's, 'm) runner_env \<Rightarrow> log_entry list \<Rightarrow> ('c, 's, 'm) runner \<Rightarrow> ('c, 's, 'm) runner option" where
  "apply_entries E [] r = Some r"
| "apply_entries E (entry # es) r = do {
     k \<leftarrow> uadd (r_applied_count r) 1;
     apply_entries E es
       (r\<lparr>r_applied_count := k, r_machine := sm_apply (en_machine E) (r_machine r) (le_command entry)\<rparr>)
   }"

definition apply_committed_entries ::
  "('c, 's, 'm) runner_env \<Rightarrow> ('c, 's, 'm) runner \<Rightarrow> ('c, 's, 'm) runner option" where
  "apply_committed_entries E r = do {
     (n, es) \<leftarrow> take_unapplied_entries (r_node r);
     apply_entries E es (r\<lparr>r_node := n\<rparr>)
   }"

text \<open>The two calls that end most handlers: \<open>self.apply_committed_entries(); self.persist();\<close>\<close>

definition settle :: "('c, 's, 'm) runner_env \<Rightarrow> ('c, 's, 'm) runner \<Rightarrow> ('c, 's, 'm) runner option" where
  "settle E r = do { r \<leftarrow> apply_committed_entries E r; persist E r }"

definition restore_from_snapshot ::
  "('c, 's, 'm) runner_env \<Rightarrow> storage_snapshot \<Rightarrow> ('c, 's, 'm) runner \<Rightarrow> ('c, 's, 'm) runner option" where
  "restore_from_snapshot E snap r =
     (let (m, res) = sm_restore (en_machine E) (r_machine r) (ss_state_machine_snapshot snap);
          r = r\<lparr>r_machine := m\<rparr> in do {
        n \<leftarrow> restore_from_storage (ss_current_term snap) (ss_voted_for snap) (ss_log snap)
               (ss_commit_index snap) (ss_last_included_index snap) (ss_last_included_term snap) (r_node r);
        Some (r\<lparr>r_node := n\<rparr>)
      })"

subsection \<open>Inbound messages\<close>

text \<open>
  One definition per arm of the \<open>match\<close> in \<open>process_communication\<close>; \<open>from\<close> is \<open>msg.from\<close>. An arm that
  answers is split at the point where the answer is out and nothing is saved yet.
\<close>

definition answer_request_vote ::
  "('c, 's, 'm) runner_env \<Rightarrow> node_id \<Rightarrow> request_vote \<Rightarrow> ('c, 's, 'm) runner \<Rightarrow> ('c, 's, 'm) runner option" where
  "answer_request_vote E sender req r = do {
     (n, resp) \<leftarrow> handle_request_vote (en_rng E) req (r_node r);
     let r = r\<lparr>r_node := n\<rparr>;
     send_or_log E sender
       (RequestVoteResponse \<lparr>rvr_term = rvr_term resp, rvr_vote_granted = rvr_vote_granted resp,
                             rvr_from = nid (r_node r)\<rparr>) r
   }"

definition on_request_vote ::
  "('c, 's, 'm) runner_env \<Rightarrow> node_id \<Rightarrow> request_vote \<Rightarrow> ('c, 's, 'm) runner \<Rightarrow> ('c, 's, 'm) runner option" where
  "on_request_vote E sender req r = do { r \<leftarrow> answer_request_vote E sender req r; settle E r }"

definition on_request_vote_response ::
  "('c, 's, 'm) runner_env \<Rightarrow> request_vote_response \<Rightarrow> ('c, 's, 'm) runner \<Rightarrow> ('c, 's, 'm) runner option" where
  "on_request_vote_response E resp r = do {
     (n, became_leader) \<leftarrow> handle_request_vote_response (en_rng E) resp (r_node r);
     let r = r\<lparr>r_node := n\<rparr>;
     r \<leftarrow> (if became_leader then do {
             (n, outbound) \<leftarrow> tick (en_rng E) (r_node r);
             dispatch_outbound E outbound (r\<lparr>r_node := n\<rparr>)
           } else Some r);
     settle E r
   }"

definition answer_append_entries ::
  "('c, 's, 'm) runner_env \<Rightarrow> node_id \<Rightarrow> append_entries \<Rightarrow> ('c, 's, 'm) runner \<Rightarrow> ('c, 's, 'm) runner option" where
  "answer_append_entries E sender req r = do {
     (n, resp) \<leftarrow> handle_append_entries (en_rng E) req (r_node r);
     let r = r\<lparr>r_node := n\<rparr>;
     send_or_log E sender
       (AppendEntriesResponse \<lparr>aer_term = aer_term resp, aer_success = aer_success resp,
                               aer_from = nid (r_node r), aer_match_index = aer_match_index resp\<rparr>) r
   }"

definition on_append_entries ::
  "('c, 's, 'm) runner_env \<Rightarrow> node_id \<Rightarrow> append_entries \<Rightarrow> ('c, 's, 'm) runner \<Rightarrow> ('c, 's, 'm) runner option" where
  "on_append_entries E sender req r = do { r \<leftarrow> answer_append_entries E sender req r; settle E r }"

definition on_append_entries_response ::
  "('c, 's, 'm) runner_env \<Rightarrow> append_entries_response \<Rightarrow> ('c, 's, 'm) runner \<Rightarrow> ('c, 's, 'm) runner option" where
  "on_append_entries_response E resp r = do {
     (n, outbound) \<leftarrow> handle_append_entries_response (en_rng E) resp (r_node r);
     r \<leftarrow> dispatch_outbound E outbound (r\<lparr>r_node := n\<rparr>);
     settle E r
   }"

definition snapshot_reply :: "('c, 's, 'm) runner \<Rightarrow> bool \<Rightarrow> raft_message" where
  "snapshot_reply r ok =
     InstallSnapshotResponse \<lparr>isr_term = current_term (r_node r), isr_from = nid (r_node r), isr_success = ok\<rparr>"

definition on_install_snapshot ::
  "('c, 's, 'm) runner_env \<Rightarrow> node_id \<Rightarrow> install_snapshot \<Rightarrow> ('c, 's, 'm) runner \<Rightarrow> ('c, 's, 'm) runner option" where
  "on_install_snapshot E sender req r =
     (if is_term req < current_term (r_node r) then send_or_log E sender (snapshot_reply r False) r
      else let (m, res) = sm_restore (en_machine E) (r_machine r) (is_data req); r = r\<lparr>r_machine := m\<rparr> in
        (case res of
           Inl err \<Rightarrow> send_or_log E sender (snapshot_reply r False) r
         | Inr _ \<Rightarrow> do {
             n \<leftarrow> restore_from_storage (is_term req) None [] (is_last_included_index req)
                    (is_last_included_index req) (is_last_included_term req) (r_node r);
             let r = r\<lparr>r_node := n\<lparr>leader_id := Some (is_leader_id req)\<rparr>\<rparr>;
             let r = r\<lparr>r_storage := st_save (en_storage E) (from_node (r_node r) (is_data req)) (r_storage r)\<rparr>;
             send_or_log E sender (snapshot_reply r True) r
           }))"

definition process_message ::
  "('c, 's, 'm) runner_env \<Rightarrow> inbound_message \<Rightarrow> ('c, 's, 'm) runner \<Rightarrow> ('c, 's, 'm) runner option" where
  "process_message E msg r = do {
     k \<leftarrow> uadd (r_inbound_count r) 1;
     let r = r\<lparr>r_inbound_count := k\<rparr>;
     (case im_message msg of
        RequestVote req \<Rightarrow> on_request_vote E (im_from msg) req r
      | RequestVoteResponse resp \<Rightarrow> on_request_vote_response E resp r
      | AppendEntries req \<Rightarrow> on_append_entries E (im_from msg) req r
      | AppendEntriesResponse resp \<Rightarrow> on_append_entries_response E resp r
      | InstallSnapshot req \<Rightarrow> on_install_snapshot E (im_from msg) req r
      | InstallSnapshotResponse resp \<Rightarrow> Some r)
   }"

text \<open>
  The loop \<open>while let Some(msg) = self.communication.poll()?\<close>. It ends only when the transport has
  nothing more; \<open>None\<close> is a panic of a handler or a transport that never runs dry.
\<close>

partial_function (option) process_communication ::
  "('c, 's, 'm) runner_env \<Rightarrow> ('c, 's, 'm) runner \<Rightarrow> (('c, 's, 'm) runner \<times> (communication_error + unit)) option" where
  "process_communication E r =
     (case co_poll (en_communication E) (r_communication r) of
        (c, Inl err) \<Rightarrow> Some (r\<lparr>r_communication := c\<rparr>, Inl err)
      | (c, Inr None) \<Rightarrow> Some (r\<lparr>r_communication := c\<rparr>, Inr ())
      | (c, Inr (Some msg)) \<Rightarrow>
          Option.bind (process_message E msg (r\<lparr>r_communication := c\<rparr>)) (process_communication E))"

subsection \<open>Commands, ticks, metrics and the main loop\<close>

definition process_command ::
  "('c, 's, 'm) runner_env \<Rightarrow> command \<Rightarrow> ('c, 's, 'm) runner \<Rightarrow> (('c, 's, 'm) runner \<times> bool) option" where
  "process_command E cmd r =
     (case cmd of
        Shutdown \<Rightarrow> Some (r, False)
      | Status \<Rightarrow> Some (r, True)
      | ForceElection \<Rightarrow> do {
          (n, outbound) \<leftarrow> start_election (en_rng E) (r_node r);
          r \<leftarrow> dispatch_outbound E outbound (r\<lparr>r_node := n\<rparr>);
          r \<leftarrow> settle E r;
          Some (r, True)
        }
      | Propose v \<Rightarrow> do {
          (n, outbound) \<leftarrow> propose_command v (r_node r);
          (case outbound of
             Some ms \<Rightarrow> do {
               r \<leftarrow> dispatch_outbound E ms (r\<lparr>r_node := n\<rparr>);
               r \<leftarrow> settle E r;
               Some (r, True)
             }
           | None \<Rightarrow> Some (r\<lparr>r_node := n\<rparr>, True))
        })"

definition on_tick :: "('c, 's, 'm) runner_env \<Rightarrow> ('c, 's, 'm) runner \<Rightarrow> ('c, 's, 'm) runner option" where
  "on_tick E r = do {
     (n, outbound) \<leftarrow> tick (en_rng E) (r_node r);
     r \<leftarrow> dispatch_outbound E outbound (r\<lparr>r_node := n\<rparr>);
     persist E r
   }"

text \<open>The product of the two settings is a \<open>u64\<close> multiplication, which panics when it overflows.\<close>

definition maybe_report_runtime_metrics :: "instant \<Rightarrow> ('c, 's, 'm) runner \<Rightarrow> ('c, 's, 'm) runner option" where
  "maybe_report_runtime_metrics now r =
     (let interval = cfg_report_metrics_interval_ticks (r_config r) * cfg_tick_ms (r_config r) in
      if u64_limit \<le> interval then None
      else if now - r_last_report_at r < from_millis interval then Some r
      else Some (r\<lparr>r_inbound_count := 0, r_applied_count := 0, r_dropped_outbound := 0,
                   r_last_report_at := now\<rparr>))"

text \<open>The part of \<open>run\<close> before the loop: \<open>start\<close>, \<open>load\<close>, \<open>restore_from_snapshot\<close>, apply.\<close>

definition run_start ::
  "('c, 's, 'm) runner_env \<Rightarrow> ('c, 's, 'm) runner \<Rightarrow> (('c, 's, 'm) runner \<times> (communication_error + unit)) option" where
  "run_start E r =
     (case co_start (en_communication E) (cfg_addr (r_config r)) (r_communication r) of
        (c, Inl err) \<Rightarrow> Some (r\<lparr>r_communication := c\<rparr>, Inl err)
      | (c, Inr _) \<Rightarrow>
          let r = r\<lparr>r_communication := c\<rparr> in do {
            r \<leftarrow> (case st_load (en_storage E) (r_storage r) (cfg_id (r_config r)) of
                   Some snap \<Rightarrow> restore_from_snapshot E snap r
                 | None \<Rightarrow> Some r);
            r \<leftarrow> apply_committed_entries E r;
            Some (r, Inr ())
          })"

text \<open>
  One turn of the loop. Its inputs are the two clock readings and what \<open>try_recv\<close> returns; the
  result holds the next tick and how the turn ends.
\<close>

datatype turn_end = Continue | Finished | Failed communication_error

definition run_turn ::
  "('c, 's, 'm) runner_env \<Rightarrow> instant \<Rightarrow> command option \<Rightarrow> instant \<Rightarrow> instant \<Rightarrow> ('c, 's, 'm) runner \<Rightarrow>
     (('c, 's, 'm) runner \<times> instant \<times> turn_end) option" where
  "run_turn E now cmd report_now next_tick r = do {
     (r, next_tick) \<leftarrow>
       (if now \<ge> next_tick then do {
          r \<leftarrow> on_tick E r;
          Some (r, next_tick + from_millis (cfg_tick_ms (r_config r)))
        } else Some (r, next_tick));
     (r, res) \<leftarrow> process_communication E r;
     (case res of
        Inl err \<Rightarrow> Some (r, next_tick, Failed err)
      | Inr _ \<Rightarrow> do {
          (r, go_on) \<leftarrow> (case cmd of Some c \<Rightarrow> process_command E c r | None \<Rightarrow> Some (r, True));
          if \<not> go_on then Some (r, next_tick, Finished)
          else do {
            r \<leftarrow> maybe_report_runtime_metrics report_now r;
            Some (r, next_tick, Continue)
          }
        })
   }"

text \<open>The loop, for a given sequence of inputs; it stops early when a turn ends it.\<close>

fun run_turns ::
  "('c, 's, 'm) runner_env \<Rightarrow> (instant \<times> command option \<times> instant) list \<Rightarrow> instant \<Rightarrow> ('c, 's, 'm) runner \<Rightarrow>
     (('c, 's, 'm) runner \<times> instant \<times> turn_end) option" where
  "run_turns E [] next_tick r = Some (r, next_tick, Continue)"
| "run_turns E ((now, cmd, report_now) # inputs) next_tick r = do {
     (r, next_tick, e) \<leftarrow> run_turn E now cmd report_now next_tick r;
     (case e of Continue \<Rightarrow> run_turns E inputs next_tick r | _ \<Rightarrow> Some (r, next_tick, e))
   }"

end
