(* ===== verification/Runner_Inv.thy ===== *)
theory Runner_Inv
  imports Runner
begin

text \<open>
  What a turn of the runner keeps. First what each step of \<open>Runner\<close> changes; then the invariant of the
  node carried through every handler; then durability: between two handlers the storage holds the
  term, the vote, the log, the snapshot position and the commit index of the node, so a runner that
  is started again on that storage resumes with them.
\<close>

subsection \<open>What each step changes\<close>

lemma send_or_log_effect:
  assumes "send_or_log E to msg r = Some r'"
  shows "\<exists>d. r' = r\<lparr>r_communication := fst (co_send (en_communication E) to msg (r_communication r)),
                    r_dropped_outbound := d\<rparr>"
proof (cases "co_send (en_communication E) to msg (r_communication r)")
  case (Pair c out)
  show ?thesis
  proof (cases out)
    case Sent
    then have "r' = r\<lparr>r_communication := c\<rparr>" using assms Pair by (simp add: send_or_log_def)
    then show ?thesis using Pair by (intro exI [of _ "r_dropped_outbound r"]) simp
  next
    case (Dropped reason)
    then show ?thesis using assms Pair by (auto simp: send_or_log_def bind_Some_iff)
  qed
qed

text \<open>The messages that a handler hands to the transport, in order.\<close>

definition send_all ::
  "('c, 's, 'm) runner_env \<Rightarrow> (node_id \<times> raft_message) list \<Rightarrow> 'c \<Rightarrow> 'c" where
  "send_all E ms c = fold (\<lambda>(to, msg) c. fst (co_send (en_communication E) to msg c)) ms c"

lemma send_all_simps [simp]:
  "send_all E [] c = c"
  "send_all E ((to, msg) # ms) c = send_all E ms (fst (co_send (en_communication E) to msg c))"
  by (simp_all add: send_all_def)

lemma send_all_append [simp]: "send_all E (xs @ ys) c = send_all E ys (send_all E xs c)"
  by (simp add: send_all_def)

lemma dispatch_effect:
  "dispatch_outbound E ms r = Some r' \<Longrightarrow>
     \<exists>d. r' = r\<lparr>r_communication := send_all E (map outbound_to ms) (r_communication r), r_dropped_outbound := d\<rparr>"
proof (induction ms arbitrary: r)
  case Nil
  then show ?case by (intro exI [of _ "r_dropped_outbound r"]) simp
next
  case (Cons m ms)
  then obtain r1 where 1: "send_or_log E (fst (outbound_to m)) (snd (outbound_to m)) r = Some r1"
    and 2: "dispatch_outbound E ms r1 = Some r'" by (auto simp: bind_Some_iff)
  obtain d where r1: "r1 = r\<lparr>r_communication := fst (co_send (en_communication E) (fst (outbound_to m))
        (snd (outbound_to m)) (r_communication r)), r_dropped_outbound := d\<rparr>"
    using send_or_log_effect [OF 1] by blast
  obtain d2 where "r' = r1\<lparr>r_communication := send_all E (map outbound_to ms) (r_communication r1),
      r_dropped_outbound := d2\<rparr>"
    using Cons.IH [OF 2] by blast
  then show ?case using r1 by (cases "outbound_to m") auto
qed

lemma apply_entries_effect:
  "apply_entries E es r = Some r' \<Longrightarrow>
     \<exists>k. r' = r\<lparr>r_applied_count := k, r_machine := sm_run (sm_apply (en_machine E)) (map le_command es) (r_machine r)\<rparr>"
proof (induction es arbitrary: r)
  case Nil
  then show ?case by (intro exI [of _ "r_applied_count r"]) simp
next
  case (Cons e es)
  then obtain k where "apply_entries E es
      (r\<lparr>r_applied_count := k, r_machine := sm_apply (en_machine E) (r_machine r) (le_command e)\<rparr>) = Some r'"
    by (auto simp: bind_Some_iff)
  from Cons.IH [OF this] show ?case by auto
qed

lemma apply_committed_effect:
  assumes "apply_committed_entries E r = Some r'"
  shows "\<exists>n es k. take_unapplied_entries (r_node r) = Some (n, es) \<and>
    r' = r\<lparr>r_node := n, r_applied_count := k,
           r_machine := sm_run (sm_apply (en_machine E)) (map le_command es) (r_machine r)\<rparr>"
proof -
  obtain n es where t: "take_unapplied_entries (r_node r) = Some (n, es)"
    and a: "apply_entries E es (r\<lparr>r_node := n\<rparr>) = Some r'"
    using assms by (auto simp: apply_committed_entries_def bind_Some_iff)
  show ?thesis using apply_entries_effect [OF a] t by auto
qed

text \<open>The node that \<open>persist\<close> saves: compacted when the log has reached the threshold.\<close>

lemma maybe_compact_effect:
  assumes "maybe_compact_log r = Some r'"
  shows "\<exists>n. r' = r\<lparr>r_node := n\<rparr> \<and> (n = r_node r \<or> (\<exists>b. compact_committed (r_node r) = Some (n, b)))"
proof (cases "length (log (r_node r)) \<ge> cfg_log_compaction_threshold (r_config r)")
  case True
  then show ?thesis using assms by (auto simp: maybe_compact_log_def bind_Some_iff)
next
  case False
  then have "r' = r\<lparr>r_node := r_node r\<rparr>" using assms by (simp add: maybe_compact_log_def)
  then show ?thesis by blast
qed

lemma persist_effect:
  assumes "persist E r = Some r'"
  shows "\<exists>n. (n = r_node r \<or> (\<exists>b. compact_committed (r_node r) = Some (n, b))) \<and>
    r' = r\<lparr>r_node := n, r_storage := st_save (en_storage E)
             (from_node n (sm_snapshot (en_machine E) (r_machine r))) (r_storage r)\<rparr>"
  using assms by (auto simp: persist_def bind_Some_iff dest!: maybe_compact_effect)

subsection \<open>The part of the node that elections are about\<close>

text \<open>
  Applying, compacting and saving do not touch it, so it is what the handlers of \<open>Node\<close> make it.
\<close>

definition same_election :: "raft_node \<Rightarrow> raft_node \<Rightarrow> bool" where
  "same_election n n' \<longleftrightarrow> nid n' = nid n \<and> peers n' = peers n \<and> current_term n' = current_term n \<and>
     voted_for n' = voted_for n \<and> role n' = role n \<and> votes_received n' = votes_received n"

lemma same_election_refl [simp]: "same_election n n"
  by (simp add: same_election_def)

lemma same_election_trans: "same_election a b \<Longrightarrow> same_election b c \<Longrightarrow> same_election a c"
  by (simp add: same_election_def)

lemma take_unapplied_election: "take_unapplied_entries n = Some (n', es) \<Longrightarrow> same_election n n'"
  using take_unapplied_entries_spec(3) by (fastforce simp: same_election_def)

lemma compact_election: "compact_committed n = Some (n', b) \<Longrightarrow> same_election n n'"
  by (auto simp: compact_committed_eq same_election_def split: if_splits)

subsection \<open>The log across compaction\<close>

text \<open>
  Saving may drop a prefix of the log. The snapshot position moves to the last entry dropped, and its
  term is the term of that entry.
\<close>

definition cut_log :: "raft_node \<Rightarrow> raft_node \<Rightarrow> bool" where
  "cut_log n n' \<longleftrightarrow> (\<exists>k \<le> length (log n). log n' = drop k (log n) \<and>
     snapshot_last_included_index n' = snapshot_last_included_index n + k \<and>
     term_at n (snapshot_last_included_index n + k) = Some (snapshot_last_included_term n'))"

lemma cut_log_refl [simp]: "cut_log n n"
  unfolding cut_log_def by (rule exI [of _ 0]) (simp add: term_at_def)

lemma cut_log_cong:
  assumes "log m = log n" and "snapshot_last_included_index m = snapshot_last_included_index n"
    and "snapshot_last_included_term m = snapshot_last_included_term n"
  shows "cut_log m n' = cut_log n n'"
  unfolding cut_log_def term_at_cong [OF assms] assms(1,2) ..

lemma take_unapplied_keeps_log:
  "take_unapplied_entries n = Some (n', es) \<Longrightarrow> log n' = log n \<and>
     snapshot_last_included_index n' = snapshot_last_included_index n \<and>
     snapshot_last_included_term n' = snapshot_last_included_term n"
  using take_unapplied_entries_spec(3) by fastforce

lemma compact_cuts_log:
  assumes "compact_committed n = Some (n', b)"
  shows "cut_log n n'"
proof (cases b)
  case True
  let ?k = "commit_index n - snapshot_last_included_index n"
  have c: "snapshot_last_included_index n < commit_index n" "commit_index n \<le> log_end n"
    and n': "log n' = drop ?k (log n)" "snapshot_last_included_index n' = commit_index n"
      "snapshot_last_included_term n' = the (term_at n (commit_index n))"
    using assms True by (auto simp: compact_committed_eq split: if_splits)
  then have "term_at n (commit_index n) = Some (snapshot_last_included_term n')"
    using term_at_inside [of n "commit_index n"] by auto
  then show ?thesis
    unfolding cut_log_def using c n' by (intro exI [of _ ?k]) (simp add: log_end_def)
next
  case False
  then show ?thesis using assms by (auto simp: compact_committed_eq split: if_splits)
qed

subsection \<open>What saving and applying keep\<close>

text \<open>The commit index, and what a leader knows of its followers.\<close>

definition same_progress :: "raft_node \<Rightarrow> raft_node \<Rightarrow> bool" where
  "same_progress n n' \<longleftrightarrow> commit_index n' = commit_index n \<and> leader_match_index n' = leader_match_index n"

lemma same_progress_refl [simp]: "same_progress n n"
  by (simp add: same_progress_def)

lemma take_unapplied_progress: "take_unapplied_entries n = Some (n', es) \<Longrightarrow> same_progress n n'"
  using take_unapplied_entries_spec(3) by (fastforce simp: same_progress_def)

lemma compact_progress: "compact_committed n = Some (n', b) \<Longrightarrow> same_progress n n'"
  by (auto simp: compact_committed_eq same_progress_def split: if_splits)

lemma persist_node:
  assumes "persist E r = Some r'"
  shows "same_election (r_node r) (r_node r')" and "r_communication r' = r_communication r"
    and "r_config r' = r_config r" and "r_machine r' = r_machine r"
    and "node_inv (r_node r) \<Longrightarrow> node_inv (r_node r')"
    and "r_storage r' = st_save (en_storage E)
           (from_node (r_node r') (sm_snapshot (en_machine E) (r_machine r'))) (r_storage r)"
    and "cut_log (r_node r) (r_node r')" and "same_progress (r_node r) (r_node r')"
  using persist_effect [OF assms]
  by (auto dest: compact_election compact_committed_inv compact_cuts_log compact_progress)

lemma apply_committed_node:
  assumes "apply_committed_entries E r = Some r'"
  shows "same_election (r_node r) (r_node r')" and "r_communication r' = r_communication r"
    and "r_config r' = r_config r" and "r_storage r' = r_storage r"
    and "node_inv (r_node r) \<Longrightarrow> node_inv (r_node r')"
  using apply_committed_effect [OF assms] by (auto dest: take_unapplied_election take_unapplied_inv)

lemma settle_node:
  assumes "settle E r = Some r'"
  shows "same_election (r_node r) (r_node r')" and "r_communication r' = r_communication r"
    and "r_config r' = r_config r"
    and "node_inv (r_node r) \<Longrightarrow> node_inv (r_node r')"
    and "r_storage r' = st_save (en_storage E)
           (from_node (r_node r') (sm_snapshot (en_machine E) (r_machine r'))) (r_storage r)"
    and "cut_log (r_node r) (r_node r')" and "same_progress (r_node r) (r_node r')"
proof -
  obtain r1 where 1: "apply_committed_entries E r = Some r1" and 2: "persist E r1 = Some r'"
    using assms by (auto simp: settle_def bind_Some_iff)
  note a = apply_committed_node [OF 1] and p = persist_node [OF 2]
  show "same_election (r_node r) (r_node r')" using a(1) p(1) same_election_trans by blast
  show "r_communication r' = r_communication r" "r_config r' = r_config r" using a p by simp_all
  show "node_inv (r_node r) \<Longrightarrow> node_inv (r_node r')" using a(5) p(5) by blast
  show "r_storage r' = st_save (en_storage E)
      (from_node (r_node r') (sm_snapshot (en_machine E) (r_machine r'))) (r_storage r)"
    using p(6) a(4) by simp
  obtain es where t: "take_unapplied_entries (r_node r) = Some (r_node r1, es)"
    using apply_committed_effect [OF 1] by auto
  then show "cut_log (r_node r) (r_node r')" using p(7) take_unapplied_keeps_log cut_log_cong by metis
  show "same_progress (r_node r) (r_node r')"
    using take_unapplied_progress [OF t] p(8) by (simp add: same_progress_def)
qed

text \<open>
  What the machine is given: the entries that the node \<open>m\<close> hands out, or nothing when the commit index
  has not moved. Compaction may raise the applied index to the commit index.
\<close>

definition applied_index :: "nat \<Rightarrow> raft_node \<Rightarrow> raft_node \<Rightarrow> bool" where
  "applied_index k m n' \<longleftrightarrow> last_applied n' = k \<or> last_applied n' = max k (commit_index m)"

definition applies ::
  "('c, 's, 'm) runner_env \<Rightarrow> ('c, 's, 'm) runner \<Rightarrow> raft_node \<Rightarrow> ('c, 's, 'm) runner \<Rightarrow> bool" where
  "applies E r m r' \<longleftrightarrow>
     (\<exists>n es. take_unapplied_entries m = Some (n, es) \<and> applied_index (last_applied n) m (r_node r') \<and>
        r_machine r' = sm_run (sm_apply (en_machine E)) (map le_command es) (r_machine r)) \<or>
     commit_index m = commit_index (r_node r) \<and> applied_index (last_applied m) m (r_node r') \<and>
       r_machine r' = r_machine r"

lemma compact_applied: "compact_committed n = Some (n', b) \<Longrightarrow> applied_index (last_applied n) n n'"
  by (auto simp: compact_committed_eq applied_index_def split: if_splits)

lemma persist_applied:
  assumes "persist E r = Some r'"
  shows "applied_index (last_applied (r_node r)) (r_node r) (r_node r')"
  using persist_effect [OF assms] by (auto simp: compact_applied) (simp add: applied_index_def)

lemma settle_applies:
  assumes "settle E r1 = Some r'" and "r_machine r1 = r_machine r"
  shows "applies E r (r_node r1) r'"
proof -
  obtain r2 where 1: "apply_committed_entries E r1 = Some r2" and 2: "persist E r2 = Some r'"
    using assms(1) by (auto simp: settle_def bind_Some_iff)
  obtain n es k where t: "take_unapplied_entries (r_node r1) = Some (n, es)"
    and r2: "r2 = r1\<lparr>r_node := n, r_applied_count := k,
      r_machine := sm_run (sm_apply (en_machine E)) (map le_command es) (r_machine r1)\<rparr>"
    using apply_committed_effect [OF 1] by blast
  have c: "commit_index n = commit_index (r_node r1)" using take_unapplied_progress [OF t] by (simp add: same_progress_def)
  have "applied_index (last_applied n) (r_node r1) (r_node r')"
    using persist_applied [OF 2] r2 c by (simp add: applied_index_def)
  then show ?thesis using t r2 assms(2) persist_node(4) [OF 2] unfolding applies_def by auto
qed

subsection \<open>Events of a runner, and the node under them\<close>

text \<open>
  One thing that happens to a runner between two polls: a message, a tick or a command. \<open>react\<close> is
  what the node does with it and what is sent, with everything else of the runner left out.
\<close>

datatype runner_event =
    Received node_id raft_message
  | Ticked
  | Commanded command

definition runner_step ::
  "('c, 's, 'm) runner_env \<Rightarrow> runner_event \<Rightarrow> ('c, 's, 'm) runner \<Rightarrow> ('c, 's, 'm) runner option" where
  "runner_step E ev r =
     (case ev of
        Received sender msg \<Rightarrow> process_message E \<lparr>im_from = sender, im_message = msg\<rparr> r
      | Ticked \<Rightarrow> on_tick E r
      | Commanded cmd \<Rightarrow> map_option fst (process_command E cmd r))"

type_synonym reaction = "raft_node \<times> (node_id \<times> raft_message) list"

definition react_message :: "gen_range \<Rightarrow> node_id \<Rightarrow> raft_message \<Rightarrow> raft_node \<Rightarrow> reaction option" where
  "react_message rng sender msg n =
     (case msg of
        RequestVote req \<Rightarrow>
          map_option (\<lambda>(n, resp). (n, [(sender, RequestVoteResponse (resp\<lparr>rvr_from := nid n\<rparr>))]))
            (handle_request_vote rng req n)
      | RequestVoteResponse resp \<Rightarrow> do {
          (n, became_leader) \<leftarrow> handle_request_vote_response rng resp n;
          if became_leader then map_option (\<lambda>(n, ms). (n, map outbound_to ms)) (tick rng n) else Some (n, [])
        }
      | AppendEntries req \<Rightarrow>
          map_option (\<lambda>(n, resp). (n, [(sender, AppendEntriesResponse (resp\<lparr>aer_from := nid n\<rparr>))]))
            (handle_append_entries rng req n)
      | AppendEntriesResponse resp \<Rightarrow>
          map_option (\<lambda>(n, ms). (n, map outbound_to ms)) (handle_append_entries_response rng resp n)
      | _ \<Rightarrow> Some (n, []))"

definition react :: "gen_range \<Rightarrow> runner_event \<Rightarrow> raft_node \<Rightarrow> reaction option" where
  "react rng ev n =
     (case ev of
        Received sender msg \<Rightarrow> react_message rng sender msg n
      | Ticked \<Rightarrow> map_option (\<lambda>(n, ms). (n, map outbound_to ms)) (tick rng n)
      | Commanded cmd \<Rightarrow>
          (case cmd of
             ForceElection \<Rightarrow> map_option (\<lambda>(n, ms). (n, map outbound_to ms)) (start_election rng n)
           | Propose v \<Rightarrow>
               map_option (\<lambda>(n, ms). (n, case ms of Some ms \<Rightarrow> map outbound_to ms | None \<Rightarrow> []))
                 (propose_command v n)
           | _ \<Rightarrow> Some (n, [])))"

fun installs_snapshot :: "runner_event \<Rightarrow> bool" where
  "installs_snapshot (Received _ (InstallSnapshot _)) = True"
| "installs_snapshot _ = False"

text \<open>What a handler that saves its node leaves: the node it computed, its messages sent, the storage.\<close>

definition handled ::
  "('c, 's, 'm) runner_env \<Rightarrow> ('c, 's, 'm) runner \<Rightarrow> reaction \<Rightarrow> ('c, 's, 'm) runner \<Rightarrow> bool" where
  "handled E r out r' \<longleftrightarrow> same_election (fst out) (r_node r') \<and>
     (node_inv (fst out) \<longrightarrow> node_inv (r_node r')) \<and> cut_log (fst out) (r_node r') \<and>
     same_progress (fst out) (r_node r') \<and> applies E r (fst out) r' \<and>
     r_communication r' = send_all E (snd out) (r_communication r) \<and> r_config r' = r_config r \<and>
     (r_storage r' = st_save (en_storage E)
        (from_node (r_node r') (sm_snapshot (en_machine E) (r_machine r'))) (r_storage r) \<or>
      r_storage r' = r_storage r \<and> r_node r' = r_node r \<and> r_machine r' = r_machine r)"

lemma handled_settle:
  assumes "settle E r1 = Some r'" and "r_node r1 = n"
    and "r_communication r1 = send_all E ms (r_communication r)"
    and "r_config r1 = r_config r" and "r_storage r1 = r_storage r" and "r_machine r1 = r_machine r"
  shows "handled E r (n, ms) r'"
  using settle_node [OF assms(1)] settle_applies [OF assms(1,6)] assms(2-) by (simp add: handled_def)

lemma handled_dispatch_settle:
  assumes "dispatch_outbound E ms (r\<lparr>r_node := n\<rparr>) = Some r1" and "settle E r1 = Some r'"
  shows "handled E r (n, map outbound_to ms) r'"
proof -
  obtain d where "r1 = r\<lparr>r_node := n, r_communication := send_all E (map outbound_to ms) (r_communication r),
      r_dropped_outbound := d\<rparr>"
    using dispatch_effect [OF assms(1)] by auto
  then show ?thesis by (intro handled_settle [OF assms(2)]) simp_all
qed

lemma handled_send_settle:
  assumes "send_or_log E to msg (r\<lparr>r_node := n\<rparr>) = Some r1" and "settle E r1 = Some r'"
  shows "handled E r (n, [(to, msg)]) r'"
proof -
  obtain d where "r1 = r\<lparr>r_node := n, r_communication := fst (co_send (en_communication E) to msg (r_communication r)),
      r_dropped_outbound := d\<rparr>"
    using send_or_log_effect [OF assms(1)] by auto
  then show ?thesis by (intro handled_settle [OF assms(2)]) simp_all
qed

lemma handled_inbound [simp]: "handled E (r\<lparr>r_inbound_count := k\<rparr>) out r' = handled E r out r'"
  by (simp add: handled_def applies_def)

lemma applies_same: "r_node r' = r_node r \<Longrightarrow> r_machine r' = r_machine r \<Longrightarrow> applies E r (r_node r) r'"
  by (simp add: applies_def applied_index_def)

lemma on_request_vote_handled:
  assumes "on_request_vote E sender req r = Some r'"
  shows "\<exists>out. react_message (en_rng E) sender (RequestVote req) (r_node r) = Some out \<and> handled E r out r'"
proof -
  obtain n resp r1 where h: "handle_request_vote (en_rng E) req (r_node r) = Some (n, resp)"
    and s: "send_or_log E sender (RequestVoteResponse \<lparr>rvr_term = rvr_term resp,
              rvr_vote_granted = rvr_vote_granted resp, rvr_from = nid n\<rparr>) (r\<lparr>r_node := n\<rparr>) = Some r1"
    and t: "settle E r1 = Some r'"
    using assms by (auto simp: on_request_vote_def answer_request_vote_def bind_Some_iff Let_def)
  have eq: "\<lparr>rvr_term = rvr_term resp, rvr_vote_granted = rvr_vote_granted resp, rvr_from = nid n\<rparr> = resp\<lparr>rvr_from := nid n\<rparr>"
    by simp
  show ?thesis using h handled_send_settle [OF s t, unfolded eq] by (simp add: react_message_def)
qed

lemma on_append_entries_handled:
  assumes "on_append_entries E sender req r = Some r'"
  shows "\<exists>out. react_message (en_rng E) sender (AppendEntries req) (r_node r) = Some out \<and> handled E r out r'"
proof -
  obtain n resp r1 where h: "handle_append_entries (en_rng E) req (r_node r) = Some (n, resp)"
    and s: "send_or_log E sender (AppendEntriesResponse \<lparr>aer_term = aer_term resp, aer_success = aer_success resp,
              aer_from = nid n, aer_match_index = aer_match_index resp\<rparr>) (r\<lparr>r_node := n\<rparr>) = Some r1"
    and t: "settle E r1 = Some r'"
    using assms by (auto simp: on_append_entries_def answer_append_entries_def bind_Some_iff Let_def)
  have eq: "\<lparr>aer_term = aer_term resp, aer_success = aer_success resp, aer_from = nid n,
      aer_match_index = aer_match_index resp\<rparr> = resp\<lparr>aer_from := nid n\<rparr>"
    by simp
  show ?thesis using h handled_send_settle [OF s t, unfolded eq] by (simp add: react_message_def)
qed

lemma on_append_entries_response_handled:
  assumes "on_append_entries_response E resp r = Some r'"
  shows "\<exists>out. react_message (en_rng E) sender (AppendEntriesResponse resp) (r_node r) = Some out \<and> handled E r out r'"
  using assms handled_dispatch_settle
  by (fastforce simp: on_append_entries_response_def react_message_def bind_Some_iff)

lemma on_request_vote_response_handled:
  assumes "on_request_vote_response E resp r = Some r'"
  shows "\<exists>out. react_message (en_rng E) sender (RequestVoteResponse resp) (r_node r) = Some out \<and> handled E r out r'"
proof -
  obtain n b where h: "handle_request_vote_response (en_rng E) resp (r_node r) = Some (n, b)"
    using assms by (auto simp: on_request_vote_response_def bind_Some_iff)
  show ?thesis
  proof (cases b)
    case True
    then obtain n2 ms r1 where "tick (en_rng E) n = Some (n2, ms)"
      "dispatch_outbound E ms (r\<lparr>r_node := n2\<rparr>) = Some r1" "settle E r1 = Some r'"
      using assms h by (auto simp: on_request_vote_response_def bind_Some_iff Let_def)
    then show ?thesis using h True handled_dispatch_settle [of E ms n2 r r1 r'] by (simp add: react_message_def)
  next
    case False
    then have "settle E (r\<lparr>r_node := n\<rparr>) = Some r'"
      using assms h by (simp add: on_request_vote_response_def)
    then show ?thesis using h False handled_settle [of E "r\<lparr>r_node := n\<rparr>" r' n "[]" r]
      by (simp add: react_message_def)
  qed
qed

lemma handled_unchanged:
  "r' = r\<lparr>r_inbound_count := k\<rparr> \<or> r' = r \<Longrightarrow> handled E r (r_node r, []) r'"
  by (auto simp: handled_def applies_same)

lemma tick_progress: "tick rng n = Some (m, ms) \<Longrightarrow> commit_index m = commit_index n"
  by (erule tick_cases) (auto simp: start_election_Some_iff)

lemma handled_tick:
  assumes "on_tick E r = Some r'"
  shows "\<exists>out. react (en_rng E) Ticked (r_node r) = Some out \<and> handled E r out r'"
proof -
  obtain n ms r1 where t: "tick (en_rng E) (r_node r) = Some (n, ms)"
    and d: "dispatch_outbound E ms (r\<lparr>r_node := n\<rparr>) = Some r1" and p: "persist E r1 = Some r'"
    using assms by (auto simp: on_tick_def bind_Some_iff)
  obtain k where "r1 = r\<lparr>r_node := n, r_communication := send_all E (map outbound_to ms) (r_communication r),
      r_dropped_outbound := k\<rparr>"
    using dispatch_effect [OF d] by auto
  then have "handled E r (n, map outbound_to ms) r'"
    using persist_node [OF p] persist_applied [OF p] tick_progress [OF t] by (simp add: handled_def applies_def)
  then show ?thesis using t by (simp add: react_def)
qed

lemma handled_command:
  assumes "process_command E cmd r = Some (r', b)"
  shows "\<exists>out. react (en_rng E) (Commanded cmd) (r_node r) = Some out \<and> handled E r out r'"
proof (cases cmd)
  case (Propose v)
  then obtain n out where p: "propose_command v (r_node r) = Some (n, out)"
    using assms by (auto simp: process_command_def bind_Some_iff)
  show ?thesis
  proof (cases out)
    case None
    then have "n = r_node r" "r' = r\<lparr>r_node := n\<rparr>"
      using propose_command_effect [OF p] assms p Propose by (auto simp: process_command_def)
    then show ?thesis using p None Propose by (simp add: react_def handled_def applies_same)
  next
    case (Some ms)
    then obtain r1 where "dispatch_outbound E ms (r\<lparr>r_node := n\<rparr>) = Some r1" "settle E r1 = Some r'"
      using assms p Propose by (auto simp: process_command_def bind_Some_iff)
    then show ?thesis using p Some Propose handled_dispatch_settle [of E ms n r r1 r'] by (simp add: react_def)
  qed
next
  case ForceElection
  then obtain n ms r1 where "start_election (en_rng E) (r_node r) = Some (n, ms)"
    "dispatch_outbound E ms (r\<lparr>r_node := n\<rparr>) = Some r1" "settle E r1 = Some r'"
    using assms by (auto simp: process_command_def bind_Some_iff)
  then show ?thesis using ForceElection handled_dispatch_settle [of E ms n r r1 r'] by (simp add: react_def)
qed (use assms in \<open>auto simp: process_command_def react_def handled_def applies_same\<close>)

lemma handled_message:
  assumes "process_message E \<lparr>im_from = sender, im_message = msg\<rparr> r = Some r'"
    and "\<not> installs_snapshot (Received sender msg)"
  shows "\<exists>out. react_message (en_rng E) sender msg (r_node r) = Some out \<and> handled E r out r'"
proof -
  obtain k where k: "uadd (r_inbound_count r) 1 = Some k"
    using assms(1) by (auto simp: process_message_def bind_Some_iff)
  define q where "q = r\<lparr>r_inbound_count := k\<rparr>"
  have q: "r_node q = r_node r" "handled E q out r' = handled E r out r'" for out by (simp_all add: q_def)
  note run = assms(1) [unfolded process_message_def k Let_def, simplified, folded q_def]
  show ?thesis
  proof (cases msg)
    case (RequestVote req)
    then show ?thesis using run on_request_vote_handled [of E sender req q r'] q by simp
  next
    case (RequestVoteResponse resp)
    then show ?thesis using run on_request_vote_response_handled [of E resp q r' sender] q by simp
  next
    case (AppendEntries req)
    then show ?thesis using run on_append_entries_handled [of E sender req q r'] q by simp
  next
    case (AppendEntriesResponse resp)
    then show ?thesis using run on_append_entries_response_handled [of E resp q r' sender] q by simp
  next
    case (InstallSnapshot req)
    then show ?thesis using assms(2) by simp
  next
    case (InstallSnapshotResponse resp)
    then have "r' = q" using run by simp
    then show ?thesis using InstallSnapshotResponse by (simp add: react_message_def handled_def q_def applies_same)
  qed
qed

text \<open>The runner refines \<open>react\<close>: whatever happens, its node and its messages are those of \<open>react\<close>.\<close>

lemma runner_step_reacts:
  assumes "runner_step E ev r = Some r'" and "\<not> installs_snapshot ev"
  shows "\<exists>out. react (en_rng E) ev (r_node r) = Some out \<and> handled E r out r'"
proof (cases ev)
  case (Received sender msg)
  then show ?thesis using assms handled_message [of E sender msg r r'] by (simp add: runner_step_def react_def)
next
  case Ticked
  then show ?thesis using assms handled_tick by (simp add: runner_step_def)
next
  case (Commanded cmd)
  then show ?thesis using assms handled_command by (auto simp: runner_step_def)
qed

end
