(* ===== verification/Runner_Loop.thy ===== *)
theory Runner_Loop
  imports Runner_Inv
begin

text \<open>
  Invariants of the main loop of the runner. A predicate that every event keeps, and that does not
  depend on the transport or on the counters of the metrics, is kept by emptying the transport, by a
  turn of the loop and by the loop itself.
\<close>

lemma im_eta: "\<lparr>im_from = im_from msg, im_message = im_message msg\<rparr> = msg"
  by simp

lemma process_communication_rule:
  fixes r r' :: "('c, 's, 'm) runner"
  assumes run: "process_communication E r = Some (r', res)" and P: "P r"
    and comm: "\<And>r c. P r \<Longrightarrow> P (r\<lparr>r_communication := c\<rparr>)"
    and step: "\<And>ev r r'. P r \<Longrightarrow> runner_step E ev r = Some r' \<Longrightarrow> P r'"
  shows "P r'"
proof -
  have "E' = E \<longrightarrow> P r \<longrightarrow> P (fst y)" if "process_communication E' r = Some y"
    for E' :: "('c, 's, 'm) runner_env" and r :: "('c, 's, 'm) runner" and y
  proof (rule process_communication.raw_induct [OF _ that, where P = "\<lambda>E' r y. E' = E \<longrightarrow> P r \<longrightarrow> P (fst y)"])
    fix pc :: "('c, 's, 'm) runner_env \<Rightarrow> ('c, 's, 'm) runner \<Rightarrow>
      (('c, 's, 'm) runner \<times> (communication_error + unit)) option"
    fix E' :: "('c, 's, 'm) runner_env" and r :: "('c, 's, 'm) runner" and y
    assume IH: "\<And>E' r y. pc E' r = Some y \<Longrightarrow> E' = E \<longrightarrow> P r \<longrightarrow> P (fst y)"
      and run: "(case co_poll (en_communication E') (r_communication r) of
        (c, Inl err) \<Rightarrow> Some (r\<lparr>r_communication := c\<rparr>, Inl err)
      | (c, Inr None) \<Rightarrow> Some (r\<lparr>r_communication := c\<rparr>, Inr ())
      | (c, Inr (Some msg)) \<Rightarrow> Option.bind (process_message E' msg (r\<lparr>r_communication := c\<rparr>)) (pc E')) = Some y"
    show "E' = E \<longrightarrow> P r \<longrightarrow> P (fst y)"
    proof (intro impI)
      assume E: "E' = E" and p: "P r"
      obtain c res where poll: "co_poll (en_communication E') (r_communication r) = (c, res)" by fastforce
      consider (stop) "fst y = r\<lparr>r_communication := c\<rparr>"
        | (more) msg r1 where "process_message E' msg (r\<lparr>r_communication := c\<rparr>) = Some r1" "pc E' r1 = Some y"
        using run poll by (auto simp: bind_Some_iff split: sum.splits option.splits)
      then show "P (fst y)"
      proof cases
        case stop
        then show ?thesis using comm [OF p] by simp
      next
        case (more msg r1)
        have "runner_step E (Received (im_from msg) (im_message msg)) (r\<lparr>r_communication := c\<rparr>) = Some r1"
          unfolding runner_step_def runner_event.case im_eta using more(1) E by simp
        from step [OF comm [OF p] this] show ?thesis using IH [OF more(2)] E by blast
      qed
    qed
  qed
  from this [OF run] show ?thesis using P by simp
qed

text \<open>The parts of one turn: the tick, the messages, the command, the metrics.\<close>

lemma run_turn_cases:
  assumes "run_turn E now cmd report_now next_tick r = Some (r', next_tick', e)"
  obtains r1 r2 res r3 where
    "r1 = r \<or> runner_step E Ticked r = Some r1"
    and "process_communication E r1 = Some (r2, res)"
    and "r3 = r2 \<or> (\<exists>c. cmd = Some c \<and> runner_step E (Commanded c) r2 = Some r3)"
    and "r' = r3 \<or> maybe_report_runtime_metrics report_now r3 = Some r'"
proof -
  obtain r1 t1 where 1: "(if now \<ge> next_tick then do {
          r \<leftarrow> on_tick E r;
          Some (r, next_tick + from_millis (cfg_tick_ms (r_config r)))
        } else Some (r, next_tick)) = Some (r1, t1)"
    using assms by (fastforce simp: run_turn_def bind_Some_iff)
  then have tick: "r1 = r \<or> runner_step E Ticked r = Some r1"
    by (auto simp: runner_step_def bind_Some_iff split: if_splits)
  obtain r2 res where 2: "process_communication E r1 = Some (r2, res)"
    using assms 1 by (fastforce simp: run_turn_def bind_Some_iff)
  show thesis
  proof (cases res)
    case (Inl err)
    then have "r' = r2" using assms 1 2 by (simp add: run_turn_def)
    then have e: "r' = r2 \<or> maybe_report_runtime_metrics report_now r2 = Some r'" by simp
    show ?thesis by (rule that [OF tick 2 _ e]) simp
  next
    case (Inr u)
    then obtain r3 go_on where 3: "(case cmd of Some c \<Rightarrow> process_command E c r2 | None \<Rightarrow> Some (r2, True)) = Some (r3, go_on)"
      and 4: "r' = r3 \<or> maybe_report_runtime_metrics report_now r3 = Some r'"
      using assms 1 2 by (auto simp: run_turn_def bind_Some_iff split: if_splits)
    have c: "r3 = r2 \<or> (\<exists>c. cmd = Some c \<and> runner_step E (Commanded c) r2 = Some r3)"
      using 3 by (cases cmd) (auto simp: runner_step_def)
    show ?thesis by (rule that [OF tick 2 c 4])
  qed
qed

lemma metrics_effect:
  "maybe_report_runtime_metrics now r = Some r' \<Longrightarrow>
     r' = r \<or> r' = r\<lparr>r_inbound_count := 0, r_applied_count := 0, r_dropped_outbound := 0, r_last_report_at := now\<rparr>"
  by (auto simp: maybe_report_runtime_metrics_def Let_def split: if_splits)

lemma run_turn_rule:
  assumes "run_turn E now cmd report_now next_tick r = Some (r', next_tick', e)" and "P r"
    and comm: "\<And>r c. P r \<Longrightarrow> P (r\<lparr>r_communication := c\<rparr>)"
    and step: "\<And>ev r r'. P r \<Longrightarrow> runner_step E ev r = Some r' \<Longrightarrow> P r'"
    and metrics: "\<And>r t. P r \<Longrightarrow>
      P (r\<lparr>r_inbound_count := 0, r_applied_count := 0, r_dropped_outbound := 0, r_last_report_at := t\<rparr>)"
  shows "P r'"
proof (rule run_turn_cases [OF assms(1)])
  fix r1 r2 res r3
  assume a: "r1 = r \<or> runner_step E Ticked r = Some r1" "process_communication E r1 = Some (r2, res)"
    "r3 = r2 \<or> (\<exists>c. cmd = Some c \<and> runner_step E (Commanded c) r2 = Some r3)"
    "r' = r3 \<or> maybe_report_runtime_metrics report_now r3 = Some r'"
  have "P r1" using a(1) \<open>P r\<close> step by blast
  then have "P r2" by (rule process_communication_rule [of E r1 r2 res P, OF a(2) _ comm step])
  then have p3: "P r3" using a(3) step by blast
  from a(4) show "P r'"
  proof
    assume "maybe_report_runtime_metrics report_now r3 = Some r'"
    then show ?thesis using metrics_effect p3 metrics [OF p3] by metis
  qed (use p3 in simp)
qed

lemma run_turns_rule:
  assumes comm: "\<And>r c. P r \<Longrightarrow> P (r\<lparr>r_communication := c\<rparr>)"
    and step: "\<And>ev r r'. P r \<Longrightarrow> runner_step E ev r = Some r' \<Longrightarrow> P r'"
    and metrics: "\<And>r t. P r \<Longrightarrow>
      P (r\<lparr>r_inbound_count := 0, r_applied_count := 0, r_dropped_outbound := 0, r_last_report_at := t\<rparr>)"
  shows "run_turns E inputs next_tick r = Some (r', next_tick', e) \<Longrightarrow> P r \<Longrightarrow> P r'"
proof (induction inputs arbitrary: next_tick r)
  case (Cons i inputs)
  obtain now cmd report_now where i: "i = (now, cmd, report_now)" by (cases i) auto
  obtain r1 t1 e1 where t: "run_turn E now cmd report_now next_tick r = Some (r1, t1, e1)"
    and rest: "(case e1 of Continue \<Rightarrow> run_turns E inputs t1 r1 | _ \<Rightarrow> Some (r1, t1, e1)) = Some (r', next_tick', e)"
    using Cons.prems(1) i by (auto simp: bind_Some_iff)
  have "P r1" by (rule run_turn_rule [of _ _ _ _ _ _ _ _ _ P, OF t Cons.prems(2) comm step metrics])
  then show ?case using rest Cons.IH by (cases e1) auto
qed simp

end
