(* ===== verification/File_Storage.thy ===== *)
theory File_Storage
  imports Storage Rust_Str
begin

text \<open>
  The file storage, \<open>raftust-core-storage-file/src/lib.rs\<close>: one JSON file per node, written to a
  temporary file, synced and renamed over the previous one. The disk is the state that \<open>std::fs\<close>
  works on: directories, files with their bytes, and the calls that fail. \<open>serde_json\<close> is the
  parameter \<open>snapshot_json\<close>.
\<close>

subsection \<open>The disk\<close>

type_synonym path = "str list"

text \<open>
  The call of a \<open>save\<close> that fails, with the operating system's message; a write may fail after some
  of its bytes. A crash of the process inside \<open>save\<close> leaves the disk that the failing call leaves.
\<close>

datatype io_fault =
    No_Fault
  | Fail_Mkdir str
  | Fail_Create str
  | Fail_Write nat str
  | Fail_Sync str
  | Fail_Rename str

record disk =
  fd_dirs :: "path list"
  fd_files :: "(path, bytes) hash_map"
  fd_unreadable :: "path list"
  fd_faults :: "io_fault list"

text \<open>The fault of the next save, and the disk with that fault behind it.\<close>

definition next_fault :: "disk \<Rightarrow> io_fault" where
  "next_fault d = (case fd_faults d of [] \<Rightarrow> No_Fault | f # _ \<Rightarrow> f)"

definition past_fault :: "disk \<Rightarrow> disk" where
  "past_fault d = d\<lparr>fd_faults := drop 1 (fd_faults d)\<rparr>"

definition hm_remove :: "'k \<Rightarrow> ('k, 'v) hash_map \<Rightarrow> ('k, 'v) hash_map" where
  "hm_remove k m = filter (\<lambda>e. fst e \<noteq> k) m"

definition prefixes_of :: "path \<Rightarrow> path list" where
  "prefixes_of p = map (\<lambda>k. take k p) [0..<Suc (length p)]"

definition fs_create_dir_all :: "io_fault \<Rightarrow> path \<Rightarrow> disk \<Rightarrow> disk \<times> (str + unit)" where
  "fs_create_dir_all flt p d =
     (case flt of
        Fail_Mkdir e \<Rightarrow> (d, Inl e)
      | _ \<Rightarrow>
          if \<exists>q \<in> set (prefixes_of p). hm_get (fd_files d) q \<noteq> None then (d, Inl (lit ''Not a directory''))
          else (d\<lparr>fd_dirs := prefixes_of p @ fd_dirs d\<rparr>, Inr ()))"

definition fs_create :: "io_fault \<Rightarrow> path \<Rightarrow> disk \<Rightarrow> disk \<times> (str + unit)" where
  "fs_create flt p d =
     (case flt of
        Fail_Create e \<Rightarrow> (d, Inl e)
      | _ \<Rightarrow>
          if p \<in> set (fd_dirs d) then (d, Inl (lit ''Is a directory''))
          else if butlast p \<notin> set (fd_dirs d) then (d, Inl (lit ''No such file or directory''))
          else (d\<lparr>fd_files := hm_insert p [] (fd_files d)\<rparr>, Inr ()))"

definition fs_write_all :: "io_fault \<Rightarrow> path \<Rightarrow> bytes \<Rightarrow> disk \<Rightarrow> disk \<times> (str + unit)" where
  "fs_write_all flt p b d =
     (let old = (case hm_get (fd_files d) p of Some c \<Rightarrow> c | None \<Rightarrow> []) in
      case flt of
        Fail_Write k e \<Rightarrow> (d\<lparr>fd_files := hm_insert p (old @ take k b) (fd_files d)\<rparr>, Inl e)
      | _ \<Rightarrow> (d\<lparr>fd_files := hm_insert p (old @ b) (fd_files d)\<rparr>, Inr ()))"

definition fs_sync_all :: "io_fault \<Rightarrow> path \<Rightarrow> disk \<Rightarrow> disk \<times> (str + unit)" where
  "fs_sync_all flt p d = (case flt of Fail_Sync e \<Rightarrow> (d, Inl e) | _ \<Rightarrow> (d, Inr ()))"

definition fs_rename :: "io_fault \<Rightarrow> path \<Rightarrow> path \<Rightarrow> disk \<Rightarrow> disk \<times> (str + unit)" where
  "fs_rename flt p q d =
     (case flt of
        Fail_Rename e \<Rightarrow> (d, Inl e)
      | _ \<Rightarrow>
          if q \<in> set (fd_dirs d) then (d, Inl (lit ''Is a directory''))
          else case hm_get (fd_files d) p of
            None \<Rightarrow> (d, Inl (lit ''No such file or directory''))
          | Some c \<Rightarrow> (d\<lparr>fd_files := hm_insert q c (hm_remove p (fd_files d))\<rparr>, Inr ()))"

definition fs_read_to_string :: "path \<Rightarrow> disk \<Rightarrow> str option" where
  "fs_read_to_string p d =
     (if p \<in> set (fd_unreadable d) then None else Option.bind (hm_get (fd_files d) p) from_utf8)"

text \<open>The \<open>?\<close> operator on calls that change the disk: an error leaves it as the call left it.\<close>

definition io_then :: "disk \<times> (str + 'a) \<Rightarrow> (disk \<Rightarrow> 'a \<Rightarrow> disk \<times> (str + 'b)) \<Rightarrow> disk \<times> (str + 'b)" where
  "io_then r f = (case r of (d, Inl e) \<Rightarrow> (d, Inl e) | (d, Inr x) \<Rightarrow> f d x)"

lemma io_then_simps [simp]:
  "io_then (d, Inl e) f = (d, Inl e)"
  "io_then (d, Inr x) f = f d x"
  by (simp_all add: io_then_def)

subsection \<open>The persisted record and its JSON\<close>

record persisted_log_entry =
  ple_term :: term_no
  ple_command :: str

record persisted_snapshot =
  ps_node_id :: node_id
  ps_current_term :: term_no
  ps_voted_for :: "node_id option"
  ps_log :: "persisted_log_entry list"
  ps_commit_index :: nat
  ps_last_included_index :: nat
  ps_last_included_term :: term_no
  ps_state_machine_snapshot :: bytes

definition persisted_of_snapshot :: "storage_snapshot \<Rightarrow> persisted_snapshot" where
  "persisted_of_snapshot s =
     \<lparr>ps_node_id = ss_node_id s, ps_current_term = ss_current_term s, ps_voted_for = ss_voted_for s,
      ps_log = map (\<lambda>e. \<lparr>ple_term = le_term e, ple_command = le_command e\<rparr>) (ss_log s),
      ps_commit_index = ss_commit_index s, ps_last_included_index = ss_last_included_index s,
      ps_last_included_term = ss_last_included_term s,
      ps_state_machine_snapshot = ss_state_machine_snapshot s\<rparr>"

definition snapshot_of_persisted :: "persisted_snapshot \<Rightarrow> storage_snapshot" where
  "snapshot_of_persisted p =
     \<lparr>ss_node_id = ps_node_id p, ss_current_term = ps_current_term p, ss_voted_for = ps_voted_for p,
      ss_log = map (\<lambda>e. \<lparr>le_term = ple_term e, le_command = ple_command e\<rparr>) (ps_log p),
      ss_commit_index = ps_commit_index p, ss_last_included_index = ps_last_included_index p,
      ss_last_included_term = ps_last_included_term p,
      ss_state_machine_snapshot = ps_state_machine_snapshot p\<rparr>"

lemma snapshot_of_persisted_of [simp]: "snapshot_of_persisted (persisted_of_snapshot s) = s"
  by (simp add: snapshot_of_persisted_def persisted_of_snapshot_def map_idI comp_def)

text \<open>\<open>serde_json::to_string\<close> and \<open>serde_json::from_str\<close> on this record.\<close>

record snapshot_json =
  sj_to_string :: "persisted_snapshot \<Rightarrow> str + str"
  sj_from_str :: "str \<Rightarrow> persisted_snapshot option"

definition snapshot_json_ok :: "snapshot_json \<Rightarrow> bool" where
  "snapshot_json_ok J \<longleftrightarrow>
     (\<forall>p. \<exists>raw. sj_to_string J p = Inr raw \<and> (\<forall>c \<in> set raw. scalar c) \<and> sj_from_str J raw = Some p)"

subsection \<open>The storage\<close>

record file_storage =
  fs_directory :: path

definition file_storage_new :: "path \<Rightarrow> file_storage" where
  "file_storage_new dir = \<lparr>fs_directory = dir\<rparr>"

definition snapshot_path :: "file_storage \<Rightarrow> node_id \<Rightarrow> path" where
  "snapshot_path s i = fs_directory s @ [lit ''node-'' @ u64_to_string i @ lit ''.json'']"

definition temp_snapshot_path :: "file_storage \<Rightarrow> node_id \<Rightarrow> path" where
  "temp_snapshot_path s i = fs_directory s @ [lit ''node-'' @ u64_to_string i @ lit ''.json.tmp'']"

definition load_snapshot_file :: "snapshot_json \<Rightarrow> file_storage \<Rightarrow> node_id \<Rightarrow> disk \<Rightarrow> storage_snapshot option" where
  "load_snapshot_file J s i d = do {
     raw \<leftarrow> fs_read_to_string (snapshot_path s i) d;
     persisted \<leftarrow> sj_from_str J raw;
     Some (snapshot_of_persisted persisted)
   }"

definition save_snapshot_file ::
  "snapshot_json \<Rightarrow> file_storage \<Rightarrow> storage_snapshot \<Rightarrow> io_fault \<Rightarrow> disk \<Rightarrow> disk \<times> (str + unit)" where
  "save_snapshot_file J s snapshot flt d =
     io_then (fs_create_dir_all flt (fs_directory s) d) (\<lambda>d _.
     let i = ss_node_id snapshot; persisted = persisted_of_snapshot snapshot in
     io_then (d, sj_to_string J persisted) (\<lambda>d raw.
     let tmp_path = temp_snapshot_path s i; final_path = snapshot_path s i in
     io_then (fs_create flt tmp_path d) (\<lambda>d _.
     io_then (fs_write_all flt tmp_path (into_bytes raw) d) (\<lambda>d _.
     io_then (fs_sync_all flt tmp_path d) (\<lambda>d _.
     io_then (fs_rename flt tmp_path final_path d) (\<lambda>d _. (d, Inr ())))))))"

text \<open>
  The storage strategy on the pair of the storage and its disk. \<open>save\<close> reports no failure: it only
  logs the error.
\<close>

definition file_load :: "snapshot_json \<Rightarrow> file_storage \<times> disk \<Rightarrow> node_id \<Rightarrow> storage_snapshot option" where
  "file_load J w i = load_snapshot_file J (fst w) i (snd w)"

definition file_save :: "snapshot_json \<Rightarrow> storage_snapshot \<Rightarrow> file_storage \<times> disk \<Rightarrow> file_storage \<times> disk" where
  "file_save J snapshot w =
     (fst w, fst (save_snapshot_file J (fst w) snapshot (next_fault (snd w)) (past_fault (snd w))))"

definition file_ops :: "snapshot_json \<Rightarrow> (file_storage \<times> disk) storage_ops" where
  "file_ops J = \<lparr>st_load = file_load J, st_save = file_save J\<rparr>"

subsection \<open>File names\<close>

lemma snapshot_path_inj [simp]: "(snapshot_path s i = snapshot_path s j) = (i = j)"
  by (auto simp: snapshot_path_def u64_to_string_def dest: nat_digits_inj)

lemma temp_path_not_final [simp]: "temp_snapshot_path s i \<noteq> snapshot_path s j"
proof
  assume "temp_snapshot_path s i = snapshot_path s j"
  then have "last (last (temp_snapshot_path s i)) = last (last (snapshot_path s j))" by simp
  then show False by (simp add: temp_snapshot_path_def snapshot_path_def lit_def)
qed

lemmas final_path_not_temp [simp] = temp_path_not_final [symmetric]

lemma butlast_temp_path [simp]: "butlast (temp_snapshot_path s i) = fs_directory s"
  by (simp add: temp_snapshot_path_def)

lemma paths_longer [simp]:
  "length (temp_snapshot_path s i) = Suc (length (fs_directory s))"
  "length (snapshot_path s i) = Suc (length (fs_directory s))"
  by (simp_all add: temp_snapshot_path_def snapshot_path_def)

lemma hm_get_remove [simp]: "hm_get (hm_remove k m) k' = (if k' = k then None else hm_get m k')"
  by (induction m) (auto simp: hm_remove_def)

lemma prefixes_of_length: "q \<in> set (prefixes_of p) \<Longrightarrow> length q \<le> length p"
  by (auto simp: prefixes_of_def)

lemma prefix_self: "p \<in> set (prefixes_of p)"
  unfolding prefixes_of_def set_map by (rule image_eqI [of _ _ "length p"]) simp_all

subsection \<open>What a save leaves behind\<close>

lemmas io_defs = fs_create_dir_all_def fs_create_def fs_write_all_def fs_sync_all_def fs_rename_def

text \<open>The disks that differ only in the temporary file and in the directories above it.\<close>

definition touches_only :: "path \<Rightarrow> path \<Rightarrow> disk \<Rightarrow> disk \<Rightarrow> bool" where
  "touches_only dir tmp d d' \<longleftrightarrow>
     fd_unreadable d' = fd_unreadable d \<and> fd_faults d' = fd_faults d \<and>
     set (fd_dirs d') \<subseteq> set (fd_dirs d) \<union> set (prefixes_of dir) \<and>
     (\<forall>q. q \<noteq> tmp \<longrightarrow> hm_get (fd_files d') q = hm_get (fd_files d) q)"

lemma touches_trans: "touches_only dir tmp d d1 \<Longrightarrow> touches_only dir tmp d1 d2 \<Longrightarrow> touches_only dir tmp d d2"
  unfolding touches_only_def by auto

lemma io_steps:
  "fs_create_dir_all flt dir d = (d', r) \<Longrightarrow> touches_only dir tmp d d'"
  "fs_create flt tmp d = (d', r) \<Longrightarrow> touches_only dir tmp d d'"
  "fs_write_all flt tmp b d = (d', r) \<Longrightarrow> touches_only dir tmp d d'"
  "fs_sync_all flt tmp d = (d', r) \<Longrightarrow> d' = d"
  by (auto simp: touches_only_def fs_create_dir_all_def fs_create_def fs_write_all_def fs_sync_all_def Let_def
      split: io_fault.splits if_splits)

lemma create_write:
  assumes "fs_create flt tmp d = (d1, Inr ())" and "fs_write_all flt tmp b d1 = (d2, Inr ())"
  shows "hm_get (fd_files d2) tmp = Some b"
  using assms by (auto simp: fs_create_def fs_write_all_def split: io_fault.splits if_splits)

text \<open>The calls of a save one after the other: where it stops, and on which disk.\<close>

lemma save_outcome:
  assumes "save_snapshot_file J s x flt d = (d', r)"
  defines "tmp \<equiv> temp_snapshot_path s (ss_node_id x)"
  shows "\<exists>d1. touches_only (fs_directory s) tmp d d1 \<and>
     ((\<exists>e. r = Inl e) \<and> d' = d1 \<or>
      (\<exists>raw. sj_to_string J (persisted_of_snapshot x) = Inr raw \<and> hm_get (fd_files d1) tmp = Some (into_bytes raw) \<and>
         fs_rename flt tmp (snapshot_path s (ss_node_id x)) d1 = (d', r)))"
proof -
  obtain d1 r1 where 1: "fs_create_dir_all flt (fs_directory s) d = (d1, r1)" by fastforce
  have t1: "touches_only (fs_directory s) tmp d d1" by (rule io_steps(1) [OF 1])
  note run = assms(1) [unfolded save_snapshot_file_def Let_def tmp_def [symmetric]]
  show ?thesis
  proof (cases r1)
    case (Inl e)
    then show ?thesis using run 1 t1 by auto
  next
    case ok1: (Inr u)
    show ?thesis
    proof (cases "sj_to_string J (persisted_of_snapshot x)")
      case (Inl e)
      then show ?thesis using run 1 ok1 t1 by auto
    next
      case raw: (Inr raw)
      obtain d2 r2 where 2: "fs_create flt tmp d1 = (d2, r2)" by fastforce
      have t2: "touches_only (fs_directory s) tmp d d2" by (rule touches_trans [OF t1 io_steps(2) [OF 2]])
      show ?thesis
      proof (cases r2)
        case (Inl e)
        then show ?thesis using run 1 ok1 raw 2 t2 by auto
      next
        case ok2: (Inr u)
        obtain d3 r3 where 3: "fs_write_all flt tmp (into_bytes raw) d2 = (d3, r3)" by fastforce
        have t3: "touches_only (fs_directory s) tmp d d3" by (rule touches_trans [OF t2 io_steps(3) [OF 3]])
        obtain d4 r4 where 4: "fs_sync_all flt tmp d3 = (d4, r4)" by fastforce
        have e4: "d4 = d3" by (rule io_steps(4) [OF 4])
        consider (fail) "\<exists>e. r3 = Inl e" | (fail_sync) "r3 = Inr ()" "\<exists>e. r4 = Inl e" | (ok) "r3 = Inr ()" "r4 = Inr ()"
          by (cases r3; cases r4) auto
        then show ?thesis
        proof cases
          case ok
          have "hm_get (fd_files d3) tmp = Some (into_bytes raw)" using create_write 2 ok2 3 ok(1) by simp
          moreover have "io_then (fs_rename flt tmp (snapshot_path s (ss_node_id x)) d3) (\<lambda>d _. (d, Inr ())) = (d', r)"
            using run 1 ok1 raw 2 ok2 3 4 e4 ok by simp
          then have "fs_rename flt tmp (snapshot_path s (ss_node_id x)) d3 = (d', r)"
            by (simp add: io_then_def split: prod.splits sum.splits)
          ultimately show ?thesis using t3 raw by blast
        qed (intro exI [of _ d3]; use run 1 ok1 raw 2 ok2 3 4 e4 t3 in auto)+
      qed
    qed
  qed
qed

lemma rename_cases:
  assumes "fs_rename flt p q d = (d', r)"
  shows "(\<exists>e. r = Inl e) \<and> d' = d \<or>
    r = Inr () \<and> (\<exists>c. hm_get (fd_files d) p = Some c \<and> d' = d\<lparr>fd_files := hm_insert q c (hm_remove p (fd_files d))\<rparr>)"
  using assms by (auto simp: fs_rename_def split: io_fault.splits if_splits option.splits)

text \<open>
  Whatever call fails, a save that does not report success leaves every snapshot file as it was:
  only the temporary file may have changed. A save that succeeds replaces one file.
\<close>

lemma save_cases:
  assumes "save_snapshot_file J s x flt d = (d', r)"
  obtains (failed) e where "r = Inl e"
      and "touches_only (fs_directory s) (temp_snapshot_path s (ss_node_id x)) d d'"
  | (saved) raw where "r = Inr ()" and "sj_to_string J (persisted_of_snapshot x) = Inr raw"
      and "\<And>q. hm_get (fd_files d') q =
             (if q = snapshot_path s (ss_node_id x) then Some (into_bytes raw)
              else if q = temp_snapshot_path s (ss_node_id x) then None else hm_get (fd_files d) q)"
      and "fd_unreadable d' = fd_unreadable d" and "fd_faults d' = fd_faults d"
      and "set (fd_dirs d') \<subseteq> set (fd_dirs d) \<union> set (prefixes_of (fs_directory s))"
proof -
  let ?tmp = "temp_snapshot_path s (ss_node_id x)" and ?final = "snapshot_path s (ss_node_id x)"
  obtain d1 where t: "touches_only (fs_directory s) ?tmp d d1"
    and o: "(\<exists>e. r = Inl e) \<and> d' = d1 \<or>
      (\<exists>raw. sj_to_string J (persisted_of_snapshot x) = Inr raw \<and> hm_get (fd_files d1) ?tmp = Some (into_bytes raw) \<and>
         fs_rename flt ?tmp ?final d1 = (d', r))"
    using save_outcome [OF assms] by blast
  from o consider (fail) e where "r = Inl e" "d' = d1"
    | (ok) raw where "sj_to_string J (persisted_of_snapshot x) = Inr raw" "r = Inr ()"
      "d' = d1\<lparr>fd_files := hm_insert ?final (into_bytes raw) (hm_remove ?tmp (fd_files d1))\<rparr>"
    using rename_cases [of flt ?tmp ?final d1 d' r] by fastforce
  then show thesis
  proof cases
    case fail
    then show ?thesis using failed t by blast
  next
    case ok
    then show ?thesis by (intro saved [of raw]) (use t in \<open>auto simp: touches_only_def\<close>)
  qed
qed

lemma failed_save_keeps_files:
  assumes "save_snapshot_file J s x flt d = (d', Inl e)"
  shows "hm_get (fd_files d') (snapshot_path s i) = hm_get (fd_files d) (snapshot_path s i)"
    and "fd_unreadable d' = fd_unreadable d"
  by (rule save_cases [OF assms]; simp add: touches_only_def)+

lemma successful_save_writes:
  assumes "save_snapshot_file J s x flt d = (d', Inr ())"
  shows "\<exists>raw. sj_to_string J (persisted_of_snapshot x) = Inr raw \<and>
           hm_get (fd_files d') (snapshot_path s (ss_node_id x)) = Some (into_bytes raw)"
    and "i \<noteq> ss_node_id x \<Longrightarrow>
           hm_get (fd_files d') (snapshot_path s i) = hm_get (fd_files d) (snapshot_path s i)"
    and "fd_unreadable d' = fd_unreadable d"
  by (rule save_cases [OF assms]; simp)+

lemma save_other_fields:
  assumes "save_snapshot_file J s x flt d = (d', r)"
  shows "fd_faults d' = fd_faults d"
    and "q \<in> set (fd_dirs d') \<Longrightarrow> q \<in> set (fd_dirs d) \<or> q \<in> set (prefixes_of (fs_directory s))"
    and "hm_get (fd_files d') q \<noteq> None \<Longrightarrow> length q \<le> length (fs_directory s) \<Longrightarrow> hm_get (fd_files d) q \<noteq> None"
proof -
  have long: "q \<noteq> temp_snapshot_path s i" "q \<noteq> snapshot_path s i" if "length q \<le> length (fs_directory s)" for i
    using that by auto
  show "fd_faults d' = fd_faults d"
    by (rule save_cases [OF assms]; simp add: touches_only_def)
  show "q \<in> set (fd_dirs d') \<Longrightarrow> q \<in> set (fd_dirs d) \<or> q \<in> set (prefixes_of (fs_directory s))"
    by (rule save_cases [OF assms]) (unfold touches_only_def, blast+)
  show "hm_get (fd_files d') q \<noteq> None \<Longrightarrow> length q \<le> length (fs_directory s) \<Longrightarrow> hm_get (fd_files d) q \<noteq> None"
    by (rule save_cases [OF assms]; simp add: touches_only_def long)
qed

lemma load_by_files:
  assumes "hm_get (fd_files d') (snapshot_path s i) = hm_get (fd_files d) (snapshot_path s i)"
    and "fd_unreadable d' = fd_unreadable d"
  shows "load_snapshot_file J s i d' = load_snapshot_file J s i d"
  using assms by (simp add: load_snapshot_file_def fs_read_to_string_def)

lemma failed_save_load:
  "save_snapshot_file J s x flt d = (d', Inl e) \<Longrightarrow> load_snapshot_file J s i d' = load_snapshot_file J s i d"
  by (rule load_by_files) (rule failed_save_keeps_files, assumption)+

lemma successful_save_load_other:
  "save_snapshot_file J s x flt d = (d', Inr ()) \<Longrightarrow> i \<noteq> ss_node_id x \<Longrightarrow>
     load_snapshot_file J s i d' = load_snapshot_file J s i d"
  by (rule load_by_files) (erule successful_save_writes; assumption)+

lemma successful_save_load:
  assumes "save_snapshot_file J s x flt d = (d', Inr ())" and "snapshot_json_ok J"
    and "snapshot_path s (ss_node_id x) \<notin> set (fd_unreadable d)"
  shows "load_snapshot_file J s (ss_node_id x) d' = Some x"
proof -
  obtain raw where r: "sj_to_string J (persisted_of_snapshot x) = Inr raw"
      "hm_get (fd_files d') (snapshot_path s (ss_node_id x)) = Some (into_bytes raw)"
    using successful_save_writes(1) [OF assms(1)] by blast
  obtain raw2 where j: "sj_to_string J (persisted_of_snapshot x) = Inr raw2" "\<forall>c \<in> set raw2. scalar c"
      "sj_from_str J raw2 = Some (persisted_of_snapshot x)"
    using assms(2) unfolding snapshot_json_ok_def by blast
  have "raw2 = raw" using r(1) j(1) by simp
  then show ?thesis
    using r(2) j(2,3) assms(3) successful_save_writes(3) [OF assms(1)]
    by (simp add: load_snapshot_file_def fs_read_to_string_def from_utf8_into_bytes)
qed

subsection \<open>The contract, on a disk without faults\<close>

definition disk_clean :: "file_storage \<Rightarrow> disk \<Rightarrow> bool" where
  "disk_clean s d \<longleftrightarrow> fd_faults d = [] \<and>
     (\<forall>q \<in> set (prefixes_of (fs_directory s)). hm_get (fd_files d) q = None) \<and>
     (\<forall>i. snapshot_path s i \<notin> set (fd_dirs d) \<and> temp_snapshot_path s i \<notin> set (fd_dirs d) \<and>
          snapshot_path s i \<notin> set (fd_unreadable d))"

definition file_good :: "snapshot_json \<Rightarrow> file_storage \<times> disk \<Rightarrow> bool" where
  "file_good J w \<longleftrightarrow> snapshot_json_ok J \<and> disk_clean (fst w) (snd w)"

lemma path_not_prefix:
  "snapshot_path s i \<notin> set (prefixes_of (fs_directory s))"
  "temp_snapshot_path s i \<notin> set (prefixes_of (fs_directory s))"
  by (auto dest: prefixes_of_length)

lemma clean_save_succeeds:
  assumes "snapshot_json_ok J" and "disk_clean s d"
  shows "\<exists>d'. save_snapshot_file J s x No_Fault d = (d', Inr ())"
proof -
  obtain raw where j: "sj_to_string J (persisted_of_snapshot x) = Inr raw"
    using assms(1) unfolding snapshot_json_ok_def by blast
  have "\<forall>q \<in> set (prefixes_of (fs_directory s)). hm_get (fd_files d) q = None"
    and "snapshot_path s i \<notin> set (fd_dirs d)" "temp_snapshot_path s i \<notin> set (fd_dirs d)" for i
    using assms(2) by (simp_all add: disk_clean_def)
  then show ?thesis
    using j path_not_prefix by (simp add: save_snapshot_file_def io_defs Let_def prefix_self)
qed

lemma clean_save:
  assumes "disk_clean s d" and "save_snapshot_file J s x No_Fault d = (d', r)"
  shows "disk_clean s d'"
proof -
  have u: "fd_unreadable d' = fd_unreadable d"
  proof (cases r)
    case (Inl e)
    then show ?thesis using failed_save_keeps_files(2) assms(2) by simp
  next
    case (Inr q)
    then show ?thesis using successful_save_writes(3) assms(2) by simp
  qed
  have "hm_get (fd_files d') q = None" if "q \<in> set (prefixes_of (fs_directory s))" for q
    using save_other_fields(3) [OF assms(2), of q] prefixes_of_length [OF that] assms(1) that
    unfolding disk_clean_def by (metis (no_types))
  moreover have "snapshot_path s i \<notin> set (fd_dirs d')" "temp_snapshot_path s i \<notin> set (fd_dirs d')" for i
    using save_other_fields(2) [OF assms(2)] path_not_prefix assms(1) unfolding disk_clean_def by blast+
  ultimately show ?thesis
    using save_other_fields(1) [OF assms(2)] u assms(1) unfolding disk_clean_def by simp
qed

lemma file_save_clean:
  assumes "file_good J w"
  obtains d' where "save_snapshot_file J (fst w) x No_Fault (snd w) = (d', Inr ())"
    and "file_save J x w = (fst w, d')" and "file_good J (fst w, d')"
proof -
  have g: "snapshot_json_ok J" "disk_clean (fst w) (snd w)" using assms by (simp_all add: file_good_def)
  obtain d' where d: "save_snapshot_file J (fst w) x No_Fault (snd w) = (d', Inr ())"
    using clean_save_succeeds [OF g] by blast
  have "past_fault (snd w) = snd w" "next_fault (snd w) = No_Fault"
    using g(2) by (simp_all add: past_fault_def next_fault_def disk_clean_def)
  then have "file_save J x w = (fst w, d')" using d by (simp add: file_save_def)
  moreover have "file_good J (fst w, d')" using clean_save [OF g(2) d] g(1) by (simp add: file_good_def)
  ultimately show thesis using that d by blast
qed

interpretation file_store: storage_strategy "file_load J" "file_save J" "file_good J" for J
proof unfold_locales
  fix s x i
  assume g: "file_good J s"
  obtain d' where d: "save_snapshot_file J (fst s) x No_Fault (snd s) = (d', Inr ())"
    "file_save J x s = (fst s, d')" "file_good J (fst s, d')"
    using file_save_clean [OF g] by blast
  have j: "snapshot_json_ok J" and c: "snapshot_path (fst s) (ss_node_id x) \<notin> set (fd_unreadable (snd s))"
    using g by (simp_all add: file_good_def disk_clean_def)
  show "file_good J (file_save J x s)" using d by simp
  show "file_load J (file_save J x s) (ss_node_id x) = Some x"
    using successful_save_load [OF d(1) j c] d(2) by (simp add: file_load_def)
  show "i \<noteq> ss_node_id x \<Longrightarrow> file_load J (file_save J x s) i = file_load J s i"
    using successful_save_load_other [OF d(1)] d(2) by (simp add: file_load_def)
qed

end
