(* ===== verification/Durability.thy ===== *)
theory Durability
  imports Runner_Loop File_Storage
begin

text \<open>
  What the storage of a runner holds. A runner is durable when its storage holds, under the id of its
  node, a snapshot with the node's term, vote, log, snapshot position and commit index (up to the
  clamping that a restore does); it is backed when it is durable or still as it was created. Every
  event saves the node that it leaves, so both are kept, over any storage that fulfils the contract
  \<open>storage_strategy\<close>. The contract is discharged for the in-memory and the file storage.
\<close>

definition ss_view :: "storage_snapshot \<Rightarrow> storage_snapshot" where
  "ss_view x = x\<lparr>ss_commit_index := max (ss_last_included_index x)
                   (min (ss_commit_index x) (ss_last_included_index x + length (ss_log x))),
                 ss_state_machine_snapshot := []\<rparr>"

definition node_view :: "raft_node \<Rightarrow> storage_snapshot" where
  "node_view n = ss_view (from_node n [])"

definition durable :: "('c, 's, 'm) runner_env \<Rightarrow> ('c, 's, 'm) runner \<Rightarrow> bool" where
  "durable E r \<longleftrightarrow> (\<exists>x. st_load (en_storage E) (r_storage r) (nid (r_node r)) = Some x \<and> ss_view x = node_view (r_node r))"

text \<open>The node of a runner is the one its configuration describes, and its invariant holds.\<close>

definition runner_ok :: "('c, 's, 'm) runner \<Rightarrow> bool" where
  "runner_ok r \<longleftrightarrow> node_inv (r_node r) \<and> nid (r_node r) = cfg_id (r_config r) \<and>
     peers (r_node r) = hm_keys (cfg_peer_addrs (r_config r))"

lemma ss_view_from_node [simp]: "ss_view (from_node n b) = node_view n"
  by (simp add: node_view_def ss_view_def from_node_def)

lemma ss_node_id_from_node [simp]: "ss_node_id (from_node n b) = nid n"
  by (simp add: from_node_def)

lemma node_view_fields:
  "ss_node_id (node_view n) = nid n" "ss_current_term (node_view n) = current_term n"
  "ss_voted_for (node_view n) = voted_for n" "ss_log (node_view n) = log n"
  "ss_last_included_index (node_view n) = snapshot_last_included_index n"
  "ss_last_included_term (node_view n) = snapshot_last_included_term n"
  "ss_commit_index (node_view n) = max (snapshot_last_included_index n) (min (commit_index n) (log_end n))"
  by (simp_all add: node_view_def ss_view_def from_node_def log_end_def)

lemma ss_view_fields:
  "ss_node_id (ss_view x) = ss_node_id x" "ss_current_term (ss_view x) = ss_current_term x"
  "ss_voted_for (ss_view x) = ss_voted_for x" "ss_log (ss_view x) = ss_log x"
  "ss_last_included_index (ss_view x) = ss_last_included_index x"
  "ss_last_included_term (ss_view x) = ss_last_included_term x"
  "ss_commit_index (ss_view x) = max (ss_last_included_index x)
     (min (ss_commit_index x) (ss_last_included_index x + length (ss_log x)))"
  by (simp_all add: ss_view_def)

subsection \<open>The node's invariant through the runner\<close>

text \<open>\<open>react\<close> is a sequence of calls of the node, none of them a restore.\<close>

lemma react_runs:
  assumes "react rng ev n = Some (n', ms)"
  shows "\<exists>cs. node_run rng cs n = Some n' \<and> (\<forall>c \<in> set cs. \<not> is_restore c)"
proof (cases ev)
  case (Received sender msg)
  then have r: "react_message rng sender msg n = Some (n', ms)" using assms by (simp add: react_def)
  show ?thesis
  proof (cases msg)
    case (RequestVote req)
    then show ?thesis using r by (intro exI [of _ "[HandleRequestVote req]"]) (auto simp: react_message_def)
  next
    case (RequestVoteResponse resp)
    then obtain k b where h: "handle_request_vote_response rng resp n = Some (k, b)"
      using r by (auto simp: react_message_def bind_Some_iff)
    show ?thesis
    proof (cases b)
      case True
      then show ?thesis using r h RequestVoteResponse
        by (intro exI [of _ "[HandleRequestVoteResponse resp, Tick]"]) (auto simp: react_message_def)
    next
      case False
      then show ?thesis using r h RequestVoteResponse
        by (intro exI [of _ "[HandleRequestVoteResponse resp]"]) (auto simp: react_message_def)
    qed
  next
    case (AppendEntries req)
    then show ?thesis using r by (intro exI [of _ "[HandleAppendEntries req]"]) (auto simp: react_message_def)
  next
    case (AppendEntriesResponse resp)
    then show ?thesis using r
      by (intro exI [of _ "[HandleAppendEntriesResponse resp]"]) (auto simp: react_message_def)
  qed (use r in \<open>auto simp: react_message_def intro: exI [of _ "[]"]\<close>)
next
  case Ticked
  then show ?thesis using assms by (intro exI [of _ "[Tick]"]) (auto simp: react_def)
next
  case (Commanded cmd)
  show ?thesis
  proof (cases cmd)
    case (Propose v)
    then show ?thesis using assms Commanded by (intro exI [of _ "[ProposeCommand v]"]) (auto simp: react_def)
  next
    case ForceElection
    then show ?thesis using assms Commanded by (intro exI [of _ "[StartElection]"]) (auto simp: react_def)
  qed (use assms Commanded in \<open>auto simp: react_def intro: exI [of _ "[]"]\<close>)
qed

lemma react_inv:
  assumes "gen_range_ok rng" and "node_inv n" and "react rng ev n = Some (n', ms)"
  shows "node_inv n'"
  using react_runs [OF assms(3)] node_run_inv assms(1,2) by blast

lemma react_ids: "react rng ev n = Some (n', ms) \<Longrightarrow> nid n' = nid n \<and> peers n' = peers n"
  using react_runs node_run_ids by blast

text \<open>
  What an InstallSnapshot of \<open>sender\<close> makes of a runner, on every branch. It is answered to its sender,
  with success when its term is not old and the machine restores the data; then the node is a follower
  of that leader with an empty log that starts after the snapshot, and is saved with the data. Otherwise
  node and storage stay.
\<close>

definition installed ::
  "('c, 's, 'm) runner_env \<Rightarrow> node_id \<Rightarrow> install_snapshot \<Rightarrow> ('c, 's, 'm) runner \<Rightarrow> ('c, 's, 'm) runner \<Rightarrow> bool" where
  "installed E sender req r r' \<longleftrightarrow>
     (let res = sm_restore (en_machine E) (r_machine r) (is_data req);
          ok = (current_term (r_node r) \<le> is_term req \<and> snd res = Inr ()) in
      r_communication r' = send_all E [(sender, InstallSnapshotResponse
        \<lparr>isr_term = current_term (r_node r'), isr_from = nid (r_node r), isr_success = ok\<rparr>)] (r_communication r) \<and>
      r_config r' = r_config r \<and>
      r_machine r' = (if is_term req < current_term (r_node r) then r_machine r else fst res) \<and>
      (if ok then
         r_node r' = (r_node r)\<lparr>current_term := is_term req, voted_for := None, log := [],
           snapshot_last_included_index := is_last_included_index req,
           snapshot_last_included_term := is_last_included_term req, role := Follower,
           leader_id := Some (is_leader_id req), votes_received := {}, leader_next_index := [],
           leader_match_index := [], election_elapsed := 0, heartbeat_elapsed := 0,
           commit_index := is_last_included_index req, last_applied := is_last_included_index req\<rparr> \<and>
         r_storage r' = st_save (en_storage E) (from_node (r_node r') (is_data req)) (r_storage r)
       else r_node r' = r_node r \<and> r_storage r' = r_storage r))"

lemma on_install_snapshot_spec:
  assumes "on_install_snapshot E sender req r = Some r'"
  shows "installed E sender req r r'"
proof (cases "is_term req < current_term (r_node r)")
  case True
  then show ?thesis using assms
    by (auto simp: installed_def on_install_snapshot_def snapshot_reply_def Let_def dest!: send_or_log_effect)
next
  case False
  obtain m out where m: "sm_restore (en_machine E) (r_machine r) (is_data req) = (m, out)" by fastforce
  show ?thesis
  proof (cases out)
    case (Inl err)
    then show ?thesis using assms False m
      by (auto simp: installed_def on_install_snapshot_def snapshot_reply_def Let_def dest!: send_or_log_effect)
  next
    case (Inr u)
    then show ?thesis using assms False m
      by (auto simp: installed_def on_install_snapshot_def snapshot_reply_def Let_def bind_Some_iff
          restore_from_storage_Some_iff dest!: send_or_log_effect)
  qed
qed

text \<open>An installed snapshot: nothing but a reply, or a follower with an empty log that is saved.\<close>

lemma on_install_snapshot_effect:
  assumes "on_install_snapshot E sender req r = Some r'"
  shows "r_config r' = r_config r \<and>
    (r_node r' = r_node r \<and> r_storage r' = r_storage r \<or>
     (\<exists>n. is_term req \<ge> current_term (r_node r) \<and>
        restore_from_storage (is_term req) None [] (is_last_included_index req) (is_last_included_index req)
          (is_last_included_term req) (r_node r) = Some n \<and>
        r_node r' = n\<lparr>leader_id := Some (is_leader_id req)\<rparr> \<and>
        r_storage r' = st_save (en_storage E) (from_node (r_node r') (is_data req)) (r_storage r)))"
proof -
  obtain m res where m: "sm_restore (en_machine E) (r_machine r) (is_data req) = (m, res)" by fastforce
  show ?thesis
  proof (cases "is_term req < current_term (r_node r)")
    case True
    then show ?thesis using assms by (auto simp: on_install_snapshot_def dest!: send_or_log_effect)
  next
    case False
    then show ?thesis using assms m
      by (cases res) (auto simp: on_install_snapshot_def Let_def bind_Some_iff not_less dest!: send_or_log_effect)
  qed
qed

lemma process_message_installs:
  assumes "process_message E \<lparr>im_from = sender, im_message = InstallSnapshot req\<rparr> r = Some r'"
  shows "\<exists>k. on_install_snapshot E sender req (r\<lparr>r_inbound_count := k\<rparr>) = Some r'"
  using assms by (auto simp: process_message_def bind_Some_iff Let_def)

lemma step_installs:
  assumes "runner_step E (Received sender (InstallSnapshot req)) r = Some r'"
  shows "installed E sender req r r'"
proof -
  obtain k where "on_install_snapshot E sender req (r\<lparr>r_inbound_count := k\<rparr>) = Some r'"
    using assms process_message_installs by (fastforce simp: runner_step_def)
  from on_install_snapshot_spec [OF this] show ?thesis by (simp add: installed_def Let_def)
qed

lemma runner_step_ok:
  assumes "gen_range_ok (en_rng E)" and "runner_ok r" and "runner_step E ev r = Some r'"
  shows "runner_ok r'"
proof (cases "installs_snapshot ev")
  case True
  then obtain sender req where ev: "ev = Received sender (InstallSnapshot req)"
    by (cases ev rule: installs_snapshot.cases) auto
  then obtain k where "on_install_snapshot E sender req (r\<lparr>r_inbound_count := k\<rparr>) = Some r'"
    using assms(3) process_message_installs by (fastforce simp: runner_step_def)
  from on_install_snapshot_effect [OF this] show ?thesis
  proof (elim conjE disjE exE)
    fix n
    assume n: "restore_from_storage (is_term req) None [] (is_last_included_index req) (is_last_included_index req)
        (is_last_included_term req) (r_node (r\<lparr>r_inbound_count := k\<rparr>)) = Some n"
      and r': "r_node r' = n\<lparr>leader_id := Some (is_leader_id req)\<rparr>" "r_config r' = r_config (r\<lparr>r_inbound_count := k\<rparr>)"
    have "node_inv n" using restore_from_storage_inv [OF _ n] assms(2) by (simp add: runner_ok_def)
    moreover have "role n = Follower" "nid n = nid (r_node r)" "peers n = peers (r_node r)"
      using n by (auto simp: restore_from_storage_Some_iff)
    ultimately show ?thesis using r' assms(2) by (simp add: runner_ok_def inv_defs)
  qed (use assms(2) in \<open>simp add: runner_ok_def\<close>)
next
  case False
  then obtain n ms where "react (en_rng E) ev (r_node r) = Some (n, ms)" "handled E r (n, ms) r'"
    using runner_step_reacts [OF assms(3)] by (metis surj_pair)
  then show ?thesis using assms(1,2) react_inv react_ids
    by (fastforce simp: runner_ok_def handled_def same_election_def)
qed

lemma run_turns_ok:
  assumes "run_turns E inputs next_tick r = Some (r', next_tick', e)" and "gen_range_ok (en_rng E)" and "runner_ok r"
  shows "runner_ok r'"
proof (rule run_turns_rule [where P = runner_ok, OF _ _ _ assms(1,3)])
  show "runner_ok q'" if "runner_ok q" "runner_step E ev q = Some q'" for ev q q'
    by (rule runner_step_ok [OF assms(2) that])
qed (simp_all add: runner_ok_def)

lemma runner_step_config: "runner_step E ev r = Some r' \<Longrightarrow> r_config r' = r_config r"
proof (cases "installs_snapshot ev")
  case True
  assume s: "runner_step E ev r = Some r'"
  obtain sender req where ev: "ev = Received sender (InstallSnapshot req)"
    using True by (cases ev rule: installs_snapshot.cases) auto
  then obtain k where "on_install_snapshot E sender req (r\<lparr>r_inbound_count := k\<rparr>) = Some r'"
    using s process_message_installs by (fastforce simp: runner_step_def)
  from on_install_snapshot_effect [OF this] show ?thesis by simp
next
  case False
  assume "runner_step E ev r = Some r'"
  from runner_step_reacts [OF this False] show ?thesis by (auto simp: handled_def)
qed

lemma run_turns_config:
  assumes "run_turns E inputs next_tick r = Some (r', next_tick', e)"
  shows "r_config r' = r_config r"
  by (rule run_turns_rule [where P = "\<lambda>q. r_config q = r_config r", OF _ _ _ assms])
    (simp_all add: runner_step_config)

subsection \<open>What the storage of a node knows\<close>

definition fresh_view :: "node_id \<Rightarrow> storage_snapshot" where
  "fresh_view i =
     \<lparr>ss_node_id = i, ss_current_term = 0, ss_voted_for = None, ss_log = [], ss_commit_index = 0,
      ss_last_included_index = 0, ss_last_included_term = 0, ss_state_machine_snapshot = []\<rparr>"

text \<open>The storage holds the node as it is; when it is empty the node is still as it was created.\<close>

definition backed :: "('c, 's, 'm) runner_env \<Rightarrow> ('c, 's, 'm) runner \<Rightarrow> bool" where
  "backed E r \<longleftrightarrow>
     (case st_load (en_storage E) (r_storage r) (nid (r_node r)) of
        Some x \<Rightarrow> ss_view x = node_view (r_node r)
      | None \<Rightarrow> node_view (r_node r) = fresh_view (nid (r_node r)))"

lemma backed_cong: "r_storage r' = r_storage r \<Longrightarrow> r_node r' = r_node r \<Longrightarrow> backed E r' = backed E r"
  by (simp add: backed_def cong: option.case_cong)

lemma backed_other [simp]:
  "backed E (r\<lparr>r_communication := c\<rparr>) = backed E r"
  "backed E (r\<lparr>r_inbound_count := k1, r_applied_count := k2, r_dropped_outbound := k3, r_last_report_at := t\<rparr>) =
     backed E r"
  by (rule backed_cong; simp)+

lemma durable_backed: "durable E r \<Longrightarrow> backed E r"
  by (auto simp: durable_def backed_def)

text \<open>A step saves the node that it leaves, or changes neither node nor storage.\<close>

definition saves :: "('c, 's, 'm) runner_env \<Rightarrow> ('c, 's, 'm) runner \<Rightarrow> ('c, 's, 'm) runner \<Rightarrow> bool" where
  "saves E r r' \<longleftrightarrow> (\<exists>b. r_storage r' = st_save (en_storage E) (from_node (r_node r') b) (r_storage r)) \<or>
     r_storage r' = r_storage r \<and> r_node r' = r_node r"

lemma handled_saves: "handled E r out r' \<Longrightarrow> saves E r r'"
  by (auto simp: handled_def saves_def)

lemma step_saves:
  assumes "runner_step E ev r = Some r'"
  shows "saves E r r'"
proof (cases "installs_snapshot ev")
  case True
  then obtain sender req where ev: "ev = Received sender (InstallSnapshot req)"
    by (cases ev rule: installs_snapshot.cases) auto
  then obtain k where "on_install_snapshot E sender req (r\<lparr>r_inbound_count := k\<rparr>) = Some r'"
    using assms process_message_installs by (fastforce simp: runner_step_def)
  from on_install_snapshot_effect [OF this] show ?thesis by (auto simp: saves_def)
next
  case False
  then show ?thesis using runner_step_reacts [OF assms] handled_saves by blast
qed

subsection \<open>Durability, over the contract of the storage\<close>

locale durable_runner = storage_strategy "st_load S" "st_save S" good
  for S :: "'s storage_ops" and good :: "'s \<Rightarrow> bool"
begin

lemma save_makes_durable:
  "en_storage E = S \<Longrightarrow> good s \<Longrightarrow> r_storage r = st_save S (from_node (r_node r) b) s \<Longrightarrow>
     durable E r \<and> good (r_storage r)"
  using load_save [of s "from_node (r_node r) b"] good_save by (simp add: durable_def)

lemma saved_or_same:
  assumes "en_storage E = S" and "good (r_storage r)" and "saves E r r'"
  shows "good (r_storage r')" and "durable E r \<Longrightarrow> durable E r'" and "backed E r \<Longrightarrow> backed E r'"
proof -
  consider b where "r_storage r' = st_save S (from_node (r_node r') b) (r_storage r)"
    | "r_storage r' = r_storage r" "r_node r' = r_node r"
    using assms(1,3) unfolding saves_def by blast
  then have "good (r_storage r') \<and> (durable E r \<longrightarrow> durable E r') \<and> (backed E r \<longrightarrow> backed E r')"
  proof cases
    case (1 b)
    then show ?thesis using save_makes_durable [OF assms(1,2) 1] durable_backed by blast
  next
    case 2
    then show ?thesis using assms(2) backed_cong [OF 2] by (simp add: durable_def)
  qed
  then show "good (r_storage r')" "durable E r \<Longrightarrow> durable E r'" "backed E r \<Longrightarrow> backed E r'" by blast+
qed

text \<open>The same for whole turns of the loop, in the two forms.\<close>

lemma run_turns_durable:
  assumes "run_turns E inputs next_tick r = Some (r', next_tick', e)" and "en_storage E = S"
    and "good (r_storage r)" and "durable E r"
  shows "durable E r' \<and> good (r_storage r')"
proof (rule run_turns_rule [where P = "\<lambda>r. durable E r \<and> good (r_storage r)", OF _ _ _ assms(1)])
  show "durable E q' \<and> good (r_storage q')"
    if "durable E q \<and> good (r_storage q)" "runner_step E ev q = Some q'" for ev q q'
    using saved_or_same [OF assms(2) _ step_saves [OF that(2)]] that(1) by blast
qed (use assms(3,4) in \<open>simp_all add: durable_def\<close>)

lemma run_turns_backed:
  assumes "run_turns E inputs next_tick r = Some (r', next_tick', e)" and "en_storage E = S"
    and "good (r_storage r)" and "backed E r"
  shows "backed E r' \<and> good (r_storage r')"
proof (rule run_turns_rule [where P = "\<lambda>r. backed E r \<and> good (r_storage r)", OF _ _ _ assms(1)])
  show "backed E q' \<and> good (r_storage q')"
    if "backed E q \<and> good (r_storage q)" "runner_step E ev q = Some q'" for ev q q'
    using saved_or_same [OF assms(2) _ step_saves [OF that(2)]] that(1) by blast
qed (use assms(3,4) in simp_all)

end

interpretation in_memory_durable: durable_runner in_memory_ops in_memory_ok
  by (simp add: durable_runner_def in_memory_ops_def in_memory.storage_strategy_axioms)

interpretation file_durable: durable_runner "file_ops J" "file_good J" for J
  by (simp add: durable_runner_def file_ops_def file_store.storage_strategy_axioms)

end
