(* ===== verification/Key_Value.thy ===== *)
theory Key_Value
  imports State_Machine
begin

text \<open>
  The key-value state machine, \<open>raftust-core-state-machine-key-value/src/lib.rs\<close>: \<open>set k v\<close> and
  \<open>del k\<close> on a hash map from strings to strings. \<open>serde_json\<close> is not part of the repository: its
  \<open>to_vec\<close> and \<open>from_slice\<close> on such a map are the parameter \<open>kv_json\<close> of the snapshot operations,
  and \<open>kv_json_ok\<close> is what the code relies on: a map that was written is read back, and the JSON
  text of a map is not empty.
\<close>

type_synonym kv_state = "str \<rightharpoonup> str"

record kv_state_machine =
  kv_map :: kv_state

record kv_json =
  to_vec :: "kv_state \<Rightarrow> bytes option"
  from_slice :: "bytes \<Rightarrow> str + kv_state"

datatype state_machine_command = SetKey str str | DeleteKey str

definition kv_new :: kv_state_machine where
  "kv_new = \<lparr>kv_map = Map.empty\<rparr>"

definition kv_parse_command :: "str \<Rightarrow> state_machine_command option" where
  "kv_parse_command raw =
     (let trimmed = trim raw in
      if trimmed = [] then None
      else case strip_prefix (lit ''set '') trimmed of
        Some rest \<Rightarrow>
          (case split_once 32 rest of
             None \<Rightarrow> None
           | Some (key, value) \<Rightarrow> if key = [] then None else Some (SetKey key value))
      | None \<Rightarrow>
          (case strip_prefix (lit ''del '') trimmed of
             Some key \<Rightarrow>
               (let key = trim key in if key = [] then None else Some (DeleteKey key))
           | None \<Rightarrow> None))"

definition kv_apply :: "kv_state_machine \<Rightarrow> str \<Rightarrow> kv_state_machine" where
  "kv_apply sm raw =
     (case kv_parse_command raw of
        Some (SetKey key value) \<Rightarrow> sm\<lparr>kv_map := (kv_map sm)(key \<mapsto> value)\<rparr>
      | Some (DeleteKey key) \<Rightarrow> sm\<lparr>kv_map := (kv_map sm)(key := None)\<rparr>
      | None \<Rightarrow> sm)"

text \<open>\<open>unwrap_or_default\<close>: the empty vector when serialization fails.\<close>

definition kv_snapshot :: "kv_json \<Rightarrow> kv_state_machine \<Rightarrow> bytes" where
  "kv_snapshot J sm = (case to_vec J (kv_map sm) of Some b \<Rightarrow> b | None \<Rightarrow> [])"

definition kv_restore :: "kv_json \<Rightarrow> kv_state_machine \<Rightarrow> bytes \<Rightarrow> kv_state_machine \<times> (str + unit)" where
  "kv_restore J sm snapshot =
     (if snapshot = [] then (sm\<lparr>kv_map := Map.empty\<rparr>, Inr ())
      else case from_slice J snapshot of
        Inl err \<Rightarrow> (sm, Inl (lit ''restore snapshot: '' @ err))
      | Inr m \<Rightarrow> (sm\<lparr>kv_map := m\<rparr>, Inr ()))"

text \<open>
  \<open>describe\<close> prints the entries in the order in which the hash map is iterated, which is unspecified:
  \<open>iter\<close> returns the entries of a map in that order.
\<close>

type_synonym kv_iter = "kv_state \<Rightarrow> (str \<times> str) list"

definition kv_iter_ok :: "kv_iter \<Rightarrow> bool" where
  "kv_iter_ok iter \<longleftrightarrow> (\<forall>m. finite (dom m) \<longrightarrow> distinct (map fst (iter m)) \<and> map_of (iter m) = m)"

definition kv_describe :: "(nat \<Rightarrow> bool) \<Rightarrow> kv_iter \<Rightarrow> kv_state_machine \<Rightarrow> str" where
  "kv_describe shown iter sm =
     lit ''{'' @ join_with (lit '', '')
       (map (\<lambda>(k, v). debug_str shown k @ lit '': '' @ debug_str shown v) (iter (kv_map sm))) @ lit ''}''"

lemma kv_describe_contains:
  assumes "kv_iter_ok iter" and "finite (dom (kv_map sm))" and "kv_map sm k = Some v"
  shows "str_contains (debug_str shown k @ lit '': '' @ debug_str shown v) (kv_describe shown iter sm)"
proof -
  have "map_of (iter (kv_map sm)) k = Some v" using assms by (simp add: kv_iter_ok_def)
  then have "(k, v) \<in> set (iter (kv_map sm))" by (rule map_of_SomeD)
  then have m: "debug_str shown k @ lit '': '' @ debug_str shown v \<in>
      set (map (\<lambda>(k, v). debug_str shown k @ lit '': '' @ debug_str shown v) (iter (kv_map sm)))"
    by force
  obtain a b where "kv_describe shown iter sm =
      (lit ''{'' @ a) @ (debug_str shown k @ lit '': '' @ debug_str shown v) @ (b @ lit ''}'')"
    using join_with_split [OF m, of "lit '', ''"] unfolding kv_describe_def by (metis append.assoc)
  then show ?thesis using str_contains_append by metis
qed

definition kv_ops :: "kv_json \<Rightarrow> kv_state_machine state_machine_ops" where
  "kv_ops J = \<lparr>sm_apply = kv_apply, sm_snapshot = kv_snapshot J, sm_restore = kv_restore J\<rparr>"

subsection \<open>What a command writes\<close>

text \<open>The effect of a command on one key: \<open>None\<close> when it leaves the key alone.\<close>

definition kv_write :: "str \<Rightarrow> str \<Rightarrow> str option option" where
  "kv_write raw k =
     (case kv_parse_command raw of
        Some (SetKey key value) \<Rightarrow> if key = k then Some (Some value) else None
      | Some (DeleteKey key) \<Rightarrow> if key = k then Some None else None
      | None \<Rightarrow> None)"

fun last_write :: "str list \<Rightarrow> str \<Rightarrow> str option option" where
  "last_write [] k = None"
| "last_write (c # cs) k = (case last_write cs k of None \<Rightarrow> kv_write c k | Some w \<Rightarrow> Some w)"

lemma kv_apply_lookup:
  "kv_map (kv_apply sm raw) k = (case kv_write raw k of None \<Rightarrow> kv_map sm k | Some w \<Rightarrow> w)"
  by (auto simp: kv_apply_def kv_write_def split: option.splits state_machine_command.splits)

text \<open>A run of commands is the last write to each key.\<close>

lemma kv_run_lookup:
  "kv_map (sm_run kv_apply cs sm) k = (case last_write cs k of None \<Rightarrow> kv_map sm k | Some w \<Rightarrow> w)"
  by (induction cs arbitrary: sm) (auto simp: kv_apply_lookup split: option.splits)

lemma last_write_append:
  "last_write (xs @ ys) k = (case last_write ys k of None \<Rightarrow> last_write xs k | Some w \<Rightarrow> Some w)"
  by (induction xs) (auto split: option.splits)

lemma kv_eqI: "(\<And>k. kv_map a k = kv_map b k) \<Longrightarrow> a = (b :: kv_state_machine)"
  by (cases a; cases b) (auto simp: fun_eq_iff)

lemma kv_replay_suffix:
  "sm_run kv_apply ys (sm_run kv_apply (xs @ ys) sm) = sm_run kv_apply (xs @ ys) sm"
proof (rule kv_eqI)
  fix k
  show "kv_map (sm_run kv_apply ys (sm_run kv_apply (xs @ ys) sm)) k = kv_map (sm_run kv_apply (xs @ ys) sm) k"
    unfolding kv_run_lookup [of ys "sm_run kv_apply (xs @ ys) sm"] kv_run_lookup [of "xs @ ys"]
    by (auto simp: last_write_append split: option.splits)
qed

subsection \<open>The contract\<close>

definition kv_json_ok :: "kv_json \<Rightarrow> bool" where
  "kv_json_ok J \<longleftrightarrow> (\<forall>m. finite (dom m) \<longrightarrow> (\<exists>b. to_vec J m = Some b \<and> b \<noteq> [] \<and> from_slice J b = Inr m))"

definition kv_ok :: "kv_json \<Rightarrow> kv_state_machine \<Rightarrow> bool" where
  "kv_ok J sm \<longleftrightarrow> kv_json_ok J \<and> finite (dom (kv_map sm))"

lemma kv_apply_ok: "kv_ok J sm \<Longrightarrow> kv_ok J (kv_apply sm c)"
  by (auto simp: kv_ok_def kv_apply_def split: option.splits state_machine_command.splits)

lemma kv_restore_snapshot:
  assumes "kv_ok J sm"
  shows "kv_restore J sm' (kv_snapshot J sm) = (sm, Inr ())"
proof -
  obtain b where "to_vec J (kv_map sm) = Some b" "b \<noteq> []" "from_slice J b = Inr (kv_map sm)"
    using assms by (auto simp: kv_ok_def kv_json_ok_def)
  then show ?thesis by (simp add: kv_restore_def kv_snapshot_def)
qed

lemma kv_failed_restore: "kv_restore J sm b = (sm', Inl e) \<Longrightarrow> sm' = sm"
  by (auto simp: kv_restore_def split: if_splits sum.splits)

interpretation kv: replayable_state_machine kv_apply "kv_snapshot J" "kv_restore J" "kv_ok J" for J
  by unfold_locales
    (auto simp: kv_apply_ok kv_restore_snapshot kv_replay_suffix simp del: sm_run_simps(3) dest: kv_failed_restore)

end
