(* ===== verification/Codec.thy ===== *)
theory Codec
  imports Durability Key_Value "HOL-Library.List_Lexorder"
begin

text \<open>
  Concrete codecs for the two places where the code calls \<open>serde_json\<close>: they show that the laws
  assumed of it (\<open>snapshot_json_ok\<close>, \<open>kv_json_ok\<close>) can be met by computable functions. The text is a
  sequence of decimal numbers, each closed by a semicolon; lists carry their length in front.
\<close>

definition nums_to_str :: "nat list \<Rightarrow> str" where
  "nums_to_str ns = concat (map (\<lambda>n. nat_digits n @ [59]) ns)"

fun read_nums :: "nat \<Rightarrow> str \<Rightarrow> nat list option" where
  "read_nums acc [] = Some []"
| "read_nums acc (c # cs) =
     (if c = 59 then map_option (Cons acc) (read_nums 0 cs)
      else if is_digit c then read_nums (10 * acc + (c - 48)) cs else None)"

lemma read_nums_digits:
  "parse_digits acc ds = Some n \<Longrightarrow> 59 \<notin> set ds \<Longrightarrow>
     read_nums acc (ds @ 59 # rest) = map_option (Cons n) (read_nums 0 rest)"
  by (induction acc ds rule: parse_digits.induct) (auto split: if_splits)

lemma digits_no_semicolon: "59 \<notin> set (nat_digits n)"
  using nat_digits_all [of n] by (auto simp: is_digit_def)

lemma read_nums_to_str: "read_nums 0 (nums_to_str ns) = Some ns"
proof (induction ns)
  case (Cons n ns)
  then show ?case
    using read_nums_digits [OF parse_nat_digits digits_no_semicolon, of n "nums_to_str ns"]
    by (simp add: nums_to_str_def)
qed (simp add: nums_to_str_def)

lemma nums_to_str_ascii: "\<forall>c \<in> set (nums_to_str ns). c < 128"
proof -
  have "c < 128" if "c \<in> set (nat_digits n)" for c n
    using nat_digits_all [of n] that by (auto simp: is_digit_def)
  then show ?thesis by (auto simp: nums_to_str_def)
qed

subsection \<open>Snapshots of a node\<close>

definition entry_nums :: "persisted_log_entry \<Rightarrow> nat list" where
  "entry_nums e = ple_term e # length (ple_command e) # ple_command e"

fun read_entries :: "nat \<Rightarrow> nat list \<Rightarrow> persisted_log_entry list option" where
  "read_entries (Suc k) (t # l # xs) =
     map_option (Cons \<lparr>ple_term = t, ple_command = take l xs\<rparr>) (read_entries k (drop l xs))"
| "read_entries 0 [] = Some []"
| "read_entries _ _ = None"

definition snapshot_nums :: "persisted_snapshot \<Rightarrow> nat list" where
  "snapshot_nums p =
     [ps_node_id p, ps_current_term p, case ps_voted_for p of None \<Rightarrow> 0 | Some v \<Rightarrow> Suc v,
      ps_commit_index p, ps_last_included_index p, ps_last_included_term p,
      length (ps_state_machine_snapshot p), length (ps_log p)] @
     ps_state_machine_snapshot p @ concat (map entry_nums (ps_log p))"

fun snapshot_of_nums :: "nat list \<Rightarrow> persisted_snapshot option" where
  "snapshot_of_nums (i # t # v # c # li # lt # b # k # xs) =
     map_option (\<lambda>es. \<lparr>ps_node_id = i, ps_current_term = t,
         ps_voted_for = (case v of 0 \<Rightarrow> None | Suc w \<Rightarrow> Some w), ps_log = es, ps_commit_index = c,
         ps_last_included_index = li, ps_last_included_term = lt, ps_state_machine_snapshot = take b xs\<rparr>)
       (read_entries k (drop b xs))"
| "snapshot_of_nums _ = None"

lemma read_entries_nums: "read_entries (length es) (concat (map entry_nums es)) = Some es"
  by (induction es) (simp_all add: entry_nums_def)

lemma snapshot_of_snapshot_nums: "snapshot_of_nums (snapshot_nums p) = Some p"
  by (cases p) (auto simp: snapshot_nums_def read_entries_nums split: option.splits)

definition number_json :: snapshot_json where
  "number_json =
     \<lparr>sj_to_string = \<lambda>p. Inr (nums_to_str (snapshot_nums p)),
      sj_from_str = \<lambda>raw. Option.bind (read_nums 0 raw) snapshot_of_nums\<rparr>"

lemma number_json_ok: "snapshot_json_ok number_json"
proof -
  have "scalar c" if "c \<in> set (nums_to_str ns)" for c ns
    using nums_to_str_ascii [of ns] that by (auto simp: scalar_def)
  then show ?thesis
    by (simp add: snapshot_json_ok_def number_json_def read_nums_to_str snapshot_of_snapshot_nums)
qed

subsection \<open>Key-value maps\<close>

definition pair_nums :: "str \<times> str \<Rightarrow> nat list" where
  "pair_nums e = length (fst e) # fst e @ length (snd e) # snd e"

fun read_pairs :: "nat \<Rightarrow> nat list \<Rightarrow> (str \<times> str) list option" where
  "read_pairs 0 xs = Some []"
| "read_pairs (Suc k) [] = None"
| "read_pairs (Suc k) (l # xs) =
     (case drop l xs of
        [] \<Rightarrow> None
      | l2 # ys \<Rightarrow> map_option (Cons (take l xs, take l2 ys)) (read_pairs k (drop l2 ys)))"

definition map_pairs :: "kv_state \<Rightarrow> (str \<times> str) list" where
  "map_pairs m = map (\<lambda>k. (k, case m k of Some v \<Rightarrow> v | None \<Rightarrow> [])) (sorted_list_of_set (dom m))"

definition number_kv_json :: kv_json where
  "number_kv_json =
     \<lparr>to_vec = \<lambda>m. Some (nums_to_str (length (map_pairs m) # concat (map pair_nums (map_pairs m)))),
      from_slice = \<lambda>b. (case read_nums 0 b of
          Some (k # xs) \<Rightarrow> (case read_pairs k xs of Some ps \<Rightarrow> Inr (map_of ps) | None \<Rightarrow> Inl [])
        | _ \<Rightarrow> Inl [])\<rparr>"

lemma read_pairs_nums: "read_pairs (length ps) (concat (map pair_nums ps)) = Some ps"
  by (induction ps) (simp_all add: pair_nums_def)

lemma map_of_map_pairs:
  assumes "finite (dom m)"
  shows "map_of (map_pairs m) = m"
proof
  fix k
  show "map_of (map_pairs m) k = m k"
    using assms by (cases "m k") (auto simp: map_pairs_def map_of_map_restrict restrict_map_def comp_def
        map_of_eq_None_iff image_iff intro!: map_of_is_SomeI simp: distinct_map inj_on_def)
qed

lemma number_kv_json_ok: "kv_json_ok number_kv_json"
proof -
  have "nums_to_str (n # ns) \<noteq> []" for n ns using nat_digits_nonempty by (simp add: nums_to_str_def)
  then show ?thesis
    by (simp add: kv_json_ok_def number_kv_json_def read_nums_to_str read_pairs_nums map_of_map_pairs)
qed

end
