(* ===== verification/Counter.thy ===== *)
theory Counter
  imports State_Machine
begin

text \<open>
  The counter state machine, \<open>raftust-core-state-machine-counter/src/lib.rs\<close>: commands
  \<open>inc\<close>, \<open>dec\<close>, \<open>reset\<close>, \<open>add n\<close>, \<open>set n\<close> on an \<open>i64\<close> with saturating addition, and its decimal
  snapshot. The texts of the standard library's errors are not modelled; the two failures of
  \<open>restore\<close> keep the prefixes of the code's messages.
\<close>

record counter_state_machine =
  csm_value :: int

datatype counter_command = Add int | SetTo int | Reset

definition counter_new :: counter_state_machine where
  "counter_new = \<lparr>csm_value = 0\<rparr>"

definition saturating_add :: "int \<Rightarrow> int \<Rightarrow> int" where
  "saturating_add a b = max i64_min (min i64_max (a + b))"

definition counter_parse_command :: "str \<Rightarrow> counter_command option" where
  "counter_parse_command raw =
     (let trimmed = trim raw in
      if trimmed = [] then None
      else if eq_ignore_ascii_case trimmed (lit ''inc'') then Some (Add 1)
      else if eq_ignore_ascii_case trimmed (lit ''dec'') then Some (Add (- 1))
      else if eq_ignore_ascii_case trimmed (lit ''reset'') then Some Reset
      else case strip_prefix (lit ''add '') trimmed of
        Some delta \<Rightarrow> map_option Add (parse_i64 (trim delta))
      | None \<Rightarrow>
          (case strip_prefix (lit ''set '') trimmed of
             Some value \<Rightarrow> map_option SetTo (parse_i64 (trim value))
           | None \<Rightarrow> None))"

definition counter_apply :: "counter_state_machine \<Rightarrow> str \<Rightarrow> counter_state_machine" where
  "counter_apply sm raw =
     (case counter_parse_command raw of
        Some (Add delta) \<Rightarrow> sm\<lparr>csm_value := saturating_add (csm_value sm) delta\<rparr>
      | Some (SetTo value) \<Rightarrow> sm\<lparr>csm_value := value\<rparr>
      | Some Reset \<Rightarrow> sm\<lparr>csm_value := 0\<rparr>
      | None \<Rightarrow> sm)"

definition counter_describe :: "counter_state_machine \<Rightarrow> str" where
  "counter_describe sm = lit ''counter='' @ i64_to_string (csm_value sm)"

definition counter_snapshot :: "counter_state_machine \<Rightarrow> bytes" where
  "counter_snapshot sm = into_bytes (i64_to_string (csm_value sm))"

definition counter_restore ::
  "counter_state_machine \<Rightarrow> bytes \<Rightarrow> counter_state_machine \<times> (str + unit)" where
  "counter_restore sm snapshot =
     (if snapshot = [] then (sm\<lparr>csm_value := 0\<rparr>, Inr ())
      else case from_utf8 snapshot of
        None \<Rightarrow> (sm, Inl (lit ''utf8 snapshot: ''))
      | Some raw \<Rightarrow>
          (case parse_i64 raw of
             None \<Rightarrow> (sm, Inl (lit ''parse counter snapshot: ''))
           | Some v \<Rightarrow> (sm\<lparr>csm_value := v\<rparr>, Inr ())))"

definition counter_ops :: "counter_state_machine state_machine_ops" where
  "counter_ops = \<lparr>sm_apply = counter_apply, sm_snapshot = counter_snapshot, sm_restore = counter_restore\<rparr>"

subsection \<open>The value stays an \<open>i64\<close>, and the snapshot carries it exactly\<close>

definition counter_ok :: "counter_state_machine \<Rightarrow> bool" where
  "counter_ok sm \<longleftrightarrow> i64_min \<le> csm_value sm \<and> csm_value sm \<le> i64_max"

lemma i64_range: "i64_min \<le> 0" "0 \<le> i64_max" "i64_min \<le> i64_max"
  by (simp_all add: i64_min_def i64_max_def)

lemma saturating_add_range: "i64_min \<le> saturating_add a b \<and> saturating_add a b \<le> i64_max"
  using i64_range by (simp add: saturating_add_def)

lemma counter_parse_set_range:
  "counter_parse_command raw = Some (SetTo v) \<Longrightarrow> i64_min \<le> v \<and> v \<le> i64_max"
  by (auto simp: counter_parse_command_def Let_def dest!: parse_i64_bound split: if_splits option.splits)

lemma counter_apply_ok: "counter_ok sm \<Longrightarrow> counter_ok (counter_apply sm c)"
  using saturating_add_range counter_parse_set_range [of c] i64_range
  by (auto simp: counter_ok_def counter_apply_def split: option.splits counter_command.splits)

lemma counter_restore_snapshot:
  assumes "counter_ok sm"
  shows "counter_restore sm' (counter_snapshot sm) = (sm, Inr ())"
proof -
  have "i64_to_string (csm_value sm) \<noteq> []"
    using nat_digits_nonempty by (simp add: i64_to_string_def)
  moreover have "parse_i64 (i64_to_string (csm_value sm)) = Some (csm_value sm)"
    using assms by (simp add: parse_i64_to_string counter_ok_def)
  ultimately show ?thesis
    by (simp add: counter_restore_def counter_snapshot_def into_bytes_ascii i64_to_string_ascii from_utf8_ascii)
qed

lemma counter_failed_restore: "counter_restore sm b = (sm', Inl e) \<Longrightarrow> sm' = sm"
  by (auto simp: counter_restore_def split: if_splits option.splits)

interpretation counter: state_machine counter_apply counter_snapshot counter_restore counter_ok
  by unfold_locales (auto simp: counter_apply_ok counter_restore_snapshot dest: counter_failed_restore)

text \<open>The counter is not replayable: an increment applied again counts again.\<close>

lemma counter_inc_parses: "counter_parse_command (lit ''inc'') = Some (Add 1)"
  by (simp add: counter_parse_command_def trim_def lit_def is_whitespace_def eq_ignore_ascii_case_def)

lemma counter_inc: "csm_value sm < i64_max \<Longrightarrow> i64_min \<le> csm_value sm \<Longrightarrow>
    counter_apply sm (lit ''inc'') = sm\<lparr>csm_value := csm_value sm + 1\<rparr>"
  by (simp add: counter_apply_def counter_inc_parses saturating_add_def)

end
