(* ===== verification/Store_Properties.thy ===== *)
theory Store_Properties
  imports Codec Counter Config
begin

text \<open>
  The properties of the state machines, the storages and the configuration. Each is followed by a
  witness that applies it to a concrete input.
\<close>

subsection \<open>Inputs of the witnesses\<close>

definition sample_snapshot :: "node_id \<Rightarrow> term_no \<Rightarrow> storage_snapshot" where
  "sample_snapshot i t =
     \<lparr>ss_node_id = i, ss_current_term = t, ss_voted_for = Some i,
      ss_log = [\<lparr>le_term = t, le_command = lit ''inc''\<rparr>], ss_commit_index = 1,
      ss_last_included_index = 0, ss_last_included_term = 0, ss_state_machine_snapshot = [48]\<rparr>"

lemma sample_snapshot_id [simp]: "ss_node_id (sample_snapshot i t) = i"
  by (simp add: sample_snapshot_def)

definition sample_storage :: file_storage where
  "sample_storage = file_storage_new [lit ''data'']"

definition sample_disk :: disk where
  "sample_disk = \<lparr>fd_dirs = [], fd_files = [], fd_unreadable = [], fd_faults = []\<rparr>"

definition short_config :: raft_config where
  "short_config =
     \<lparr>cfg_id = 1, cfg_addr = lit ''127.0.0.1:5001'', cfg_peer_addrs = [(2, lit ''127.0.0.1:5002'')],
      cfg_election_timeout_min_ticks = 10, cfg_election_timeout_max_ticks = 20,
      cfg_heartbeat_interval_ticks = 4, cfg_tick_ms = 100, cfg_log_compaction_threshold = 128,
      cfg_report_metrics_interval_ticks = 100\<rparr>"

lemma short_config_ok: "config_ok short_config" "config_u64 short_config"
  by (simp_all add: short_config_def config_ok_def config_u64_def hm_ok_def hm_keys_def u64_limit_def)

lemma sample_disk_good: "file_good number_json (sample_storage, sample_disk)"
  by (simp add: file_good_def number_json_ok disk_clean_def sample_disk_def)

lemma sample_load: "file_load J (s, sample_disk) i = None"
  by (simp add: file_load_def load_snapshot_file_def fs_read_to_string_def sample_disk_def)

subsection \<open>Helper lemmas\<close>

lemma inc_run:
  assumes "counter_ok sm"
  shows "csm_value (sm_run counter_apply (replicate k (lit ''inc'')) sm) = min i64_max (csm_value sm + int k)"
  using assms
proof (induction k arbitrary: sm)
  case 0
  then show ?case by (simp add: counter_ok_def)
next
  case (Suc k)
  have "counter_apply sm (lit ''inc'') = sm\<lparr>csm_value := saturating_add (csm_value sm) 1\<rparr>"
    by (simp add: counter_apply_def counter_inc_parses)
  moreover have "saturating_add (csm_value sm) 1 = min i64_max (csm_value sm + 1)"
    using Suc.prems by (simp add: saturating_add_def counter_ok_def i64_min_def)
  moreover have "counter_ok (counter_apply sm (lit ''inc''))" by (rule counter_apply_ok [OF Suc.prems])
  ultimately show ?case using Suc.IH [of "counter_apply sm (lit ''inc'')"] by simp
qed

text \<open>\<open>set k v\<close> is read as it was written when the key has no space and the value has no space at its end.\<close>

lemma kv_parse_set:
  assumes "32 \<notin> set k" and "k \<noteq> []" and "v \<noteq> []" and "\<not> is_whitespace (last v)"
  shows "kv_parse_command (lit ''set '' @ k @ 32 # v) = Some (SetKey k v)"
proof -
  have "trim (lit ''set '' @ k @ 32 # v) = lit ''set '' @ k @ 32 # v"
    using assms by (intro trim_id) (simp add: lit_def is_whitespace_def)
  moreover have "lit ''set '' @ k @ 32 # v \<noteq> []" by simp
  ultimately show ?thesis
    using assms split_once_Some_iff [of 32 "k @ 32 # v" k v] by (simp add: kv_parse_command_def Let_def)
qed

subsection \<open>The counter\<close>

text \<open>
  C35. The counter is an \<open>i64\<close> that saturates. Whatever commands are applied, in any order, its value
  stays between \<open>i64::MIN\<close> and \<open>i64::MAX\<close>, and \<open>k\<close> increments add \<open>k\<close> unless that passes the maximum,
  where the value stays. Its snapshot restores exactly that value into any counter, and a snapshot that
  cannot be read leaves the counter as it is.
\<close>

theorem counter_saturates:
  assumes "counter_ok sm"
  shows "counter_ok (sm_run counter_apply cs sm) \<and>
    csm_value (sm_run counter_apply (replicate k (lit ''inc'')) sm) = min i64_max (csm_value sm + int k) \<and>
    counter_restore sm2 (counter_snapshot (sm_run counter_apply cs sm)) = (sm_run counter_apply cs sm, Inr ()) \<and>
    (\<forall>b sm3 e. counter_restore sm2 b = (sm3, Inl e) \<longrightarrow> sm3 = sm2)"
  using assms inc_run counter.good_run counter_restore_snapshot counter_failed_restore by blast

theorem counter_saturates_witness:
  "csm_value (sm_run counter_apply (replicate 5 (lit ''inc'')) \<lparr>csm_value = 9223372036854775805\<rparr>) = 9223372036854775807"
proof -
  have "counter_ok \<lparr>csm_value = 9223372036854775805\<rparr>" by (simp add: counter_ok_def i64_min_def i64_max_def)
  from counter_saturates [OF this, where cs = "[]" and k = 5] show ?thesis by (simp add: i64_max_def)
qed

subsection \<open>The key-value store\<close>

text \<open>
  C36. The key-value store is last write wins. After any commands a key has the value of the last one that
  wrote it, none if that deleted it, and its old value if no command did; \<open>set k v\<close> writes \<open>v\<close> under
  \<open>k\<close> for every key without a space and every non-empty value that does not end in white space.
\<close>

theorem key_value_last_write:
  assumes "32 \<notin> set k" and "k \<noteq> []" and "v \<noteq> []" and "\<not> is_whitespace (last v)"
  shows "kv_map (sm_run kv_apply cs sm) j = (case last_write cs j of None \<Rightarrow> kv_map sm j | Some w \<Rightarrow> w) \<and>
    kv_map (sm_run kv_apply (cs @ [lit ''set '' @ k @ 32 # v]) sm) = (kv_map (sm_run kv_apply cs sm))(k \<mapsto> v)"
  by (simp add: kv_run_lookup kv_apply_def kv_parse_set [OF assms])

theorem key_value_last_write_witness:
  "kv_map (sm_run kv_apply ([lit ''set k 1''] @ [lit ''set '' @ lit ''k'' @ 32 # lit ''two words'']) kv_new) (lit ''k'') =
     Some (lit ''two words'')"
proof -
  have a: "32 \<notin> set (lit ''k'')" "lit ''k'' \<noteq> []" "lit ''two words'' \<noteq> []" "\<not> is_whitespace (last (lit ''two words''))"
    by (simp_all add: lit_def is_whitespace_def)
  show ?thesis using key_value_last_write [OF a, of "[lit ''set k 1'']" kv_new] by simp
qed

text \<open>
  C37. Snapshots of the key-value store. Restoring the snapshot of a store, whatever store it is loaded
  into, and applying the commands after it gives the store that never stopped; so does applying once
  more a suffix of the commands that the snapshot already holds. A failed restore changes nothing.
\<close>

theorem key_value_snapshot:
  assumes "kv_json_ok J" and "finite (dom (kv_map sm))"
  shows "sm_run kv_apply ys (fst (kv_restore J sm2 (kv_snapshot J (sm_run kv_apply xs sm)))) = sm_run kv_apply (xs @ ys) sm \<and>
    sm_run kv_apply ys (fst (kv_restore J sm2 (kv_snapshot J (sm_run kv_apply (xs @ ys) sm)))) = sm_run kv_apply (xs @ ys) sm \<and>
    (\<forall>b sm3 e. kv_restore J sm2 b = (sm3, Inl e) \<longrightarrow> sm3 = sm2)"
proof -
  have "kv_ok J sm" using assms by (simp add: kv_ok_def)
  then show ?thesis using kv.restore_then_replay kv.restore_then_reapply kv_failed_restore by blast
qed

theorem key_value_snapshot_witness:
  "fst (kv_restore number_kv_json kv_new (kv_snapshot number_kv_json (sm_run kv_apply [lit ''set a 1''] kv_new))) =
     sm_run kv_apply [lit ''set a 1''] kv_new"
  using key_value_snapshot [OF number_kv_json_ok, of kv_new "[]" kv_new "[lit ''set a 1'']"] by (simp add: kv_new_def)

subsection \<open>The file storage\<close>

text \<open>
  C27. A save is atomic. Whichever call of a save fails (creating the directory or the file, writing,
  syncing, renaming, with any part of the bytes written), every node still loads what it loaded before;
  a save that reports success is loaded back exactly, and changes what is loaded under no other id.
\<close>

theorem file_save_atomic:
  assumes "save_snapshot_file J s x flt d = (d', r)" and "snapshot_json_ok J"
    and "snapshot_path s (ss_node_id x) \<notin> set (fd_unreadable d)"
  shows "load_snapshot_file J s i d' =
    (if r = Inr () \<and> i = ss_node_id x then Some x else load_snapshot_file J s i d)"
proof (cases r)
  case (Inl e)
  then show ?thesis using failed_save_load assms(1) by simp
next
  case (Inr u)
  then have s: "save_snapshot_file J s x flt d = (d', Inr ())" using assms(1) by simp
  show ?thesis using successful_save_load [OF s assms(2,3)] successful_save_load_other [OF s] Inr by auto
qed

theorem file_save_atomic_witness:
  "\<exists>d1 d2 e. save_snapshot_file number_json sample_storage (sample_snapshot 1 1) No_Fault sample_disk = (d1, Inr ()) \<and>
     save_snapshot_file number_json sample_storage (sample_snapshot 1 2) (Fail_Write 7 (lit ''full'')) d1 = (d2, Inl e) \<and>
     load_snapshot_file number_json sample_storage 1 d2 = Some (sample_snapshot 1 1)"
proof -
  have c: "disk_clean sample_storage sample_disk" using sample_disk_good by (simp add: file_good_def)
  obtain d1 where d1: "save_snapshot_file number_json sample_storage (sample_snapshot 1 1) No_Fault sample_disk = (d1, Inr ())"
    using clean_save_succeeds [OF number_json_ok c] by blast
  obtain d2 r where d2: "save_snapshot_file number_json sample_storage (sample_snapshot 1 2) (Fail_Write 7 (lit ''full'')) d1 = (d2, r)"
    by fastforce
  have u: "fd_unreadable d1 = []" using successful_save_writes(3) [OF d1] by (simp add: sample_disk_def)
  have "r \<noteq> Inr ()"
  proof
    assume "r = Inr ()"
    then have "save_snapshot_file number_json sample_storage (sample_snapshot 1 2) (Fail_Write 7 (lit ''full'')) d1 = (d2, Inr ())"
      using d2 by simp
    then show False by (auto simp: save_snapshot_file_def io_defs Let_def io_then_def split: if_splits prod.splits sum.splits)
  qed
  then obtain e where e: "r = Inl e" by (cases r) auto
  have "load_snapshot_file number_json sample_storage 1 d1 = Some (sample_snapshot 1 1)"
    using file_save_atomic [OF d1 number_json_ok, of 1] by (simp add: sample_disk_def)
  then have "load_snapshot_file number_json sample_storage 1 d2 = Some (sample_snapshot 1 1)"
    using file_save_atomic [OF d2 number_json_ok, of 1] e u by simp
  then show ?thesis using d1 d2 e by blast
qed

text \<open>
  C28. The two storages are the same map. After any sequence of saves on a disk without faults, a node
  loads from the file storage what it loads from the in-memory storage after the same saves: the last
  snapshot saved under its id.
\<close>

theorem storages_agree:
  assumes "file_good J w" and "\<forall>i. file_load J w i = None"
  shows "file_load J (fold (file_save J) xs w) i = in_memory_load (fold in_memory_save xs in_memory_new) i \<and>
    file_load J (fold (file_save J) xs w) i =
      (case filter (\<lambda>x. ss_node_id x = i) (rev xs) of x # _ \<Rightarrow> Some x | [] \<Rightarrow> None)"
proof -
  have "in_memory_ok in_memory_new"
    by (simp add: in_memory_ok_def in_memory_new_def in_memory_load_def hm_ok_def)
  moreover have "in_memory_load in_memory_new i = None" by (simp add: in_memory_new_def in_memory_load_def)
  ultimately show ?thesis
    using assms by (simp add: file_store.load_after_saves in_memory.load_after_saves cong: list.case_cong)
qed

theorem storages_agree_witness:
  "file_load number_json (fold (file_save number_json) [sample_snapshot 1 1, sample_snapshot 2 5, sample_snapshot 1 2]
     (sample_storage, sample_disk)) 1 = Some (sample_snapshot 1 2)"
  using storages_agree [OF sample_disk_good, of "[sample_snapshot 1 1, sample_snapshot 2 5, sample_snapshot 1 2]" 1]
  by (simp add: sample_load in_memory_load_save)

subsection \<open>The configuration\<close>

text \<open>
  C38. The command line. A configuration that \<open>parse_config\<close> accepts satisfies all its checks (one
  address per peer, no peer with the node's own id, \<open>0 < min \<le> max\<close> for the election timeout, a
  heartbeat interval below it, a positive compaction threshold), and a node is made from it that
  satisfies the invariant of \<open>RaftNode\<close>. Conversely every such configuration can be given: the
  arguments that spell it out are accepted and parsed to it.
\<close>

theorem config_accepted:
  assumes "gen_range_ok rng" and "config_ok c" and "config_u64 c"
  shows "parse_config (config_args c) = Inr c \<and>
    (\<forall>args c2. parse_config args = Inr c2 \<longrightarrow> config_ok c2 \<and> config_u64 c2 \<and>
       (\<exists>n. node_of_config rng k c2 = Some n \<and> node_inv n))"
  using parse_config_args [OF assms(2,3)] parse_config_Inr node_of_config_total node_of_config_inv [OF assms(1)] by blast

theorem config_accepted_witness:
  "parse_config [lit ''--id'', lit ''1'', lit ''--addr'', lit ''127.0.0.1:5001'', lit ''--peer'', lit ''2=127.0.0.1:5002'',
     lit ''--election-timeout-min'', lit ''10'', lit ''--election-timeout-max'', lit ''20'',
     lit ''--heartbeat-interval'', lit ''4'', lit ''--tick-ms'', lit ''100'',
     lit ''--log-compaction-threshold'', lit ''128'', lit ''--report-metrics-interval'', lit ''100''] = Inr short_config"
proof -
  have "gen_range_ok (\<lambda>k lo hi. lo)" by (simp add: gen_range_ok_def)
  from config_accepted [OF this short_config_ok]
  have "parse_config (config_args short_config) = Inr short_config" by blast
  moreover have "config_args short_config =
      [lit ''--id'', lit ''1'', lit ''--addr'', lit ''127.0.0.1:5001'', lit ''--peer'', lit ''2=127.0.0.1:5002'',
       lit ''--election-timeout-min'', lit ''10'', lit ''--election-timeout-max'', lit ''20'',
       lit ''--heartbeat-interval'', lit ''4'', lit ''--tick-ms'', lit ''100'',
       lit ''--log-compaction-threshold'', lit ''128'', lit ''--report-metrics-interval'', lit ''100'']"
    by (simp add: config_args_def short_config_def peer_args_def number_args_def u64_to_string_def nat_digits.simps lit_def)
  ultimately show ?thesis by simp
qed

end
