(* ===== verification/Transport.thy ===== *)
theory Transport
  imports Runner_Inv
begin

text \<open>
  The contract between the runner and a transport that queues its inbound messages: a poll that returns
  a message takes at least one element off the queue, and sending does not refill it. Under it the loop
  of \<open>process_communication\<close> ends. \<open>poll_loop\<close> is that loop with a bound on its turns; it tells a panic
  of a handler (\<open>Some None\<close>) from running out of turns (\<open>None\<close>).
\<close>

fun poll_loop ::
  "nat \<Rightarrow> ('c, 's, 'm) runner_env \<Rightarrow> ('c, 's, 'm) runner \<Rightarrow>
     (('c, 's, 'm) runner \<times> (communication_error + unit)) option option" where
  "poll_loop 0 E r = None"
| "poll_loop (Suc k) E r =
     (case co_poll (en_communication E) (r_communication r) of
        (c, Inl err) \<Rightarrow> Some (Some (r\<lparr>r_communication := c\<rparr>, Inl err))
      | (c, Inr None) \<Rightarrow> Some (Some (r\<lparr>r_communication := c\<rparr>, Inr ()))
      | (c, Inr (Some msg)) \<Rightarrow>
          (case process_message E msg (r\<lparr>r_communication := c\<rparr>) of
             None \<Rightarrow> Some None
           | Some r' \<Rightarrow> poll_loop k E r'))"

lemma poll_loop_correct: "poll_loop k E r = Some x \<Longrightarrow> process_communication E r = x"
proof (induction k E r rule: poll_loop.induct)
  case (2 k E r)
  obtain c res where p: "co_poll (en_communication E) (r_communication r) = (c, res)" by fastforce
  show ?case
  proof (cases res)
    case (Inl err)
    then show ?thesis using 2 p by (simp add: process_communication.simps [of E r])
  next
    case (Inr m)
    show ?thesis
    proof (cases m)
      case None
      then show ?thesis using 2 p Inr by (simp add: process_communication.simps [of E r])
    next
      case (Some msg)
      show ?thesis
      proof (cases "process_message E msg (r\<lparr>r_communication := c\<rparr>)")
        case None
        then show ?thesis using 2 p Inr Some by (simp add: process_communication.simps [of E r])
      next
        case (Some r')
        then have "process_communication E r' = x"
          using "2.IH" [OF p [symmetric] Inr \<open>m = Some msg\<close> Some] "2.prems" p Inr \<open>m = Some msg\<close> by simp
        then show ?thesis using p Inr \<open>m = Some msg\<close> Some by (simp add: process_communication.simps [of E r])
      qed
    qed
  qed
qed simp

text \<open>A handler reaches the transport only through \<open>send\<close>.\<close>

lemma process_message_sends:
  assumes "process_message E msg r = Some r'"
  shows "\<exists>ms. r_communication r' = send_all E ms (r_communication r)"
proof -
  have eta: "process_message E \<lparr>im_from = im_from msg, im_message = im_message msg\<rparr> r = Some r'"
    using assms by (cases msg) simp
  show ?thesis
  proof (cases "installs_snapshot (Received (im_from msg) (im_message msg))")
    case False
    then show ?thesis using handled_message [OF eta] unfolding handled_def by blast
  next
    case True
    then obtain req k where "on_install_snapshot E (im_from msg) req (r\<lparr>r_inbound_count := k\<rparr>) = Some r'"
      using assms by (cases "im_message msg") (auto simp: process_message_def bind_Some_iff Let_def)
    then obtain reply q where "send_or_log E (im_from msg) reply q = Some r'" "r_communication q = r_communication r"
      by (auto simp: on_install_snapshot_def Let_def bind_Some_iff split: if_splits prod.splits sum.splits)
    then have "r_communication r' = send_all E [(im_from msg, reply)] (r_communication r)"
      by (auto dest!: send_or_log_effect)
    then show ?thesis by blast
  qed
qed

locale queued_transport =
  fixes poll :: "'c \<Rightarrow> 'c \<times> (communication_error + inbound_message option)"
    and send :: "node_id \<Rightarrow> raft_message \<Rightarrow> 'c \<Rightarrow> 'c \<times> send_outcome"
    and pending :: "'c \<Rightarrow> nat"
  assumes poll_takes: "poll c = (c', Inr (Some msg)) \<Longrightarrow> pending c' < pending c"
    and send_keeps: "pending (fst (send to m c)) = pending c"
begin

lemma pending_send_all:
  "co_send (en_communication E) = send \<Longrightarrow> pending (send_all E ms c) = pending c"
proof (induction ms arbitrary: c)
  case (Cons x ms)
  obtain to msg where x: "x = (to, msg)" by fastforce
  show ?case unfolding x using Cons send_keeps [of to msg c] by simp
qed simp

lemma poll_loop_ends:
  assumes "co_poll (en_communication E) = poll" and "co_send (en_communication E) = send"
  shows "pending (r_communication r) < k \<Longrightarrow> \<exists>x. poll_loop k E r = Some x"
proof (induction k arbitrary: r)
  case (Suc k)
  obtain c res where p: "poll (r_communication r) = (c, res)" by fastforce
  show ?case
  proof (cases "\<exists>msg. res = Inr (Some msg)")
    case True
    then obtain msg where m: "res = Inr (Some msg)" by blast
    show ?thesis
    proof (cases "process_message E msg (r\<lparr>r_communication := c\<rparr>)")
      case None
      then show ?thesis using p m assms by simp
    next
      case (Some r')
      obtain ms where "r_communication r' = send_all E ms c" using process_message_sends [OF Some] by auto
      then have "pending (r_communication r') < k"
        using pending_send_all [OF assms(2), of ms c] poll_takes p m Suc.prems by fastforce
      then show ?thesis using Suc.IH p m assms(1) Some by simp
    qed
  next
    case False
    then show ?thesis using p assms(1) by (auto split: sum.splits option.splits)
  qed
qed simp

lemma process_communication_ends:
  assumes "co_poll (en_communication E) = poll" and "co_send (en_communication E) = send"
  shows "poll_loop (Suc (pending (r_communication r))) E r = Some (process_communication E r)"
proof -
  obtain x where x: "poll_loop (Suc (pending (r_communication r))) E r = Some x"
    using poll_loop_ends [OF assms, of r "Suc (pending (r_communication r))"] by auto
  then show ?thesis using poll_loop_correct [OF x] by simp
qed

end

end
