(* ===== verification/Wire.thy ===== *)
theory Wire
  imports Types
begin

text \<open>
  The JSON wire format of the HTTPS transport, \<open>raftust-core-comm-https/src/wire.rs\<close>: a message with
  its sender and recipient. Responses lose their own \<open>from\<close> field on the wire and get the sender of
  the envelope back.
\<close>

record wire_log_entry =
  wle_term :: term_no
  wle_command :: str

text \<open>The fields of a constructor in the order of the source.\<close>

datatype wire_payload =
    WireRequestVote term_no node_id nat term_no
  | WireRequestVoteResponse term_no bool
  | WireAppendEntries term_no node_id nat term_no "wire_log_entry list" nat
  | WireAppendEntriesResponse term_no bool nat
  | WireInstallSnapshot term_no node_id nat term_no bytes
  | WireInstallSnapshotResponse term_no bool

record wire_message =
  wm_from :: node_id
  wm_to :: node_id
  wm_payload :: wire_payload

definition message_to_wire :: "node_id \<Rightarrow> node_id \<Rightarrow> raft_message \<Rightarrow> wire_message" where
  "message_to_wire sender to message =
     \<lparr>wm_from = sender, wm_to = to, wm_payload =
       (case message of
          RequestVote m \<Rightarrow>
            WireRequestVote (rv_term m) (rv_candidate_id m) (rv_last_log_index m) (rv_last_log_term m)
        | RequestVoteResponse m \<Rightarrow> WireRequestVoteResponse (rvr_term m) (rvr_vote_granted m)
        | AppendEntries m \<Rightarrow>
            WireAppendEntries (ae_term m) (ae_leader_id m) (ae_prev_log_index m) (ae_prev_log_term m)
              (map (\<lambda>e. \<lparr>wle_term = le_term e, wle_command = le_command e\<rparr>) (ae_entries m)) (ae_leader_commit m)
        | AppendEntriesResponse m \<Rightarrow>
            WireAppendEntriesResponse (aer_term m) (aer_success m) (aer_match_index m)
        | InstallSnapshot m \<Rightarrow>
            WireInstallSnapshot (is_term m) (is_leader_id m) (is_last_included_index m)
              (is_last_included_term m) (is_data m)
        | InstallSnapshotResponse m \<Rightarrow> WireInstallSnapshotResponse (isr_term m) (isr_success m))\<rparr>"

definition wire_to_message :: "wire_message \<Rightarrow> inbound_message" where
  "wire_to_message msg =
     \<lparr>im_from = wm_from msg, im_message =
       (case wm_payload msg of
          WireRequestVote t candidate last_index last_term \<Rightarrow>
            RequestVote \<lparr>rv_term = t, rv_candidate_id = candidate, rv_last_log_index = last_index,
                         rv_last_log_term = last_term\<rparr>
        | WireRequestVoteResponse t vote_granted \<Rightarrow>
            RequestVoteResponse \<lparr>rvr_term = t, rvr_vote_granted = vote_granted, rvr_from = wm_from msg\<rparr>
        | WireAppendEntries t leader prev_index prev_term entries leader_commit \<Rightarrow>
            AppendEntries \<lparr>ae_term = t, ae_leader_id = leader, ae_prev_log_index = prev_index,
                           ae_prev_log_term = prev_term,
                           ae_entries = map (\<lambda>e. \<lparr>le_term = wle_term e, le_command = wle_command e\<rparr>) entries,
                           ae_leader_commit = leader_commit\<rparr>
        | WireAppendEntriesResponse t success match_index \<Rightarrow>
            AppendEntriesResponse \<lparr>aer_term = t, aer_success = success, aer_from = wm_from msg,
                                   aer_match_index = match_index\<rparr>
        | WireInstallSnapshot t leader last_index last_term data \<Rightarrow>
            InstallSnapshot \<lparr>is_term = t, is_leader_id = leader, is_last_included_index = last_index,
                             is_last_included_term = last_term, is_data = data\<rparr>
        | WireInstallSnapshotResponse t success \<Rightarrow>
            InstallSnapshotResponse \<lparr>isr_term = t, isr_from = wm_from msg, isr_success = success\<rparr>)\<rparr>"

text \<open>A message as it arrives from a given sender: responses name that sender.\<close>

definition with_sender :: "node_id \<Rightarrow> raft_message \<Rightarrow> raft_message" where
  "with_sender sender message =
     (case message of
        RequestVoteResponse m \<Rightarrow> RequestVoteResponse (m\<lparr>rvr_from := sender\<rparr>)
      | AppendEntriesResponse m \<Rightarrow> AppendEntriesResponse (m\<lparr>aer_from := sender\<rparr>)
      | InstallSnapshotResponse m \<Rightarrow> InstallSnapshotResponse (m\<lparr>isr_from := sender\<rparr>)
      | m \<Rightarrow> m)"

lemma entries_round_trip:
  "map (\<lambda>e. \<lparr>le_term = wle_term e, le_command = wle_command e\<rparr>)
     (map (\<lambda>e. \<lparr>wle_term = le_term e, wle_command = le_command e\<rparr>) es) = (es :: log_entry list)"
  by (simp add: comp_def map_idI)

lemma wire_round_trip:
  "wire_to_message (message_to_wire sender to m) = \<lparr>im_from = sender, im_message = with_sender sender m\<rparr>"
  by (cases m)
    (auto simp: wire_to_message_def message_to_wire_def with_sender_def comp_def map_idI)

end
