(* ===== verification/Https.thy ===== *)
theory Https
  imports Transport Wire Rust_Str
begin

text \<open>
  The HTTPS transport, \<open>raftust-core-comm-https/src/lib.rs\<close>. The web server, TLS and the client
  library are not part of the repository: what a POST of a message to a URL returns is the parameter
  \<open>post\<close>, the results of the library calls in \<open>start\<close> that may fail are \<open>https_setup\<close>, those of the
  listener's thread \<open>https_thread\<close>. The inbound channel is the queue of \<open>mpsc::sync_channel(256)\<close>; the
  field \<open>ch_open\<close> says whether a sender is left.
\<close>

text \<open>The receiving end of a bounded channel.\<close>

record 'a channel =
  ch_queue :: "'a list"
  ch_open :: bool

definition channel_bound :: nat where
  "channel_bound = 256"

text \<open>\<open>try_send\<close>: an error when the channel is full (the receiver lives as long as the runner).\<close>

definition try_send :: "'a \<Rightarrow> 'a channel \<Rightarrow> 'a channel option" where
  "try_send x ch = (if length (ch_queue ch) < channel_bound then Some (ch\<lparr>ch_queue := ch_queue ch @ [x]\<rparr>) else None)"

record https_communication =
  hc_local_id :: node_id
  hc_peer_urls :: "(node_id, str) hash_map"
  hc_inbound :: "wire_message channel option"
  hc_client :: bool

datatype http_result = Http_Status nat | Http_Error str

type_synonym http_post = "str \<Rightarrow> wire_message \<Rightarrow> http_result"

definition https_new :: "node_id \<Rightarrow> (node_id, str) hash_map \<Rightarrow> https_communication" where
  "https_new i peer_addrs =
     \<lparr>hc_local_id = i,
      hc_peer_urls = map (\<lambda>(p, addr). (p, lit ''https://'' @ addr @ lit ''/raft'')) peer_addrs,
      hc_inbound = None, hc_client = False\<rparr>"

text \<open>The handler of the listener: the answer is 200 even when the queue is full.\<close>

definition handle_raft :: "wire_message \<Rightarrow> wire_message channel \<Rightarrow> wire_message channel \<times> nat" where
  "handle_raft msg ch = (case try_send msg ch of Some ch \<Rightarrow> (ch, 200) | None \<Rightarrow> (ch, 200))"

subsection \<open>The listener\<close>

text \<open>
  What reaches the listener: the outcome of the steps that its thread makes first, each of which is an
  \<open>expect\<close>, a connection that is not accepted or whose TLS handshake fails, and a request, in the order
  in which requests are handled. A request is its method, path and body, \<open>None\<close> when it is no JSON of a message.
\<close>

record https_thread =
  ht_runtime :: "str + unit"
  ht_private_key :: "str + unit"
  ht_server_config :: "str + unit"
  ht_parse_address :: "str \<Rightarrow> str + unit"
  ht_bind :: "str \<Rightarrow> str + unit"

datatype https_event =
    Thread_Started https_thread str
  | Accept_Error str
  | Handshake_Error str
  | Http_Request str str "wire_message option"

fun expect_all :: "(str \<times> (str + unit)) list \<Rightarrow> str + unit" where
  "expect_all [] = Inr ()"
| "expect_all ((message, r) # rest) =
     (case r of Inl e \<Rightarrow> Inl (message @ lit '': '' @ e) | Inr _ \<Rightarrow> expect_all rest)"

definition https_thread_setup :: "https_thread \<Rightarrow> str \<Rightarrow> str + unit" where
  "https_thread_setup t listen_address =
     expect_all
       [(lit ''build tokio runtime for HTTPS server'', ht_runtime t),
        (lit ''valid private key'', ht_private_key t),
        (lit ''build TLS server config'', ht_server_config t),
        (lit ''parse listen address'', ht_parse_address t listen_address),
        (lit ''bind HTTPS listener'', ht_bind t listen_address)]"

text \<open>The router; \<open>None\<close> for a request that the web server refuses itself.\<close>

definition https_route ::
  "str \<Rightarrow> str \<Rightarrow> wire_message option \<Rightarrow> wire_message channel \<Rightarrow> wire_message channel \<times> nat option" where
  "https_route verb path body ch =
     (if verb = lit ''POST'' \<and> path = lit ''/raft'' then
        (case body of
           Some msg \<Rightarrow> (case handle_raft msg ch of (ch, status) \<Rightarrow> (ch, Some status))
         | None \<Rightarrow> (ch, None))
      else (ch, None))"

text \<open>A panic ends the thread and drops the sender; after that nothing is received any more.\<close>

definition https_listen :: "https_event \<Rightarrow> wire_message channel \<Rightarrow> wire_message channel" where
  "https_listen event ch =
     (if \<not> ch_open ch then ch
      else case event of
        Thread_Started t listen_address \<Rightarrow>
          (case https_thread_setup t listen_address of
             Inl panic \<Rightarrow> ch\<lparr>ch_open := False\<rparr>
           | Inr _ \<Rightarrow> ch)
      | Accept_Error e \<Rightarrow> ch
      | Handshake_Error e \<Rightarrow> ch
      | Http_Request verb path body \<Rightarrow> fst (https_route verb path body ch))"

definition https_arrive :: "https_event \<Rightarrow> https_communication \<Rightarrow> https_communication" where
  "https_arrive event c =
     (case hc_inbound c of None \<Rightarrow> c | Some ch \<Rightarrow> c\<lparr>hc_inbound := Some (https_listen event ch)\<rparr>)"

subsection \<open>The operations of the transport\<close>

text \<open>
  The provider of cryptography is installed once in a process: \<open>cell\<close> is the \<open>OnceLock\<close> with the
  result of the first time, the other arguments say which provider can be installed.
\<close>

definition ensure_rustls_provider_installed ::
  "bool \<Rightarrow> bool \<Rightarrow> (str + unit) option \<Rightarrow> (str + unit) option \<times> (str + unit)" where
  "ensure_rustls_provider_installed aws_lc_rs ring cell =
     (case cell of
        Some r \<Rightarrow> (cell, r)
      | None \<Rightarrow>
          let r = (if aws_lc_rs then Inr ()
                   else if ring then Inr ()
                   else Inl (lit ''failed to install a rustls crypto provider'')) in
          (Some r, r))"

lemma ensure_provider_simps [simp]:
  "ensure_rustls_provider_installed True ring None = (Some (Inr ()), Inr ())"
  "ensure_rustls_provider_installed aws_lc_rs ring (Some r) = (Some r, r)"
  by (simp_all add: ensure_rustls_provider_installed_def Let_def)

text \<open>
  \<open>start\<close>: provider and certificate may fail before the channel exists, the client after it; an error
  leaves both fields unset. The thread of the listener runs on its own.
\<close>

record https_setup =
  hs_provider_cell :: "(str + unit) option"
  hs_aws_lc_rs :: bool
  hs_ring :: bool
  hs_certificate :: "str + unit"
  hs_client :: "str + unit"

definition https_start ::
  "https_setup \<Rightarrow> str \<Rightarrow> https_communication \<Rightarrow> https_communication \<times> (communication_error + unit)" where
  "https_start setup address c =
     (case snd (ensure_rustls_provider_installed (hs_aws_lc_rs setup) (hs_ring setup) (hs_provider_cell setup)) of
        Inl e \<Rightarrow> (c, Inl (Other e))
      | Inr _ \<Rightarrow>
          (case hs_certificate setup of
             Inl e \<Rightarrow> (c, Inl (Other (lit ''cert generation: '' @ e)))
           | Inr _ \<Rightarrow>
               (case hs_client setup of
                  Inl e \<Rightarrow> (c, Inl (Other (lit ''build http client: '' @ e)))
                | Inr _ \<Rightarrow> (c\<lparr>hc_inbound := Some \<lparr>ch_queue = [], ch_open = True\<rparr>, hc_client := True\<rparr>, Inr ()))))"

definition https_poll ::
  "https_communication \<Rightarrow> https_communication \<times> (communication_error + inbound_message option)" where
  "https_poll c =
     (case hc_inbound c of
        None \<Rightarrow> (c, Inl NotStarted)
      | Some ch \<Rightarrow>
          (case ch_queue ch of
             msg # rest \<Rightarrow>
               (c\<lparr>hc_inbound := Some (ch\<lparr>ch_queue := rest\<rparr>)\<rparr>, Inr (Some (wire_to_message msg)))
           | [] \<Rightarrow> if ch_open ch then (c, Inr None) else (c, Inl Disconnected)))"

definition is_success :: "nat \<Rightarrow> bool" where
  "is_success status \<longleftrightarrow> 200 \<le> status \<and> status < 300"

definition https_send ::
  "http_post \<Rightarrow> node_id \<Rightarrow> raft_message \<Rightarrow> https_communication \<Rightarrow> https_communication \<times> send_outcome" where
  "https_send post to message c =
     (if \<not> hc_client c then (c, Dropped (lit ''not started''))
      else case hm_get (hc_peer_urls c) to of
        None \<Rightarrow> (c, Dropped (lit ''peer '' @ u64_to_string to @ lit '' not configured''))
      | Some url \<Rightarrow>
          (case post url (message_to_wire (hc_local_id c) to message) of
             Http_Status status \<Rightarrow>
               if is_success status then (c, Sent)
               else (c, Dropped (lit ''peer '' @ u64_to_string to @ lit '' returned HTTP '' @ u64_to_string status))
           | Http_Error e \<Rightarrow> (c, Dropped (lit ''send to peer '' @ u64_to_string to @ lit '': '' @ e))))"

definition https_ops :: "https_setup \<Rightarrow> http_post \<Rightarrow> https_communication communication_ops" where
  "https_ops setup post =
     \<lparr>co_start = https_start setup, co_poll = https_poll, co_send = https_send post\<rparr>"

definition https_pending :: "https_communication \<Rightarrow> nat" where
  "https_pending c = (case hc_inbound c of None \<Rightarrow> 0 | Some ch \<Rightarrow> length (ch_queue ch))"

lemma https_send_state [simp]: "fst (https_send post to m c) = c"
  by (simp add: https_send_def split: option.splits http_result.splits)

lemma https_poll_Some:
  "https_poll c = (c', Inr (Some m)) \<Longrightarrow>
     \<exists>ch msg rest. hc_inbound c = Some ch \<and> ch_queue ch = msg # rest \<and> m = wire_to_message msg \<and>
       c' = c\<lparr>hc_inbound := Some (ch\<lparr>ch_queue := rest\<rparr>)\<rparr>"
  by (auto simp: https_poll_def split: option.splits list.splits if_splits)

interpretation https: queued_transport https_poll "https_send post" https_pending for post
proof unfold_locales
  fix c c' msg
  assume "https_poll c = (c', Inr (Some msg))"
  from https_poll_Some [OF this] show "https_pending c' < https_pending c"
    by (auto simp: https_pending_def)
qed simp

end
