(* ===== verification/Grpc.thy ===== *)
theory Grpc
  imports Https
begin

text \<open>
  The gRPC transport, \<open>raftust-core-comm-grpc/src/lib.rs\<close> with the messages of
  \<open>proto/raft_transport.proto\<close>. Tonic and the network are not part of the repository: what a call
  of \<open>SendMessage\<close> at an endpoint returns is the parameter \<open>rpc\<close> (the error text includes connecting),
  the results of the library calls in \<open>start\<close> that may fail are \<open>grpc_setup\<close>, and what happens to
  the listener's thread is the events \<open>grpc_event\<close>.
\<close>

record proto_log_entry =
  pl_term :: nat
  pl_command :: str

datatype grpc_payload =
    PRequestVote nat nat nat nat
  | PRequestVoteResponse nat bool
  | PAppendEntries nat nat nat nat "proto_log_entry list" nat
  | PAppendEntriesResponse nat bool nat
  | PInstallSnapshot nat nat nat nat bytes
  | PInstallSnapshotResponse nat bool

record transport_envelope =
  te_from :: node_id
  te_to :: node_id
  te_payload :: "grpc_payload option"

record transport_ack =
  ta_accepted :: bool
  ta_error :: str

text \<open>Errors propagated by \<open>?\<close>.\<close>

definition and_then :: "'e + 'a \<Rightarrow> ('a \<Rightarrow> 'e + 'b) \<Rightarrow> 'e + 'b" where
  "and_then r f = (case r of Inl e \<Rightarrow> Inl e | Inr x \<Rightarrow> f x)"

lemma and_then_simps [simp]:
  "and_then (Inl e) f = Inl e"
  "and_then (Inr x) f = f x"
  by (simp_all add: and_then_def)

definition usize_to_u64 :: "nat \<Rightarrow> string \<Rightarrow> communication_error + nat" where
  "usize_to_u64 v field =
     (if v < u64_limit then Inr v else Inl (Other (lit field @ lit '' does not fit into u64'')))"

definition u64_to_usize :: "nat \<Rightarrow> string \<Rightarrow> communication_error + nat" where
  "u64_to_usize v field =
     (if v < u64_limit then Inr v else Inl (Other (lit field @ lit '' does not fit into usize'')))"

definition encode_payload :: "raft_message \<Rightarrow> communication_error + grpc_payload" where
  "encode_payload message =
     (case message of
        RequestVote m \<Rightarrow>
          and_then (usize_to_u64 (rv_last_log_index m) ''request_vote.last_log_index'') (\<lambda>last_log_index.
            Inr (PRequestVote (rv_term m) (rv_candidate_id m) last_log_index (rv_last_log_term m)))
      | RequestVoteResponse m \<Rightarrow> Inr (PRequestVoteResponse (rvr_term m) (rvr_vote_granted m))
      | AppendEntries m \<Rightarrow>
          and_then (usize_to_u64 (ae_prev_log_index m) ''append_entries.prev_log_index'') (\<lambda>prev_log_index.
          and_then (usize_to_u64 (ae_leader_commit m) ''append_entries.leader_commit'') (\<lambda>leader_commit.
            Inr (PAppendEntries (ae_term m) (ae_leader_id m) prev_log_index (ae_prev_log_term m)
                   (map (\<lambda>e. \<lparr>pl_term = le_term e, pl_command = le_command e\<rparr>) (ae_entries m)) leader_commit)))
      | AppendEntriesResponse m \<Rightarrow>
          and_then (usize_to_u64 (aer_match_index m) ''append_entries_response.match_index'') (\<lambda>match_index.
            Inr (PAppendEntriesResponse (aer_term m) (aer_success m) match_index))
      | InstallSnapshot m \<Rightarrow>
          and_then (usize_to_u64 (is_last_included_index m) ''install_snapshot.last_included_index'') (\<lambda>last_index.
            Inr (PInstallSnapshot (is_term m) (is_leader_id m) last_index (is_last_included_term m) (is_data m)))
      | InstallSnapshotResponse m \<Rightarrow> Inr (PInstallSnapshotResponse (isr_term m) (isr_success m)))"

definition encode_message :: "node_id \<Rightarrow> node_id \<Rightarrow> raft_message \<Rightarrow> communication_error + transport_envelope" where
  "encode_message sender to message =
     and_then (encode_payload message) (\<lambda>payload.
       Inr \<lparr>te_from = sender, te_to = to, te_payload = Some payload\<rparr>)"

definition decode_payload :: "node_id \<Rightarrow> grpc_payload \<Rightarrow> communication_error + raft_message" where
  "decode_payload sender payload =
     (case payload of
        PRequestVote t candidate last_index log_term \<Rightarrow>
          and_then (u64_to_usize last_index ''request_vote.last_log_index'') (\<lambda>last_log_index.
            Inr (RequestVote \<lparr>rv_term = t, rv_candidate_id = candidate, rv_last_log_index = last_log_index,
                              rv_last_log_term = log_term\<rparr>))
      | PRequestVoteResponse t vote_granted \<Rightarrow>
          Inr (RequestVoteResponse \<lparr>rvr_term = t, rvr_vote_granted = vote_granted, rvr_from = sender\<rparr>)
      | PAppendEntries t leader prev_index prev_term entries commit \<Rightarrow>
          and_then (u64_to_usize prev_index ''append_entries.prev_log_index'') (\<lambda>prev_log_index.
          and_then (u64_to_usize commit ''append_entries.leader_commit'') (\<lambda>leader_commit.
            Inr (AppendEntries \<lparr>ae_term = t, ae_leader_id = leader, ae_prev_log_index = prev_log_index,
                   ae_prev_log_term = prev_term,
                   ae_entries = map (\<lambda>e. \<lparr>le_term = pl_term e, le_command = pl_command e\<rparr>) entries,
                   ae_leader_commit = leader_commit\<rparr>)))
      | PAppendEntriesResponse t success match \<Rightarrow>
          and_then (u64_to_usize match ''append_entries_response.match_index'') (\<lambda>match_index.
            Inr (AppendEntriesResponse \<lparr>aer_term = t, aer_success = success, aer_from = sender,
                   aer_match_index = match_index\<rparr>))
      | PInstallSnapshot t leader last_index log_term data \<Rightarrow>
          and_then (u64_to_usize last_index ''install_snapshot.last_included_index'') (\<lambda>last_included_index.
            Inr (InstallSnapshot \<lparr>is_term = t, is_leader_id = leader,
                   is_last_included_index = last_included_index, is_last_included_term = log_term,
                   is_data = data\<rparr>))
      | PInstallSnapshotResponse t success \<Rightarrow>
          Inr (InstallSnapshotResponse \<lparr>isr_term = t, isr_from = sender, isr_success = success\<rparr>))"

definition decode_envelope :: "transport_envelope \<Rightarrow> communication_error + inbound_message" where
  "decode_envelope envelope =
     (case te_payload envelope of
        None \<Rightarrow> Inl (Other (lit ''missing gRPC payload''))
      | Some payload \<Rightarrow>
          and_then (decode_payload (te_from envelope) payload) (\<lambda>message.
            Inr \<lparr>im_from = te_from envelope, im_message = message\<rparr>))"

subsection \<open>The transport\<close>

record grpc_communication =
  gc_local_id :: node_id
  gc_peer_endpoints :: "(node_id, str) hash_map"
  gc_inbound :: "transport_envelope channel option"
  gc_runtime :: bool

type_synonym grpc_call = "str \<Rightarrow> transport_envelope \<Rightarrow> str + transport_ack"

definition grpc_new :: "node_id \<Rightarrow> (node_id, str) hash_map \<Rightarrow> grpc_communication" where
  "grpc_new i peer_addrs =
     \<lparr>gc_local_id = i, gc_peer_endpoints = map (\<lambda>(p, addr). (p, lit ''http://'' @ addr)) peer_addrs,
      gc_inbound = None, gc_runtime = False\<rparr>"

text \<open>The service behind the listener: a full queue is reported to the sender.\<close>

definition send_message :: "transport_envelope \<Rightarrow> transport_envelope channel \<Rightarrow> transport_envelope channel \<times> transport_ack" where
  "send_message request ch =
     (case try_send request ch of
        Some ch \<Rightarrow> (ch, \<lparr>ta_accepted = True, ta_error = []\<rparr>)
      | None \<Rightarrow>
          (ch, \<lparr>ta_accepted = False,
                ta_error = lit ''queue inbound message: sending on a full channel''\<rparr>))"

text \<open>
  The thread of the listener: building its runtime is an \<open>expect\<close>, the error that ends \<open>serve\<close> (such
  as an address in use) is only logged; either drops the service and with it the sender.
\<close>

datatype grpc_event =
    Runtime_Built "str + unit"
  | Serve_Failed str
  | Rpc transport_envelope

definition grpc_listen :: "grpc_event \<Rightarrow> transport_envelope channel \<Rightarrow> transport_envelope channel" where
  "grpc_listen event ch =
     (if \<not> ch_open ch then ch
      else case event of
        Runtime_Built r \<Rightarrow> (case r of Inl panic \<Rightarrow> ch\<lparr>ch_open := False\<rparr> | Inr _ \<Rightarrow> ch)
      | Serve_Failed err \<Rightarrow> ch\<lparr>ch_open := False\<rparr>
      | Rpc request \<Rightarrow> fst (send_message request ch))"

definition grpc_arrive :: "grpc_event \<Rightarrow> grpc_communication \<Rightarrow> grpc_communication" where
  "grpc_arrive event c =
     (case gc_inbound c of None \<Rightarrow> c | Some ch \<Rightarrow> c\<lparr>gc_inbound := Some (grpc_listen event ch)\<rparr>)"

record grpc_setup =
  gs_parse_address :: "str \<Rightarrow> str + unit"
  gs_spawn_thread :: "str + unit"
  gs_runtime :: "str + unit"

text \<open>Only the spawning of the thread is waited for.\<close>

definition grpc_spawn_listener :: "grpc_setup \<Rightarrow> communication_error + transport_envelope channel" where
  "grpc_spawn_listener setup =
     (case gs_spawn_thread setup of
        Inl err \<Rightarrow> Inl (Other (lit ''spawn listener: '' @ err))
      | Inr _ \<Rightarrow> Inr \<lparr>ch_queue = [], ch_open = True\<rparr>)"

definition grpc_start ::
  "grpc_setup \<Rightarrow> str \<Rightarrow> grpc_communication \<Rightarrow> grpc_communication \<times> (communication_error + unit)" where
  "grpc_start setup address c =
     (case gs_parse_address setup address of
        Inl e \<Rightarrow> (c, Inl (Other (lit ''parse listen address: '' @ e)))
      | Inr _ \<Rightarrow>
          (case grpc_spawn_listener setup of
             Inl err \<Rightarrow> (c, Inl err)
           | Inr ch \<Rightarrow>
               (case gs_runtime setup of
                  Inl e \<Rightarrow> (c, Inl (Other (lit ''build client runtime: '' @ e)))
                | Inr _ \<Rightarrow> (c\<lparr>gc_inbound := Some ch, gc_runtime := True\<rparr>, Inr ()))))"

text \<open>The loop of \<open>poll\<close>: envelopes for another node are dropped; what is left of the queue is returned.\<close>

fun next_envelope :: "node_id \<Rightarrow> transport_envelope list \<Rightarrow> transport_envelope option \<times> transport_envelope list" where
  "next_envelope i [] = (None, [])"
| "next_envelope i (e # es) = (if te_to e \<noteq> i then next_envelope i es else (Some e, es))"

definition grpc_poll ::
  "grpc_communication \<Rightarrow> grpc_communication \<times> (communication_error + inbound_message option)" where
  "grpc_poll c =
     (case gc_inbound c of
        None \<Rightarrow> (c, Inl NotStarted)
      | Some ch \<Rightarrow>
          (case next_envelope (gc_local_id c) (ch_queue ch) of
             (found, rest) \<Rightarrow>
               let c = c\<lparr>gc_inbound := Some (ch\<lparr>ch_queue := rest\<rparr>)\<rparr> in
               (case found of
                  Some e \<Rightarrow> (c, and_then (decode_envelope e) (\<lambda>m. Inr (Some m)))
                | None \<Rightarrow> if ch_open ch then (c, Inr None) else (c, Inl Disconnected))))"

definition communication_error_text :: "communication_error \<Rightarrow> str" where
  "communication_error_text e =
     (case e of
        NotStarted \<Rightarrow> lit ''communication is not started''
      | Disconnected \<Rightarrow> lit ''communication channel disconnected''
      | PeerNotConfigured peer \<Rightarrow> lit ''peer '' @ u64_to_string peer @ lit '' is not configured''
      | Other message \<Rightarrow> message)"

definition grpc_send ::
  "grpc_call \<Rightarrow> node_id \<Rightarrow> raft_message \<Rightarrow> grpc_communication \<Rightarrow> grpc_communication \<times> send_outcome" where
  "grpc_send rpc to message c =
     (case hm_get (gc_peer_endpoints c) to of
        None \<Rightarrow> (c, Dropped (lit ''peer '' @ u64_to_string to @ lit '' is not configured''))
      | Some endpoint \<Rightarrow>
          if \<not> gc_runtime c then (c, Dropped (lit ''communication is not started''))
          else (case encode_message (gc_local_id c) to message of
             Inl err \<Rightarrow> (c, Dropped (communication_error_text err))
           | Inr request \<Rightarrow>
               (case rpc endpoint request of
                  Inr ack \<Rightarrow>
                    if ta_accepted ack then (c, Sent)
                    else (c, Dropped (if ta_error ack = []
                                      then lit ''peer '' @ u64_to_string to @ lit '' rejected the message''
                                      else ta_error ack))
                | Inl err \<Rightarrow> (c, Dropped err))))"

definition grpc_ops :: "grpc_setup \<Rightarrow> grpc_call \<Rightarrow> grpc_communication communication_ops" where
  "grpc_ops setup rpc = \<lparr>co_start = grpc_start setup, co_poll = grpc_poll, co_send = grpc_send rpc\<rparr>"

subsection \<open>The round trip\<close>

text \<open>The indices of a message fit into 64 bits (always so for the code's own values).\<close>

definition indices_fit :: "raft_message \<Rightarrow> bool" where
  "indices_fit m =
     (case m of
        RequestVote m \<Rightarrow> rv_last_log_index m < u64_limit
      | AppendEntries m \<Rightarrow> ae_prev_log_index m < u64_limit \<and> ae_leader_commit m < u64_limit
      | AppendEntriesResponse m \<Rightarrow> aer_match_index m < u64_limit
      | InstallSnapshot m \<Rightarrow> is_last_included_index m < u64_limit
      | _ \<Rightarrow> True)"

lemma encode_message_ok: "(\<exists>e. encode_message s to m = Inr e) = indices_fit m"
  by (cases m) (auto simp: encode_message_def encode_payload_def usize_to_u64_def indices_fit_def and_then_def)

lemma grpc_round_trip:
  "encode_message s to m = Inr e \<Longrightarrow>
     te_from e = s \<and> te_to e = to \<and> decode_envelope e = Inr \<lparr>im_from = s, im_message = with_sender s m\<rparr>"
  by (cases m)
    (auto simp: encode_message_def encode_payload_def decode_envelope_def decode_payload_def usize_to_u64_def
      u64_to_usize_def with_sender_def comp_def map_idI split: if_splits)

subsection \<open>The queue\<close>

lemma next_envelope_spec:
  "next_envelope i es = (found, rest) \<Longrightarrow>
     (case found of
        None \<Rightarrow> rest = [] \<and> (\<forall>e \<in> set es. te_to e \<noteq> i)
      | Some e \<Rightarrow> te_to e = i \<and> (\<exists>skipped. es = skipped @ e # rest \<and> (\<forall>x \<in> set skipped. te_to x \<noteq> i)))"
proof (induction i es rule: next_envelope.induct)
  case (2 i e es)
  show ?case
  proof (cases "te_to e = i")
    case True
    then show ?thesis using 2 by (auto intro: exI [of _ "[]"])
  next
    case False
    then have IH: "case found of
        None \<Rightarrow> rest = [] \<and> (\<forall>e \<in> set es. te_to e \<noteq> i)
      | Some e \<Rightarrow> te_to e = i \<and> (\<exists>skipped. es = skipped @ e # rest \<and> (\<forall>x \<in> set skipped. te_to x \<noteq> i))"
      using 2 by simp
    show ?thesis
    proof (cases found)
      case None
      then show ?thesis using IH False by simp
    next
      case (Some f)
      then obtain sk where "es = sk @ f # rest" "\<forall>x \<in> set sk. te_to x \<noteq> i" "te_to f = i" using IH by auto
      then show ?thesis using Some False by (auto intro: exI [of _ "e # sk"])
    qed
  qed
qed simp

definition grpc_pending :: "grpc_communication \<Rightarrow> nat" where
  "grpc_pending c = (case gc_inbound c of None \<Rightarrow> 0 | Some ch \<Rightarrow> length (ch_queue ch))"

lemma grpc_send_state [simp]: "fst (grpc_send rpc to m c) = c"
  by (simp add: grpc_send_def split: option.splits sum.splits)

lemma grpc_poll_takes:
  assumes "grpc_poll c = (c', Inr (Some m))"
  shows "grpc_pending c' < grpc_pending c"
proof -
  obtain ch where ch: "gc_inbound c = Some ch" using assms by (cases "gc_inbound c") (auto simp: grpc_poll_def)
  obtain found rest where n: "next_envelope (gc_local_id c) (ch_queue ch) = (found, rest)" by fastforce
  obtain e where f: "found = Some e" and c': "c' = c\<lparr>gc_inbound := Some (ch\<lparr>ch_queue := rest\<rparr>)\<rparr>"
    using assms ch n by (cases found) (auto simp: grpc_poll_def Let_def split: if_splits)
  obtain sk where "ch_queue ch = sk @ e # rest" using next_envelope_spec [OF n] f by auto
  then show ?thesis using ch c' by (simp add: grpc_pending_def)
qed

interpretation grpc: queued_transport grpc_poll "grpc_send rpc" grpc_pending for rpc
  by unfold_locales (auto dest: grpc_poll_takes)

end
