(* ===== verification/Election.thy ===== *)
theory Election
  imports Runner_Inv
begin

text \<open>
  Elections seen from one node: what an event does to the term, the vote, the role and the votes
  received, as a step relation, and what the messages that it sends promise. \<open>react_election\<close> and
  \<open>react_messages\<close> show that every event of a runner is such a step.
\<close>

text \<open>
  The step relation on the four fields. \<open>newer\<close> is a step down to a higher term, \<open>yields\<close> the step
  down of a candidate or leader to the leader of its own term, in which it forgets its vote.
\<close>

inductive election_step :: "runner_event \<Rightarrow> raft_node \<Rightarrow> raft_node \<Rightarrow> bool" where
  keeps: "same_election n n' \<Longrightarrow> election_step ev n n'"
| newer: "current_term n < current_term n' \<Longrightarrow> voted_for n' = None \<Longrightarrow> role n' = Follower \<Longrightarrow>
    votes_received n' = {} \<Longrightarrow> election_step ev n n'"
| campaigns: "current_term n < current_term n' \<Longrightarrow> voted_for n' = Some (nid n) \<Longrightarrow> role n' = Candidate \<Longrightarrow>
    votes_received n' = {nid n} \<Longrightarrow> election_step ev n n'"
| votes: "ev = Received sender (RequestVote req) \<Longrightarrow> current_term n' = rv_term req \<Longrightarrow>
    current_term n < rv_term req \<and> role n' = Follower \<and> votes_received n' = {} \<or>
    current_term n = rv_term req \<and> voted_for n \<in> {None, Some (rv_candidate_id req)} \<and> role n' = role n \<and>
      votes_received n' = votes_received n \<Longrightarrow>
    voted_for n' = Some (rv_candidate_id req) \<Longrightarrow> election_step ev n n'"
| yields: "ev = Received sender (AppendEntries req) \<Longrightarrow> ae_term req = current_term n \<Longrightarrow> role n \<noteq> Follower \<Longrightarrow>
    current_term n' = current_term n \<Longrightarrow> voted_for n' = None \<Longrightarrow> role n' = Follower \<Longrightarrow>
    votes_received n' = {} \<Longrightarrow> election_step ev n n'"
| counts: "ev = Received sender (RequestVoteResponse resp) \<Longrightarrow> rvr_vote_granted resp \<Longrightarrow>
    rvr_term resp = current_term n \<Longrightarrow> role n = Candidate \<Longrightarrow> current_term n' = current_term n \<Longrightarrow>
    voted_for n' = voted_for n \<Longrightarrow> votes_received n' = insert (rvr_from resp) (votes_received n) \<Longrightarrow>
    role n' = Candidate \<or> role n' = Leader \<Longrightarrow> election_step ev n n'"
| wins: "role n = Candidate \<Longrightarrow> current_term n' = current_term n \<Longrightarrow> voted_for n' = voted_for n \<Longrightarrow>
    votes_received n' = votes_received n \<Longrightarrow> role n' = Leader \<Longrightarrow> election_step ev n n'"

text \<open>A change of the other fields afterwards does not matter.\<close>

lemma election_step_same:
  assumes "election_step ev n k" and "same_election k n'"
  shows "election_step ev n n'"
proof -
  have s: "current_term n' = current_term k" "voted_for n' = voted_for k" "role n' = role k"
    "votes_received n' = votes_received k"
    using assms(2) by (simp_all add: same_election_def)
  from assms(1) show ?thesis
  proof cases
    case keeps
    then show ?thesis using assms(2) same_election_trans election_step.keeps by blast
  next
    case newer
    then show ?thesis using s by (intro election_step.newer) simp_all
  next
    case campaigns
    then show ?thesis using s by (intro election_step.campaigns) simp_all
  next
    case (votes sender req)
    then show ?thesis using s by (intro election_step.votes [OF votes(1)]) simp_all
  next
    case (yields sender req)
    then show ?thesis using s by (intro election_step.yields [OF yields(1)]) simp_all
  next
    case (counts sender resp)
    then show ?thesis using s by (intro election_step.counts [OF counts(1)]) simp_all
  next
    case wins
    then show ?thesis using s by (intro election_step.wins) simp_all
  qed
qed

text \<open>What a message from a node to \<open>to\<close> tells about the node that has just sent it.\<close>

definition sends_ok :: "runner_event \<Rightarrow> raft_node \<Rightarrow> raft_node \<Rightarrow> node_id \<Rightarrow> raft_message \<Rightarrow> bool" where
  "sends_ok ev n n' to msg \<longleftrightarrow>
     (case msg of
        RequestVote req \<Rightarrow> to \<in> set (peers n) \<and> rv_candidate_id req = nid n
      | RequestVoteResponse resp \<Rightarrow> rvr_from resp = nid n \<and>
          (\<exists>req. ev = Received to (RequestVote req) \<and>
             (rvr_vote_granted resp \<longrightarrow> rvr_term resp = current_term n' \<and> rv_term req = current_term n' \<and>
                voted_for n' = Some (rv_candidate_id req)))
      | AppendEntries req \<Rightarrow> role n' = Leader \<and> ae_term req = current_term n' \<and> ae_leader_id req = nid n \<and>
          (to \<in> set (peers n) \<or> (\<exists>sender resp. ev = Received sender (AppendEntriesResponse resp) \<and> to = aer_from resp))
      | AppendEntriesResponse resp \<Rightarrow> aer_from resp = nid n \<and> (\<exists>req. ev = Received to (AppendEntries req))
      | _ \<Rightarrow> False)"

subsection \<open>The messages of a leader\<close>

lemma build_append_entries_shape:
  "build_append_entries_for_peer n p = Some (Some req) \<Longrightarrow> ae_term req = current_term n \<and> ae_leader_id req = nid n"
  by (auto simp: build_append_entries_for_peer_def bind_Some_iff Let_def split: if_splits option.splits)

lemma build_messages_shape:
  "build_messages_for n ps = Some ms \<Longrightarrow> m \<in> set ms \<Longrightarrow>
     \<exists>p req. m = OutAppendEntries p req \<and> p \<in> set ps \<and> ae_term req = current_term n \<and> ae_leader_id req = nid n"
proof (induction ps arbitrary: ms)
  case (Cons p ps)
  then obtain x ms' where x: "build_append_entries_for_peer n p = Some x" and r: "build_messages_for n ps = Some ms'"
    and ms: "ms = (case x of None \<Rightarrow> ms' | Some message \<Rightarrow> OutAppendEntries p message # ms')"
    by (auto simp: bind_Some_iff)
  show ?case
  proof (cases "m \<in> set ms'")
    case True
    then show ?thesis using Cons.IH [OF r] by fastforce
  next
    case False
    then obtain req where "x = Some req" "m = OutAppendEntries p req"
      using Cons.prems(2) ms by (cases x) auto
    then show ?thesis using x build_append_entries_shape by auto
  qed
qed simp

lemma outbound_shape:
  assumes "build_messages_for n ps = Some ms" and "(to, msg) \<in> set (map outbound_to ms)"
  shows "\<exists>req. msg = AppendEntries req \<and> to \<in> set ps \<and> ae_term req = current_term n \<and> ae_leader_id req = nid n"
proof -
  obtain m where m: "m \<in> set ms" "(to, msg) = outbound_to m" using assms(2) by auto
  from build_messages_shape [OF assms(1) m(1)] m(2) show ?thesis by (auto simp: outbound_to_def)
qed

lemma tick_election:
  assumes "tick rng n = Some (n', ms)"
  shows "election_step ev n n'" and "role n = Leader \<Longrightarrow> same_election n n'"
    and "(to, msg) \<in> set (map outbound_to ms) \<Longrightarrow> sends_ok ev n n' to msg"
proof -
  show "election_step ev n n'"
    using assms by (cases rule: tick_cases)
      (auto simp: start_election_Some_iff same_election_def intro: keeps campaigns)
  show "role n = Leader \<Longrightarrow> same_election n n'"
    using assms by (cases rule: tick_cases) (auto simp: same_election_def)
  assume m: "(to, msg) \<in> set (map outbound_to ms)"
  from assms show "sends_ok ev n n' to msg"
  proof (cases rule: tick_cases)
    case (leader h)
    then have "build_messages_for n' (peers n') = Some ms" using m by (auto simp: build_heartbeat_messages_def)
    from outbound_shape [OF this m] leader show ?thesis by (auto simp: sends_ok_def)
  next
    case quiet
    then show ?thesis using m by simp
  next
    case election
    then show ?thesis using m by (auto simp: start_election_Some_iff sends_ok_def outbound_to_def)
  qed
qed

lemma start_election_election:
  assumes "start_election rng n = Some (n', ms)"
  shows "election_step ev n n'"
    and "(to, msg) \<in> set (map outbound_to ms) \<Longrightarrow> sends_ok ev n n' to msg"
  using assms by (auto simp: start_election_Some_iff sends_ok_def outbound_to_def intro: campaigns)

lemma request_vote_election:
  assumes "handle_request_vote rng req n = Some (n', r)"
  shows "election_step (Received s (RequestVote req)) n n'"
    and "sends_ok (Received s (RequestVote req)) n n' s (RequestVoteResponse (r\<lparr>rvr_from := nid n'\<rparr>))"
proof -
  note h = handle_request_vote_effect [OF assms]
  show "election_step (Received s (RequestVote req)) n n'"
  proof (cases "rvr_vote_granted r")
    case True
    then show ?thesis using h by (intro votes [OF refl]) auto
  next
    case False
    then consider "current_term n < rv_term req" | "current_term n' = current_term n" "same_election n n'"
      using h by (fastforce simp: same_election_def max_def split: if_splits)
    then show ?thesis using h False by cases (auto intro: newer keeps)
  qed
  show "sends_ok (Received s (RequestVote req)) n n' s (RequestVoteResponse (r\<lparr>rvr_from := nid n'\<rparr>))"
    using h by (auto simp: sends_ok_def)
qed

lemma vote_response_election:
  assumes "handle_request_vote_response rng resp n = Some (n', b)"
  shows "election_step (Received s (RequestVoteResponse resp)) n n' \<and> (b \<longrightarrow> role n' = Leader)"
  using assms
proof (cases rule: handle_request_vote_response_cases)
  case newer
  then show ?thesis by (auto simp: become_follower_Some_iff intro: election_step.newer)
next
  case ignored
  then show ?thesis by (auto intro: keeps)
next
  case (counted m)
  have m: "current_term m = current_term n" "voted_for m = voted_for n" "role m = Candidate"
    "votes_received m = (if rvr_vote_granted resp then insert (rvr_from resp) (votes_received n) else votes_received n)"
    "nid m = nid n" "peers m = peers n"
    using counted(2) by (auto simp: counted(3))
  have n': "current_term n' = current_term m" "voted_for n' = voted_for m" "votes_received n' = votes_received m"
    "role n' = (if b then Leader else Candidate)" "nid n' = nid m" "peers n' = peers m"
    using counted(5) m(3) by (auto simp: become_leader_Some_iff split: if_splits)
  have "election_step (Received s (RequestVoteResponse resp)) n n'"
  proof (cases "rvr_vote_granted resp")
    case True
    then show ?thesis using counted(1,2) m n' by (intro counts [OF refl]) auto
  next
    case False
    then show ?thesis using counted(1,2) m n'
      by (cases b) (auto intro: wins keeps simp: same_election_def)
  qed
  then show ?thesis using n' by simp
qed

lemma append_entries_election:
  assumes "handle_append_entries rng req n = Some (n', r)" and "role n = Follower \<Longrightarrow> votes_received n = {}"
  shows "election_step (Received s (AppendEntries req)) n n'"
proof -
  have down: "election_step (Received s (AppendEntries req)) n m"
    if le: "current_term n \<le> ae_term req" and sd: "ae_step_down rng req n = Some m" for m
  proof -
    note d = ae_step_down_effect [OF sd]
    consider "current_term n < ae_term req" | "current_term n = ae_term req" "role n \<noteq> Follower"
      | "current_term n = ae_term req" "role n = Follower"
      using le by (metis le_neq_implies_less)
    then show ?thesis
    proof cases
      case 1
      moreover have "votes_received m = {}"
        using sd 1 by (auto simp: ae_step_down_def become_follower_Some_iff)
      ultimately show ?thesis using d by (intro newer) auto
    next
      case 2
      moreover have "votes_received m = {}"
        using sd 2 by (auto simp: ae_step_down_def become_follower_Some_iff)
      ultimately show ?thesis using d by (intro yields [OF refl]) auto
    next
      case 3
      then have "m = n\<lparr>leader_id := Some (ae_leader_id req), election_elapsed := 0\<rparr>"
        using sd by (simp add: ae_step_down_def)
      then show ?thesis by (intro keeps) (simp add: same_election_def)
    qed
  qed
  from assms(1) show ?thesis
  proof (cases rule: handle_append_entries_cases)
    case stale
    then show ?thesis by (simp add: keeps)
  next
    case reject
    then show ?thesis using down by blast
  next
    case (accept m)
    obtain l c where "n' = m\<lparr>log := l, commit_index := c\<rparr>" using ae_accept_effect [OF accept(4)] by blast
    then have same: "nid n' = nid m" "peers n' = peers m" "current_term n' = current_term m"
      "voted_for n' = voted_for m" "role n' = role m" "votes_received n' = votes_received m" by simp_all
    then show ?thesis using election_step_same [OF down [OF accept(1,2)]] by (simp add: same_election_def)
  qed
qed

lemma append_response_built:
  assumes "handle_append_entries_response rng resp n = Some (n', ms)"
    and "(to, msg) \<in> set (map outbound_to ms)"
  shows "\<exists>req. build_append_entries_for_peer n' (aer_from resp) = Some (Some req) \<and>
    ms = [OutAppendEntries (aer_from resp) req] \<and> current_term n' = current_term n \<and> nid n' = nid n \<and>
    role n' = Leader"
  using assms
  by (auto simp: handle_append_entries_response_def bind_Some_iff Let_def split: if_splits option.splits)

lemma append_response_election:
  assumes "handle_append_entries_response rng resp n = Some (n', ms)"
  shows "election_step (Received s (AppendEntriesResponse resp)) n n'"
    and "(to, msg) \<in> set (map outbound_to ms) \<Longrightarrow> sends_ok (Received s (AppendEntriesResponse resp)) n n' to msg"
proof -
  show "election_step (Received s (AppendEntriesResponse resp)) n n'"
    using handle_append_entries_response_effect [OF assms]
    by (auto simp: become_follower_Some_iff same_election_def intro: keeps newer)
  assume m: "(to, msg) \<in> set (map outbound_to ms)"
  from append_response_built [OF assms m] m
  show "sends_ok (Received s (AppendEntriesResponse resp)) n n' to msg"
    by (auto simp: sends_ok_def outbound_to_def dest: build_append_entries_shape)
qed

lemma propose_election:
  assumes "propose_command v n = Some (n', ms)"
  shows "election_step ev n n'"
    and "ms = Some out \<Longrightarrow> (to, msg) \<in> set (map outbound_to out) \<Longrightarrow> sends_ok ev n n' to msg"
proof -
  show "election_step ev n n'"
    using propose_command_effect [OF assms] by (auto simp: same_election_def intro: keeps)
  assume ms: "ms = Some out" and m: "(to, msg) \<in> set (map outbound_to out)"
  have l: "role n = Leader" using propose_command_effect [OF assms] ms by auto
  have "build_messages_for n' (peers n') = Some out"
    using assms l ms by (auto simp: propose_command_def bind_Some_iff Let_def build_heartbeat_messages_def)
  from outbound_shape [OF this m] obtain req where "msg = AppendEntries req" "to \<in> set (peers n')"
    "ae_term req = current_term n'" "ae_leader_id req = nid n'" by blast
  moreover have "role n' = Leader" "nid n' = nid n" "peers n' = peers n"
    using propose_command_effect [OF assms] l by auto
  ultimately show "sends_ok ev n n' to msg" by (simp add: sends_ok_def)
qed

subsection \<open>Every event is an election step\<close>

lemma response_election:
  assumes "react_message rng s (RequestVoteResponse resp) n = Some (n', outs)"
  shows "election_step (Received s (RequestVoteResponse resp)) n n'"
    and "(to, m) \<in> set outs \<Longrightarrow> sends_ok (Received s (RequestVoteResponse resp)) n n' to m"
proof -
  let ?ev = "Received s (RequestVoteResponse resp)"
  obtain k b where h: "handle_request_vote_response rng resp n = Some (k, b)"
    using assms(1) by (auto simp: react_message_def bind_Some_iff)
  have k: "election_step ?ev n k" "b \<Longrightarrow> role k = Leader" using vote_response_election [OF h] by blast+
  have "election_step ?ev n n' \<and> (\<forall>(to, m) \<in> set outs. sends_ok ?ev n n' to m)"
  proof (cases b)
    case True
    then obtain ms where t: "tick rng k = Some (n', ms)" and outs: "outs = map outbound_to ms"
      using assms(1) h by (auto simp: react_message_def)
    have se: "same_election k n'" using tick_election(2) [OF t] k(2) True by simp
    have ids: "nid k = nid n" "peers k = peers n" using handle_request_vote_response_effect [OF h] by auto
    have "sends_ok ?ev n n' to m" if "(to, m) \<in> set outs" for to m
      using tick_election(3) [OF t, of to m ?ev] that outs ids by (cases m) (simp_all add: sends_ok_def)
    then show ?thesis using election_step_same [OF k(1) se] by auto
  next
    case False
    then show ?thesis using assms(1) h k by (simp add: react_message_def)
  qed
  then show "election_step ?ev n n'" and "(to, m) \<in> set outs \<Longrightarrow> sends_ok ?ev n n' to m" by auto
qed

lemma message_election:
  assumes "node_inv n" and "react_message rng s msg n = Some (n', outs)"
  shows "election_step (Received s msg) n n'"
    and "(to, m) \<in> set outs \<Longrightarrow> sends_ok (Received s msg) n n' to m"
proof -
  have "election_step (Received s msg) n n' \<and> (\<forall>(to, m) \<in> set outs. sends_ok (Received s msg) n n' to m)"
  proof (cases msg)
    case (RequestVote req)
    then obtain k r where h: "handle_request_vote rng req n = Some (k, r)"
      and "(n', outs) = (k, [(s, RequestVoteResponse (r\<lparr>rvr_from := nid k\<rparr>))])"
      using assms(2) by (auto simp: react_message_def)
    then show ?thesis using request_vote_election [OF h, of s] RequestVote by simp
  next
    case (RequestVoteResponse resp)
    then show ?thesis using response_election [of rng s resp n n' outs] assms(2) by auto
  next
    case (AppendEntries req)
    then obtain k r where h: "handle_append_entries rng req n = Some (k, r)"
      and "(n', outs) = (k, [(s, AppendEntriesResponse (r\<lparr>aer_from := nid k\<rparr>))])"
      using assms(2) by (auto simp: react_message_def)
    moreover have "role n = Follower \<Longrightarrow> votes_received n = {}" using assms(1) by (simp add: inv_defs)
    moreover have "nid k = nid n"
      using node_step_ids [of rng "HandleAppendEntries req" n k] h by simp
    ultimately show ?thesis using append_entries_election [OF h, of s] AppendEntries by (simp add: sends_ok_def)
  next
    case (AppendEntriesResponse resp)
    then obtain k ms where h: "handle_append_entries_response rng resp n = Some (k, ms)"
      and "(n', outs) = (k, map outbound_to ms)"
      using assms(2) by (auto simp: react_message_def)
    then have e: "n' = k" "outs = map outbound_to ms" by simp_all
    have "sends_ok (Received s msg) n n' to m" if "(to, m) \<in> set outs" for to m
      using append_response_election(2) [OF h, of to m s] that e AppendEntriesResponse by simp
    moreover have "election_step (Received s msg) n n'"
      using append_response_election(1) [OF h, of s] e AppendEntriesResponse by simp
    ultimately show ?thesis by blast
  qed (use assms(2) in \<open>auto simp: react_message_def intro: keeps\<close>)
  then show "election_step (Received s msg) n n'"
    and "(to, m) \<in> set outs \<Longrightarrow> sends_ok (Received s msg) n n' to m" by auto
qed

lemma react_election:
  assumes "node_inv n" and "react rng ev n = Some (n', outs)"
  shows "election_step ev n n'" and "(to, m) \<in> set outs \<Longrightarrow> sends_ok ev n n' to m"
proof -
  have "election_step ev n n' \<and> (\<forall>(to, m) \<in> set outs. sends_ok ev n n' to m)"
  proof (cases ev)
    case (Received s msg)
    then show ?thesis using message_election [OF assms(1), of rng s msg n' outs] assms(2) by (auto simp: react_def)
  next
    case Ticked
    then obtain ms where "tick rng n = Some (n', ms)" "outs = map outbound_to ms"
      using assms(2) by (auto simp: react_def)
    then show ?thesis using tick_election(1,3) by blast
  next
    case (Commanded cmd)
    show ?thesis
    proof (cases cmd)
      case (Propose v)
      then obtain ms where p: "propose_command v n = Some (n', ms)"
        and outs: "outs = (case ms of Some ms \<Rightarrow> map outbound_to ms | None \<Rightarrow> [])"
        using assms(2) Commanded by (auto simp: react_def)
      have "sends_ok ev n n' to m" if "(to, m) \<in> set outs" for to m
        using propose_election(2) [OF p] that outs by (cases ms) auto
      then show ?thesis using propose_election(1) [OF p] by auto
    next
      case ForceElection
      then obtain ms where "start_election rng n = Some (n', ms)" "outs = map outbound_to ms"
        using assms(2) Commanded by (auto simp: react_def)
      then show ?thesis using start_election_election by blast
    qed (use assms(2) Commanded in \<open>auto simp: react_def intro: keeps\<close>)
  qed
  then show "election_step ev n n'" and "(to, m) \<in> set outs \<Longrightarrow> sends_ok ev n n' to m" by auto
qed

end
