(* ===== verification/Election_Safety.thy ===== *)
theory Election_Safety
  imports Election
begin

text \<open>
  Election safety of a cluster: at most one leader per term, over its whole history. The cluster is
  seen as the nodes by id, the set of all packets sent so far (a packet may be delivered any number of
  times, in any order, or never) and the set of all pairs of a term and a node that was its leader.
  \<open>election_inv\<close> is inductive: the steps of \<open>Election\<close> keep it, and so does a restart that gives back
  the term and the vote.
\<close>

type_synonym packet = "node_id \<times> node_id \<times> raft_message"

definition granted :: "packet set \<Rightarrow> node_id \<Rightarrow> node_id \<Rightarrow> term_no \<Rightarrow> bool" where
  "granted net v c t \<longleftrightarrow>
     (\<exists>r. (v, c, RequestVoteResponse r) \<in> net \<and> rvr_vote_granted r \<and> rvr_term r = t)"

definition packet_ok :: "node_id set \<Rightarrow> (term_no \<times> node_id) set \<Rightarrow> packet \<Rightarrow> bool" where
  "packet_ok ids el p \<longleftrightarrow>
     (case p of (s, to, msg) \<Rightarrow> s \<noteq> to \<and> s \<in> ids \<and>
        (case msg of
           RequestVote req \<Rightarrow> rv_candidate_id req = s
         | RequestVoteResponse r \<Rightarrow> rvr_from r = s
         | AppendEntries req \<Rightarrow> (ae_term req, s) \<in> el
         | AppendEntriesResponse r \<Rightarrow> aer_from r = s
         | _ \<Rightarrow> False))"

text \<open>A set of members with more than half of them.\<close>

definition quorum :: "node_id set \<Rightarrow> node_id set \<Rightarrow> bool" where
  "quorum ids Q \<longleftrightarrow> Q \<subseteq> ids \<and> card ids < 2 * card Q"

type_synonym nodes = "node_id \<Rightarrow> raft_node option"

definition nodes_ok :: "node_id set \<Rightarrow> nodes \<Rightarrow> bool" where
  "nodes_ok ids N \<longleftrightarrow> finite ids \<and> dom N = ids \<and>
     (\<forall>i n. N i = Some n \<longrightarrow> nid n = i \<and> node_inv n \<and> set (peers n) = ids - {i} \<and> distinct (peers n))"

text \<open>A candidate or leader holds only votes that were granted to it in its term, and its own.\<close>

definition votes_backed :: "nodes \<Rightarrow> packet set \<Rightarrow> bool" where
  "votes_backed N net \<longleftrightarrow>
     (\<forall>i n v. N i = Some n \<longrightarrow> role n \<noteq> Follower \<longrightarrow> v \<in> votes_received n \<longrightarrow> v \<noteq> i \<longrightarrow>
        granted net v i (current_term n))"

text \<open>A node that granted a vote in its current term is a follower that still has that vote.\<close>

definition grants_current :: "nodes \<Rightarrow> packet set \<Rightarrow> bool" where
  "grants_current N net \<longleftrightarrow>
     (\<forall>v c t n. granted net v c t \<longrightarrow> N v = Some n \<longrightarrow>
        t \<le> current_term n \<and> (t = current_term n \<longrightarrow> role n = Follower \<and> voted_for n = Some c))"

definition grants_unique :: "packet set \<Rightarrow> bool" where
  "grants_unique net \<longleftrightarrow> (\<forall>v c c' t. granted net v c t \<longrightarrow> granted net v c' t \<longrightarrow> c = c')"

text \<open>
  A leader of a term keeps its own vote until it leaves the term, granted no vote in it, and was
  elected by a quorum.
\<close>

definition elected_ok ::
  "node_id set \<Rightarrow> nodes \<Rightarrow> packet set \<Rightarrow> (term_no \<times> node_id) set \<Rightarrow> bool" where
  "elected_ok ids N net el \<longleftrightarrow>
     (\<forall>t j. (t, j) \<in> el \<longrightarrow> j \<in> ids \<and>
        (\<forall>n. N j = Some n \<longrightarrow> t \<le> current_term n \<and> (t = current_term n \<longrightarrow> voted_for n = Some j)) \<and>
        (\<forall>c. \<not> granted net j c t) \<and>
        (\<exists>Q. quorum ids Q \<and> (\<forall>v \<in> Q - {j}. granted net v j t)))"

definition leaders_elected :: "nodes \<Rightarrow> (term_no \<times> node_id) set \<Rightarrow> bool" where
  "leaders_elected N el \<longleftrightarrow> (\<forall>i n. N i = Some n \<longrightarrow> role n = Leader \<longrightarrow> (current_term n, i) \<in> el)"

definition one_leader :: "(term_no \<times> node_id) set \<Rightarrow> bool" where
  "one_leader el \<longleftrightarrow> (\<forall>t i j. (t, i) \<in> el \<longrightarrow> (t, j) \<in> el \<longrightarrow> i = j)"

definition election_inv ::
  "node_id set \<Rightarrow> nodes \<Rightarrow> packet set \<Rightarrow> (term_no \<times> node_id) set \<Rightarrow> bool" where
  "election_inv ids N net el \<longleftrightarrow> nodes_ok ids N \<and> (\<forall>p \<in> net. packet_ok ids el p) \<and>
     votes_backed N net \<and> grants_current N net \<and> grants_unique net \<and> elected_ok ids N net el \<and>
     leaders_elected N el \<and> one_leader el"

lemma quorums_meet:
  assumes "quorum ids Q" and "quorum ids Q'" and "finite ids"
  obtains v where "v \<in> Q" and "v \<in> Q'" and "v \<in> ids"
proof -
  have fin: "finite Q" "finite Q'" using assms finite_subset unfolding quorum_def by blast+
  have "Q \<inter> Q' \<noteq> {}"
  proof
    assume "Q \<inter> Q' = {}"
    then have "card Q + card Q' = card (Q \<union> Q')" using fin by (simp add: card_Un_disjoint)
    also have "\<dots> \<le> card ids" using assms unfolding quorum_def by (intro card_mono) auto
    finally show False using assms unfolding quorum_def by linarith
  qed
  then show thesis using that assms(1) unfolding quorum_def by blast
qed

text \<open>\<open>majority\<close> of \<open>node.rs\<close> counts the node itself with its peers: it is a quorum.\<close>

lemma majority_quorum:
  assumes "set (peers n) = ids - {i}" and "distinct (peers n)" and "i \<in> ids" and "finite ids"
    and "Q \<subseteq> ids" and "majority n \<le> card Q"
  shows "quorum ids Q"
proof -
  have "length (peers n) = card (ids - {i})" using assms(1,2) distinct_card by metis
  then have "length (peers n) + 1 = card ids" using assms(3,4) by (metis Suc_eq_plus1 card_Suc_Diff1)
  then show ?thesis using assms(5,6) by (simp add: quorum_def majority_def)
qed

subsection \<open>Reading the invariant\<close>

lemma granted_mono: "granted net v c t \<Longrightarrow> granted (net \<union> new) v c t"
  by (auto simp: granted_def)

lemma granted_Un: "granted (net \<union> new) v c t \<longleftrightarrow> granted net v c t \<or> granted new v c t"
  by (auto simp: granted_def)

lemma packet_ok_mono: "packet_ok ids el p \<Longrightarrow> el \<subseteq> el' \<Longrightarrow> packet_ok ids el' p"
  by (auto simp: packet_ok_def split: raft_message.splits)

lemma nodes_okD:
  "nodes_ok ids N \<Longrightarrow> N i = Some n \<Longrightarrow>
     nid n = i \<and> node_inv n \<and> set (peers n) = ids - {i} \<and> distinct (peers n) \<and> i \<in> ids"
  unfolding nodes_ok_def by blast

lemma votes_backedD:
  "votes_backed N net \<Longrightarrow> N i = Some n \<Longrightarrow> role n \<noteq> Follower \<Longrightarrow> v \<in> votes_received n \<Longrightarrow> v \<noteq> i \<Longrightarrow>
     granted net v i (current_term n)"
  unfolding votes_backed_def by blast

lemma grants_currentD:
  "grants_current N net \<Longrightarrow> granted net v c t \<Longrightarrow> N v = Some n \<Longrightarrow>
     t \<le> current_term n \<and> (t = current_term n \<longrightarrow> role n = Follower \<and> voted_for n = Some c)"
  unfolding grants_current_def by blast

lemma elected_okD:
  assumes "elected_ok ids N net el" and "(t, j) \<in> el"
  shows "j \<in> ids" and "N j = Some n \<Longrightarrow> t \<le> current_term n"
    and "N j = Some n \<Longrightarrow> t = current_term n \<Longrightarrow> voted_for n = Some j"
    and "\<not> granted net j c t" and "\<exists>Q. quorum ids Q \<and> (\<forall>v \<in> Q - {j}. granted net v j t)"
  using assms unfolding elected_ok_def by blast+

lemma granted_member: "\<forall>p \<in> net. packet_ok ids el p \<Longrightarrow> granted net v c t \<Longrightarrow> v \<in> ids \<and> v \<noteq> c"
  unfolding granted_def packet_ok_def by fastforce

subsection \<open>One event at one node\<close>

text \<open>
  The node \<open>i\<close> handles an event that is local or a packet of the network, sends the messages \<open>outs\<close>,
  and is recorded as a leader if it is one afterwards.
\<close>

definition event_from :: "packet set \<Rightarrow> node_id \<Rightarrow> runner_event \<Rightarrow> bool" where
  "event_from net i ev \<longleftrightarrow> (\<forall>s msg. ev = Received s msg \<longrightarrow> (s, i, msg) \<in> net)"

definition packets_from :: "node_id \<Rightarrow> (node_id \<times> raft_message) list \<Rightarrow> packet set" where
  "packets_from i outs = (\<lambda>(to, msg). (i, to, msg)) ` set outs"

definition elected_now :: "node_id \<Rightarrow> raft_node \<Rightarrow> (term_no \<times> node_id) set" where
  "elected_now i n = (if role n = Leader then {(current_term n, i)} else {})"

text \<open>What a new grant says about the voter, before and after.\<close>

lemma new_grant:
  assumes "granted (packets_from i outs) v c t"
    and "\<And>to m. (to, m) \<in> set outs \<Longrightarrow> sends_ok ev n n' to m"
  obtains req where "v = i" and "ev = Received c (RequestVote req)" and "t = current_term n'"
    and "rv_term req = t" and "voted_for n' = Some (rv_candidate_id req)"
proof -
  obtain r where r: "(v, c, RequestVoteResponse r) \<in> packets_from i outs" "rvr_vote_granted r" "rvr_term r = t"
    using assms(1) unfolding granted_def by blast
  then have "v = i" "(c, RequestVoteResponse r) \<in> set outs" by (auto simp: packets_from_def)
  moreover from assms(2) [OF this(2)] obtain req where "ev = Received c (RequestVote req)"
      "t = current_term n'" "rv_term req = t" "voted_for n' = Some (rv_candidate_id req)"
    using r(2,3) by (auto simp: sends_ok_def)
  ultimately show thesis using that by blast
qed

definition local_step ::
  "nodes \<Rightarrow> packet set \<Rightarrow> node_id \<Rightarrow> runner_event \<Rightarrow> raft_node \<Rightarrow> raft_node \<Rightarrow> (node_id \<times> raft_message) list \<Rightarrow> bool" where
  "local_step N net i ev n n' outs \<longleftrightarrow> N i = Some n \<and> event_from net i ev \<and> election_step ev n n' \<and>
     node_inv n' \<and> nid n' = nid n \<and> peers n' = peers n \<and>
     (\<forall>to m. (to, m) \<in> set outs \<longrightarrow> sends_ok ev n n' to m)"

lemma local_stepD:
  assumes "local_step N net i ev n n' outs"
  shows "N i = Some n" and "event_from net i ev" and "election_step ev n n'" and "node_inv n'"
    and "nid n' = nid n" and "peers n' = peers n"
    and "(to, m) \<in> set outs \<Longrightarrow> sends_ok ev n n' to m"
  using assms unfolding local_step_def by blast+

lemma election_step_term: "election_step ev n n' \<Longrightarrow> current_term n \<le> current_term n'"
  by (induction rule: election_step.induct) (auto simp: same_election_def)

text \<open>A node whose vote is for another node is a follower.\<close>

lemma voter_is_follower: "node_inv n \<Longrightarrow> voted_for n = Some c \<Longrightarrow> c \<noteq> nid n \<Longrightarrow> role n = Follower"
  by (cases "role n") (simp_all add: inv_defs)

text \<open>A follower that stays in its term keeps its vote, or gives its first one.\<close>

lemma follower_keeps_vote:
  assumes "election_step ev n n'" and "current_term n' = current_term n" and "role n = Follower"
    and "voted_for n = Some c"
  shows "role n' = Follower \<and> voted_for n' = Some c"
  using assms by cases (auto simp: same_election_def)

text \<open>A node that leads its term is in the history, unless it was a candidate just before.\<close>

lemma leads_after:
  assumes "election_step ev n n'" and "role n' = Leader"
  shows "current_term n' = current_term n \<and> (role n = Leader \<or> role n = Candidate)"
  using assms by cases (auto simp: same_election_def)

lemma grant_facts:
  assumes "election_inv ids N net el" and "local_step N net i ev n n' outs"
    and "granted (packets_from i outs) v c t"
  shows "v = i" and "c \<noteq> i" and "t = current_term n'" and "voted_for n' = Some c" and "role n' = Follower"
    and "\<exists>req. ev = Received c (RequestVote req)"
    and "current_term n < t \<or> current_term n = t \<and> voted_for n \<in> {None, Some c}"
proof -
  note l = local_stepD [OF assms(2)]
  have nodes: "nid n = i" using assms(1) l(1) nodes_okD unfolding election_inv_def by blast
  obtain req where g: "v = i" "ev = Received c (RequestVote req)" "t = current_term n'" "rv_term req = t"
      "voted_for n' = Some (rv_candidate_id req)"
    using new_grant [OF assms(3) l(7)] by blast
  then have "packet_ok ids el (c, i, RequestVote req)"
    using l(2) assms(1) unfolding event_from_def election_inv_def by blast
  then have c: "c \<noteq> i" "rv_candidate_id req = c" by (simp_all add: packet_ok_def)
  show "v = i" "c \<noteq> i" "t = current_term n'" using g c by simp_all
  show v: "voted_for n' = Some c" using g c by simp
  show "role n' = Follower" using voter_is_follower [OF l(4) v] c(1) nodes l(5) by simp
  show "\<exists>req. ev = Received c (RequestVote req)" using g(2) by blast
  show "current_term n < t \<or> current_term n = t \<and> voted_for n \<in> {None, Some c}"
    using l(3) g c by cases (auto simp: same_election_def)
qed

text \<open>The parts of the invariant, one by one. \<open>new\<close> are the packets that the event sends.\<close>

lemma step_grants_current:
  assumes "election_inv ids N net el" and "local_step N net i ev n n' outs"
  shows "grants_current (N(i \<mapsto> n')) (net \<union> packets_from i outs)"
  unfolding grants_current_def
proof (intro allI impI)
  fix v c t k
  assume g: "granted (net \<union> packets_from i outs) v c t" and k: "(N(i \<mapsto> n')) v = Some k"
  note l = local_stepD [OF assms(2)]
  have old: "grants_current N net" using assms(1) unfolding election_inv_def by blast
  consider "granted (packets_from i outs) v c t" | "granted net v c t" "v \<noteq> i" | "granted net v c t" "v = i"
    using g unfolding granted_Un by blast
  then show "t \<le> current_term k \<and> (t = current_term k \<longrightarrow> role k = Follower \<and> voted_for k = Some c)"
  proof cases
    case 1
    then show ?thesis using grant_facts [OF assms 1] k by simp
  next
    case 2
    then show ?thesis using grants_currentD [OF old] k by simp
  next
    case 3
    then have n: "t \<le> current_term n \<and> (t = current_term n \<longrightarrow> role n = Follower \<and> voted_for n = Some c)"
      using grants_currentD [OF old] l(1) by blast
    have "k = n'" using k 3 by simp
    moreover have "t = current_term n' \<longrightarrow> current_term n' = current_term n"
      using n election_step_term [OF l(3)] by linarith
    ultimately show ?thesis using n follower_keeps_vote [OF l(3)] election_step_term [OF l(3)] by fastforce
  qed
qed

lemma step_grants_unique:
  assumes "election_inv ids N net el" and "local_step N net i ev n n' outs"
  shows "grants_unique (net \<union> packets_from i outs)"
proof -
  note l = local_stepD [OF assms(2)]
  have old: "grants_current N net" "grants_unique net" using assms(1) unfolding election_inv_def by blast+
  have mixed: "c = c'" if "granted (packets_from i outs) v c t" "granted net v c' t" for v c c' t
  proof -
    note f = grant_facts [OF assms that(1)]
    have "t \<le> current_term n \<and> (t = current_term n \<longrightarrow> voted_for n = Some c')"
      using grants_currentD [OF old(1) that(2)] l(1) f(1) by blast
    then show ?thesis using f(7) by auto
  qed
  have new: "c = c'" if "granted (packets_from i outs) v c t" "granted (packets_from i outs) v c' t" for v c c' t
    using grant_facts(6) [OF assms that(1)] grant_facts(6) [OF assms that(2)] by auto
  show ?thesis
    unfolding grants_unique_def granted_Un using mixed new old(2) unfolding grants_unique_def by blast
qed

lemma step_votes_backed:
  assumes "election_inv ids N net el" and "local_step N net i ev n n' outs"
  shows "votes_backed (N(i \<mapsto> n')) (net \<union> packets_from i outs)"
  unfolding votes_backed_def
proof (intro allI impI)
  fix j k v
  assume k: "(N(i \<mapsto> n')) j = Some k" "role k \<noteq> Follower" "v \<in> votes_received k" "v \<noteq> j"
  note l = local_stepD [OF assms(2)]
  have old: "votes_backed N net" "nid n = i" "\<forall>p \<in> net. packet_ok ids el p"
    using assms(1) l(1) nodes_okD unfolding election_inv_def by blast+
  show "granted (net \<union> packets_from i outs) v j (current_term k)"
  proof (cases "j = i")
    case False
    then have "granted net v j (current_term k)" using votes_backedD [OF old(1)] k by simp
    then show ?thesis by (rule granted_mono)
  next
    case True
    then have n': "k = n'" using k(1) by simp
    have before: "granted net v i (current_term n)" if "role n \<noteq> Follower" "v \<in> votes_received n"
      using votes_backedD [OF old(1) l(1)] that k(4) True by simp
    from l(3) have "granted net v i (current_term n')"
    proof cases
      case keeps
      then show ?thesis using before k n' by (simp add: same_election_def)
    next
      case (votes sender req)
      then show ?thesis using before k n' by auto
    next
      case (counts sender resp)
      have "(sender, i, RequestVoteResponse resp) \<in> net" using l(2) counts(1) by (simp add: event_from_def)
      moreover from this have "rvr_from resp = sender" using old(3) by (auto simp: packet_ok_def)
      ultimately have "granted net (rvr_from resp) i (current_term n)" using counts by (auto simp: granted_def)
      then show ?thesis using before counts k n' by auto
    next
      case wins
      then show ?thesis using before k n' by simp
    next
      case campaigns
      then show ?thesis using k n' old(2) True by simp
    qed (use k n' in simp_all)
    then show ?thesis using granted_mono True n' by blast
  qed
qed

text \<open>A leader that was already in the history.\<close>

lemma step_elected_old:
  assumes "election_inv ids N net el" and "local_step N net i ev n n' outs" and "(t, j) \<in> el"
  shows "(N(i \<mapsto> n')) j = Some k \<Longrightarrow> t \<le> current_term k \<and> (t = current_term k \<longrightarrow> voted_for k = Some j)"
    and "\<not> granted (net \<union> packets_from i outs) j c t"
proof -
  note l = local_stepD [OF assms(2)]
  have old: "elected_ok ids N net el" "one_leader el" "\<forall>p \<in> net. packet_ok ids el p" "nid n = i"
    using assms(1) l(1) nodes_okD unfolding election_inv_def by blast+
  note e = elected_okD [OF old(1) assms(3)]
  have before: "t \<le> current_term n \<and> (t = current_term n \<longrightarrow> voted_for n = Some i)" if "j = i"
    using e(2,3) [of n] l(1) that by simp
  show "t \<le> current_term k \<and> (t = current_term k \<longrightarrow> voted_for k = Some j)" if k: "(N(i \<mapsto> n')) j = Some k"
  proof (cases "j = i")
    case False
    then show ?thesis using e(2,3) [of k] k by simp
  next
    case True
    have kn: "k = n'" using k True by simp
    have "voted_for n' = Some i" if t: "t = current_term n'"
    proof -
      have same: "current_term n' = current_term n" "voted_for n = Some i"
        using before [OF True] t election_step_term [OF l(3)] by simp_all
      from l(3) show ?thesis
      proof cases
        case (yields sender req)
        then have "(sender, i, AppendEntries req) \<in> net" using l(2) by (simp add: event_from_def)
        then have "(t, sender) \<in> el" "sender \<noteq> i" using old(3) yields same t by (auto simp: packet_ok_def)
        then show ?thesis using assms(3) True old(2) unfolding one_leader_def by blast
      qed (use same in \<open>auto simp: same_election_def\<close>)
    qed
    then show ?thesis using before [OF True] election_step_term [OF l(3)] True kn by auto
  qed
  show "\<not> granted (net \<union> packets_from i outs) j c t"
  proof
    assume "granted (net \<union> packets_from i outs) j c t"
    then have g: "granted (packets_from i outs) j c t" using e(4) granted_Un by blast
    note f = grant_facts [OF assms(1,2) g]
    show False using before [OF f(1)] f(2,7) by auto
  qed
qed

text \<open>A leader that enters the history with this event: its votes are a quorum.\<close>

lemma step_elected_new:
  assumes "election_inv ids N net el" and "local_step N net i ev n n' outs"
    and "role n' = Leader" and "(current_term n', i) \<notin> el"
  shows "voted_for n' = Some i" and "\<not> granted (net \<union> packets_from i outs) i c (current_term n')"
    and "quorum ids (votes_received n')"
    and "v \<in> votes_received n' - {i} \<Longrightarrow> granted (net \<union> packets_from i outs) v i (current_term n')"
proof -
  note l = local_stepD [OF assms(2)]
  have old: "nodes_ok ids N" "grants_current N net" "leaders_elected N el" "\<forall>p \<in> net. packet_ok ids el p"
    using assms(1) unfolding election_inv_def by blast+
  note ni = nodes_okD [OF old(1) l(1)]
  have fin: "finite ids" using old(1) unfolding nodes_ok_def by blast
  have c: "role n = Candidate" "current_term n' = current_term n"
    using leads_after [OF l(3) assms(3)] assms(4) old(3) l(1) unfolding leaders_elected_def by auto
  show "voted_for n' = Some i" using l(4,5) ni assms(3) by (simp add: inv_defs)
  show "\<not> granted (net \<union> packets_from i outs) i c (current_term n')"
  proof
    assume "granted (net \<union> packets_from i outs) i c (current_term n')"
    then consider "granted net i c (current_term n')" | "granted (packets_from i outs) i c (current_term n')"
      using granted_Un by blast
    then show False
    proof cases
      case 1
      then show ?thesis using grants_currentD [OF old(2) 1 l(1)] c by simp
    next
      case 2
      then show ?thesis using grant_facts(5) [OF assms(1,2) 2] assms(3) by simp
    qed
  qed
  have b: "granted (net \<union> packets_from i outs) v i (current_term n')" if "v \<in> votes_received n' - {i}" for v
    using votes_backedD [OF step_votes_backed [OF assms(1,2)], of i n' v] that assms(3) by simp
  then show "v \<in> votes_received n' - {i} \<Longrightarrow> granted (net \<union> packets_from i outs) v i (current_term n')" .
  have "v \<in> ids" if "v \<in> votes_received n'" for v
  proof (cases "v = i")
    case False
    then have "granted net v i (current_term n') \<or> granted (packets_from i outs) v i (current_term n')"
      using b that granted_Un by blast
    then show ?thesis using granted_member [OF old(4)] grant_facts(1) [OF assms(1,2)] ni by blast
  qed (use ni in simp)
  then show "quorum ids (votes_received n')"
    using majority_quorum [of n' ids i "votes_received n'"] l(4,6) ni fin assms(3) by (auto simp: inv_defs)
qed

lemma step_elected_ok:
  assumes "election_inv ids N net el" and "local_step N net i ev n n' outs"
  shows "elected_ok ids (N(i \<mapsto> n')) (net \<union> packets_from i outs) (el \<union> elected_now i n')"
  unfolding elected_ok_def
proof (intro allI impI)
  fix t j
  assume e: "(t, j) \<in> el \<union> elected_now i n'"
  have old: "elected_ok ids N net el" "nodes_ok ids N" using assms(1) unfolding election_inv_def by blast+
  have i: "i \<in> ids" using nodes_okD [OF old(2) local_stepD(1) [OF assms(2)]] by blast
  show "j \<in> ids \<and>
      (\<forall>k. (N(i \<mapsto> n')) j = Some k \<longrightarrow> t \<le> current_term k \<and> (t = current_term k \<longrightarrow> voted_for k = Some j)) \<and>
      (\<forall>c. \<not> granted (net \<union> packets_from i outs) j c t) \<and>
      (\<exists>Q. quorum ids Q \<and> (\<forall>v \<in> Q - {j}. granted (net \<union> packets_from i outs) v j t))"
  proof (cases "(t, j) \<in> el")
    case True
    have "\<exists>Q. quorum ids Q \<and> (\<forall>v \<in> Q - {j}. granted (net \<union> packets_from i outs) v j t)"
      using elected_okD(5) [OF old(1) True] granted_mono by blast
    then show ?thesis using step_elected_old [OF assms True] elected_okD(1) [OF old(1) True] by blast
  next
    case False
    then have j: "j = i" "t = current_term n'" "role n' = Leader"
      using e by (auto simp: elected_now_def split: if_splits)
    note new = step_elected_new [OF assms j(3) False [unfolded j(1,2)]]
    have "\<exists>Q. quorum ids Q \<and> (\<forall>v \<in> Q - {i}. granted (net \<union> packets_from i outs) v i (current_term n'))"
      using new(3,4) by blast
    then show ?thesis using new(1,2) i unfolding j(1,2) by simp
  qed
qed

lemma step_one_leader:
  assumes "election_inv ids N net el" and "local_step N net i ev n n' outs"
  shows "one_leader (el \<union> elected_now i n')"
proof -
  have old: "elected_ok ids N net el" "nodes_ok ids N" "one_leader el" "grants_unique net"
    using assms(1) unfolding election_inv_def by blast+
  have fin: "finite ids" using old(2) unfolding nodes_ok_def by blast
  have new: "j = i" if e: "(current_term n', j) \<in> el" "role n' = Leader" "(current_term n', i) \<notin> el" for j
  proof -
    let ?net = "net \<union> packets_from i outs" and ?t = "current_term n'"
    note w = step_elected_new [OF assms e(2,3)]
    obtain Q where Q: "quorum ids Q" "\<forall>v \<in> Q - {j}. granted net v j ?t"
      using elected_okD(5) [OF old(1) e(1)] by blast
    obtain v where v: "v \<in> Q" "v \<in> votes_received n'" using quorums_meet [OF Q(1) w(3) fin] by blast
    show ?thesis
    proof (rule ccontr)
      assume ne: "j \<noteq> i"
      consider "v = i" | "v = j" | "v \<noteq> i" "v \<noteq> j" by blast
      then show False
      proof cases
        case 1
        then show ?thesis using Q(2) v(1) ne w(2) granted_mono by blast
      next
        case 2
        then show ?thesis using w(4) [of j] v(2) ne step_elected_old(2) [OF assms e(1)] by blast
      next
        case 3
        then have "granted ?net v i ?t" "granted ?net v j ?t" using w(4) Q(2) v granted_mono by blast+
        then show ?thesis using step_grants_unique [OF assms] ne unfolding grants_unique_def by blast
      qed
    qed
  qed
  show ?thesis
    unfolding one_leader_def
  proof (intro allI impI)
    fix t a b
    assume ab: "(t, a) \<in> el \<union> elected_now i n'" "(t, b) \<in> el \<union> elected_now i n'"
    have now: "t = current_term n' \<and> x = i \<and> role n' = Leader" if "(t, x) \<in> elected_now i n'" for x
      using that by (auto simp: elected_now_def split: if_splits)
    show "a = b"
    proof (cases "(t, a) \<in> el \<and> (t, b) \<in> el")
      case True
      then show ?thesis using old(3) unfolding one_leader_def by blast
    next
      case False
      then show ?thesis using ab now new by blast
    qed
  qed
qed

lemma step_packets_ok:
  assumes "election_inv ids N net el" and "local_step N net i ev n n' outs" and "p \<in> net \<union> packets_from i outs"
  shows "packet_ok ids (el \<union> elected_now i n') p"
proof (cases "p \<in> net")
  case True
  then have "packet_ok ids el p" using assms(1) unfolding election_inv_def by blast
  then show ?thesis by (rule packet_ok_mono) simp
next
  case False
  then obtain to m where p: "p = (i, to, m)" "(to, m) \<in> set outs" using assms(3) by (auto simp: packets_from_def)
  note l = local_stepD [OF assms(2)]
  have old: "nodes_ok ids N" "\<forall>p \<in> net. packet_ok ids el p" using assms(1) unfolding election_inv_def by blast+
  note ni = nodes_okD [OF old(1) l(1)]
  have s: "sends_ok ev n n' to m" by (rule l(7) [OF p(2)])
  have from_net: "packet_ok ids el (s, i, msg)" if "ev = Received s msg" for s msg
    using l(2) old(2) that unfolding event_from_def by blast
  have recv: "i \<noteq> s" if "ev = Received s msg" for s msg using from_net [OF that] by (auto simp: packet_ok_def)
  have peer: "i \<noteq> to" if "to \<in> set (peers n)" using that ni by blast
  have ack: "i \<noteq> aer_from resp" if "ev = Received s (AppendEntriesResponse resp)" for s resp
    using from_net [OF that] by (auto simp: packet_ok_def)
  have "(current_term n', i) \<in> elected_now i n'" if "role n' = Leader" using that by (simp add: elected_now_def)
  then show ?thesis
    using s peer recv ack ni unfolding p(1) by (cases m) (auto simp: sends_ok_def packet_ok_def)
qed

text \<open>The invariant is inductive.\<close>

lemma election_inv_step:
  assumes "election_inv ids N net el" and "local_step N net i ev n n' outs"
  shows "election_inv ids (N(i \<mapsto> n')) (net \<union> packets_from i outs) (el \<union> elected_now i n')"
proof -
  note l = local_stepD [OF assms(2)]
  have old: "nodes_ok ids N" "leaders_elected N el" using assms(1) unfolding election_inv_def by blast+
  note ni = nodes_okD [OF old(1) l(1)]
  have "nodes_ok ids (N(i \<mapsto> n'))" using old(1) ni l(4-6) unfolding nodes_ok_def by auto
  moreover have "leaders_elected (N(i \<mapsto> n')) (el \<union> elected_now i n')"
    using old(2) unfolding leaders_elected_def elected_now_def by auto
  ultimately show ?thesis
    unfolding election_inv_def
    using step_packets_ok [OF assms] step_votes_backed [OF assms] step_grants_current [OF assms]
      step_grants_unique [OF assms] step_elected_ok [OF assms] step_one_leader [OF assms] by blast
qed

text \<open>A restart that gives back the term and the vote, with the node as a follower.\<close>

lemma election_inv_restart:
  assumes "election_inv ids N net el" and "N i = Some n" and "node_inv n'" and "nid n' = nid n"
    and "peers n' = peers n" and "current_term n' = current_term n" and "voted_for n' = voted_for n"
    and "role n' = Follower"
  shows "election_inv ids (N(i \<mapsto> n')) net el"
proof -
  have old: "nodes_ok ids N" "votes_backed N net" "grants_current N net" "elected_ok ids N net el" "leaders_elected N el"
    using assms(1) unfolding election_inv_def by blast+
  note ni = nodes_okD [OF old(1) assms(2)]
  have "nodes_ok ids (N(i \<mapsto> n'))" using old(1) ni assms(3-5) unfolding nodes_ok_def by auto
  moreover have "votes_backed (N(i \<mapsto> n')) net" using old(2) assms(8) unfolding votes_backed_def by auto
  moreover have "grants_current (N(i \<mapsto> n')) net"
    using old(3) assms(2,6-8) unfolding grants_current_def by auto
  moreover have "elected_ok ids (N(i \<mapsto> n')) net el"
    using old(4) assms(2,6,7) unfolding elected_ok_def by auto
  moreover have "leaders_elected (N(i \<mapsto> n')) el" using old(5) assms(8) unfolding leaders_elected_def by auto
  ultimately show ?thesis using assms(1) unfolding election_inv_def by blast
qed

end
