(* ===== verification/Recovery.thy ===== *)
theory Recovery
  imports Durability
begin

text \<open>
  A new process with an old configuration, on the storage that the old process left: it comes up, and
  with the term, vote, log, snapshot position and commit index of a backed runner; on an empty storage
  it is as it was first created.
\<close>

subsection \<open>Starting again on the storage of a durable runner\<close>

text \<open>A new process with the same configuration, on the storage that the old one left.\<close>

definition restart ::
  "('c, 's, 'm) runner_env \<Rightarrow> nat \<Rightarrow> instant \<Rightarrow> raft_config \<Rightarrow> 'c \<Rightarrow> 's \<Rightarrow> 'm \<Rightarrow>
     (('c, 's, 'm) runner \<times> (communication_error + unit)) option" where
  "restart E k now cfg c s m = do { r \<leftarrow> runner_new E k now cfg c s m; run_start E r }"

lemma runner_new_Some:
  assumes "runner_new E k now cfg c s m = Some r"
  shows "nid (r_node r) = cfg_id cfg \<and> peers (r_node r) = hm_keys (cfg_peer_addrs cfg) \<and>
    r_config r = cfg \<and> r_storage r = s \<and> r_machine r = m \<and> r_communication r = c \<and> r_applied_count r = 0"
  using assms
  by (auto simp: runner_new_def node_of_config_def new_node_def bind_Some_iff split: if_splits)

lemma runner_new_ok:
  assumes "gen_range_ok (en_rng E)" and "config_u64 cfg" and "runner_new E k now cfg c s m = Some r"
  shows "runner_ok r"
proof -
  have "node_inv (r_node r)"
    using assms node_of_config_inv [OF assms(1,2)] by (auto simp: runner_new_def bind_Some_iff)
  then show ?thesis using runner_new_Some [OF assms(3)] by (simp add: runner_ok_def)
qed

lemma restart_started:
  assumes "restart E k now cfg c s m = Some (r, res)"
  shows "res = snd (co_start (en_communication E) (cfg_addr cfg) c)"
proof -
  obtain r0 where r0: "runner_new E k now cfg c s m = Some r0" "run_start E r0 = Some (r, res)"
    using assms by (auto simp: restart_def bind_Some_iff)
  obtain c' o1 where "co_start (en_communication E) (cfg_addr cfg) c = (c', o1)" by fastforce
  then show ?thesis
    using r0(2) runner_new_Some [OF r0(1)] by (cases o1) (auto simp: run_start_def bind_Some_iff Let_def)
qed

text \<open>The run of \<open>run_start\<close> when a snapshot is found.\<close>

lemma run_start_found:
  assumes "run_start E r = Some (r', Inr ())"
    and "st_load (en_storage E) (r_storage r) (cfg_id (r_config r)) = Some x"
  shows "\<exists>n n2 es. restore_from_storage (ss_current_term x) (ss_voted_for x) (ss_log x) (ss_commit_index x)
      (ss_last_included_index x) (ss_last_included_term x) (r_node r) = Some n \<and>
    take_unapplied_entries n = Some (n2, es) \<and> r_node r' = n2 \<and> r_storage r' = r_storage r \<and>
    r_config r' = r_config r \<and>
    r_communication r' = fst (co_start (en_communication E) (cfg_addr (r_config r)) (r_communication r)) \<and>
    r_machine r' = sm_run (sm_apply (en_machine E)) (map le_command es)
      (fst (sm_restore (en_machine E) (r_machine r) (ss_state_machine_snapshot x)))"
proof -
  obtain c res where c: "co_start (en_communication E) (cfg_addr (r_config r)) (r_communication r) = (c, res)"
    by fastforce
  obtain u where "res = Inr u" using assms(1) c by (cases res) (auto simp: run_start_def)
  then obtain r1 where 1: "restore_from_snapshot E x (r\<lparr>r_communication := c\<rparr>) = Some r1"
    and 2: "apply_committed_entries E r1 = Some r'"
    using assms c by (auto simp: run_start_def bind_Some_iff Let_def)
  obtain m mres where m: "sm_restore (en_machine E) (r_machine r) (ss_state_machine_snapshot x) = (m, mres)"
    by fastforce
  obtain n where n: "restore_from_storage (ss_current_term x) (ss_voted_for x) (ss_log x) (ss_commit_index x)
      (ss_last_included_index x) (ss_last_included_term x) (r_node r) = Some n"
    and r1: "r1 = r\<lparr>r_communication := c, r_machine := m, r_node := n\<rparr>"
    using 1 m by (auto simp: restore_from_snapshot_def bind_Some_iff)
  show ?thesis using apply_committed_effect [OF 2] r1 n c m by auto
qed

lemma restart_view:
  assumes "restart E k now cfg c s m = Some (r, Inr ())"
    and "st_load (en_storage E) s (cfg_id cfg) = Some x" and "ss_node_id x = cfg_id cfg"
  shows "node_view (r_node r) = ss_view x" and "role (r_node r) = Follower"
    and "votes_received (r_node r) = {}" and "r_storage r = s" and "r_config r = cfg"
    and "durable E r"
    and "gen_range_ok (en_rng E) \<Longrightarrow> config_u64 cfg \<Longrightarrow> runner_ok r"
proof -
  obtain r0 where r0: "runner_new E k now cfg c s m = Some r0" "run_start E r0 = Some (r, Inr ())"
    using assms(1) by (auto simp: restart_def bind_Some_iff)
  note new = runner_new_Some [OF r0(1)]
  obtain n n2 es where n: "restore_from_storage (ss_current_term x) (ss_voted_for x) (ss_log x) (ss_commit_index x)
      (ss_last_included_index x) (ss_last_included_term x) (r_node r0) = Some n"
    and t: "take_unapplied_entries n = Some (n2, es)" "r_node r = n2"
    and r: "r_storage r = s" "r_config r = cfg"
    using run_start_found [OF r0(2), of x] assms(2) new by auto
  obtain a where a: "n2 = n\<lparr>last_applied := a\<rparr>" using take_unapplied_entries_spec(3) [OF t(1)] by blast
  have v: "node_view n2 = ss_view x"
    using n assms(3) new unfolding a
    by (auto simp: restore_from_storage_Some_iff node_view_def ss_view_def from_node_def)
  show "node_view (r_node r) = ss_view x" using v t(2) by simp
  show "role (r_node r) = Follower" "votes_received (r_node r) = {}"
    using n a t(2) by (auto simp: restore_from_storage_Some_iff)
  show "r_storage r = s" "r_config r = cfg" using r by simp_all
  have ids: "nid n2 = cfg_id cfg" "peers n2 = hm_keys (cfg_peer_addrs cfg)"
    using n a new by (auto simp: restore_from_storage_Some_iff)
  then show "durable E r" using v t(2) r assms(2) by (simp add: durable_def)
  show "runner_ok r" if "gen_range_ok (en_rng E)" "config_u64 cfg"
    using runner_new_ok [OF that r0(1)] restore_from_storage_inv [OF _ n] take_unapplied_inv [OF _ t(1)] t(2) ids r
    by (simp add: runner_ok_def)
qed

text \<open>
  The commit index is clamped to the log, and everything up to it is applied; without a snapshot both
  are the 0 of a new node and nothing is applied.
\<close>

lemma run_start_fresh:
  assumes "run_start E r = Some (r', Inr ())"
    and "st_load (en_storage E) (r_storage r) (cfg_id (r_config r)) = None"
  shows "\<exists>n es. take_unapplied_entries (r_node r) = Some (n, es) \<and> r_node r' = n \<and>
    r_machine r' = sm_run (sm_apply (en_machine E)) (map le_command es) (r_machine r)"
proof -
  obtain c res where c: "co_start (en_communication E) (cfg_addr (r_config r)) (r_communication r) = (c, res)"
    by fastforce
  obtain u where "res = Inr u" using assms(1) c by (cases res) (auto simp: run_start_def)
  then have "apply_committed_entries E (r\<lparr>r_communication := c\<rparr>) = Some r'"
    using assms c by (auto simp: run_start_def bind_Some_iff)
  from apply_committed_effect [OF this] show ?thesis by auto
qed

lemma restart_applied:
  assumes "restart E k now cfg c s m = Some (r, Inr ())"
  shows "commit_index (r_node r) \<le> log_end (r_node r)" and "last_applied (r_node r) = commit_index (r_node r)"
    and "st_load (en_storage E) s (cfg_id cfg) = None \<Longrightarrow> r_machine r = m"
proof -
  obtain r0 where r0: "runner_new E k now cfg c s m = Some r0" "run_start E r0 = Some (r, Inr ())"
    using assms(1) by (auto simp: restart_def bind_Some_iff)
  note new = runner_new_Some [OF r0(1)]
  have "\<exists>n n2 es. snapshot_last_included_index n \<le> commit_index n \<and> commit_index n \<le> log_end n \<and>
      last_applied n \<le> commit_index n \<and> take_unapplied_entries n = Some (n2, es) \<and> r_node r = n2 \<and>
      (st_load (en_storage E) s (cfg_id cfg) = None \<longrightarrow> commit_index n = 0 \<and>
         r_machine r = sm_run (sm_apply (en_machine E)) (map le_command es) m)"
  proof (cases "st_load (en_storage E) s (cfg_id cfg)")
    case (Some x)
    obtain n n2 es where n: "restore_from_storage (ss_current_term x) (ss_voted_for x) (ss_log x) (ss_commit_index x)
        (ss_last_included_index x) (ss_last_included_term x) (r_node r0) = Some n"
      and t: "take_unapplied_entries n = Some (n2, es)" "r_node r = n2"
      using run_start_found [OF r0(2), of x] Some new by auto
    have "snapshot_last_included_index n \<le> commit_index n" "commit_index n \<le> log_end n" "last_applied n \<le> commit_index n"
      using n by (auto simp: restore_from_storage_Some_iff log_end_def)
    then show ?thesis using t Some by (intro exI [of _ n] exI [of _ n2] exI [of _ es]) simp
  next
    case None
    have n: "commit_index (r_node r0) = 0" "last_applied (r_node r0) = 0" "snapshot_last_included_index (r_node r0) = 0"
      using r0(1) by (auto simp: runner_new_def node_of_config_def new_node_def bind_Some_iff split: if_splits)
    obtain n2 es where "take_unapplied_entries (r_node r0) = Some (n2, es)" "r_node r = n2"
        "r_machine r = sm_run (sm_apply (en_machine E)) (map le_command es) m"
      using run_start_fresh [OF r0(2)] None new by auto
    then show ?thesis using n by (intro exI [of _ "r_node r0"] exI [of _ n2] exI [of _ es]) simp
  qed
  then obtain n n2 es where n: "snapshot_last_included_index n \<le> commit_index n" "commit_index n \<le> log_end n"
      "last_applied n \<le> commit_index n" "take_unapplied_entries n = Some (n2, es)" "r_node r = n2"
    and none: "st_load (en_storage E) s (cfg_id cfg) = None \<longrightarrow> commit_index n = 0 \<and>
         r_machine r = sm_run (sm_apply (en_machine E)) (map le_command es) m"
    by (elim exE conjE) (rule that)
  note t = take_unapplied_entries_spec [OF n(4)]
  show "commit_index (r_node r) \<le> log_end (r_node r)" using t(3) n(2,5) by simp
  show "last_applied (r_node r) = commit_index (r_node r)"
    using t(3) n(1-3,5) by (simp add: apply_from_def apply_to_def)
  show "r_machine r = m" if "st_load (en_storage E) s (cfg_id cfg) = None"
    using none that t(1) by (simp add: apply_to_def)
qed

text \<open>A restart on the storage of a durable runner always comes up.\<close>

lemma apply_entries_total:
  "r_applied_count r + length es < u64_limit \<Longrightarrow> \<exists>r'. apply_entries E es r = Some r'"
  by (induction es arbitrary: r) auto

lemma restart_total:
  assumes "config_ok cfg" and "st_load (en_storage E) s (cfg_id cfg) = Some x"
    and "ss_last_included_index x + length (ss_log x) < u64_limit"
    and "snd (co_start (en_communication E) (cfg_addr cfg) c) = Inr ()"
  shows "\<exists>r. restart E k now cfg c s m = Some (r, Inr ())"
proof -
  obtain n0 where n0: "node_of_config (en_rng E) k cfg = Some n0" using node_of_config_total [OF assms(1)] by blast
  define r0 where "r0 = \<lparr>r_config = cfg, r_node = n0, r_communication = c, r_storage = s, r_machine = m,
    r_inbound_count = 0, r_applied_count = 0, r_dropped_outbound = 0, r_last_report_at = now\<rparr>"
  obtain c' where c': "co_start (en_communication E) (cfg_addr cfg) c = (c', Inr ())"
    using assms(4) by (cases "co_start (en_communication E) (cfg_addr cfg) c") auto
  obtain n where n: "restore_from_storage (ss_current_term x) (ss_voted_for x) (ss_log x) (ss_commit_index x)
      (ss_last_included_index x) (ss_last_included_term x) n0 = Some n"
    using assms(3) by (auto simp: restore_from_storage_Some_iff)
  have l: "log_end n < u64_limit" using n assms(3) by (auto simp: restore_from_storage_Some_iff log_end_def)
  obtain m' res where m': "sm_restore (en_machine E) m (ss_state_machine_snapshot x) = (m', res)" by fastforce
  define r1 where "r1 = r0\<lparr>r_communication := c', r_machine := m', r_node := n\<rparr>"
  obtain n2 es where t: "take_unapplied_entries n = Some (n2, es)"
    using take_unapplied_eq [OF l] by (cases "apply_to n \<le> apply_from n") simp_all
  have "length es < u64_limit" using take_unapplied_entries_spec(1) [OF t] l by (simp add: apply_to_def)
  then obtain r2 where "apply_entries E es (r1\<lparr>r_node := n2\<rparr>) = Some r2"
    using apply_entries_total [of "r1\<lparr>r_node := n2\<rparr>" es E] by (auto simp: r1_def r0_def)
  then have "apply_committed_entries E r1 = Some r2" using t by (simp add: apply_committed_entries_def r1_def)
  moreover have "restore_from_snapshot E x (r0\<lparr>r_communication := c'\<rparr>) = Some r1"
    using n m' by (simp add: restore_from_snapshot_def r1_def r0_def)
  ultimately show ?thesis
    using n0 c' assms(2) by (simp add: restart_def runner_new_def run_start_def r0_def [symmetric] Let_def)
      (simp add: r0_def)
qed

subsection \<open>Restarts of a backed runner\<close>

lemma runner_ok_outbox [simp]: "runner_ok (r\<lparr>r_communication := c\<rparr>) = runner_ok r"
  by (simp add: runner_ok_def)

lemma restart_fresh:
  assumes "restart E k now cfg c s m = Some (r, Inr ())"
    and "st_load (en_storage E) s (cfg_id cfg) = None"
  shows "node_view (r_node r) = fresh_view (cfg_id cfg)" and "role (r_node r) = Follower"
    and "r_storage r = s" and "r_config r = cfg"
    and "r_communication r = fst (co_start (en_communication E) (cfg_addr cfg) c)"
    and "gen_range_ok (en_rng E) \<Longrightarrow> config_u64 cfg \<Longrightarrow> runner_ok r"
proof -
  obtain r0 where r0: "runner_new E k now cfg c s m = Some r0" "run_start E r0 = Some (r, Inr ())"
    using assms(1) by (auto simp: restart_def bind_Some_iff)
  note new = runner_new_Some [OF r0(1)]
  have v0: "node_view (r_node r0) = fresh_view (cfg_id cfg)" "role (r_node r0) = Follower"
    using r0(1) by (auto simp: runner_new_def node_of_config_def new_node_def bind_Some_iff node_view_def
        ss_view_def from_node_def fresh_view_def split: if_splits)
  obtain c' res where c': "co_start (en_communication E) (cfg_addr cfg) c = (c', res)" by fastforce
  obtain u where "res = Inr u" using r0(2) c' new by (cases res) (auto simp: run_start_def)
  then have a: "apply_committed_entries E (r0\<lparr>r_communication := c'\<rparr>) = Some r"
    using r0(2) c' assms(2) new by (auto simp: run_start_def bind_Some_iff)
  obtain n es where t: "take_unapplied_entries (r_node r0) = Some (n, es)" "r_node r = n"
    using apply_committed_effect [OF a] by auto
  obtain x where "n = r_node r0\<lparr>last_applied := x\<rparr>" using take_unapplied_entries_spec(3) [OF t(1)] by blast
  then have same: "node_view n = node_view (r_node r0)" "role n = role (r_node r0)"
    by (simp_all add: node_view_def from_node_def)
  show "node_view (r_node r) = fresh_view (cfg_id cfg)" "role (r_node r) = Follower"
    using v0 same t(2) by simp_all
  note f = apply_committed_node [OF a]
  show "r_storage r = s" "r_config r = cfg" using f(3,4) new by simp_all
  show "r_communication r = fst (co_start (en_communication E) (cfg_addr cfg) c)" using f(2) c' by simp
  show "runner_ok r" if "gen_range_ok (en_rng E)" "config_u64 cfg"
    using runner_new_ok [OF that r0(1)] f by (simp add: runner_ok_def same_election_def)
qed

lemma restart_communication:
  assumes "restart E k now cfg c s m = Some (r, Inr ())"
    and "st_load (en_storage E) s (cfg_id cfg) = Some x"
  shows "r_communication r = fst (co_start (en_communication E) (cfg_addr cfg) c)"
proof -
  obtain r0 where r0: "runner_new E k now cfg c s m = Some r0" "run_start E r0 = Some (r, Inr ())"
    using assms(1) by (auto simp: restart_def bind_Some_iff)
  note new = runner_new_Some [OF r0(1)]
  show ?thesis using run_start_found [OF r0(2), of x] assms(2) new by auto
qed

text \<open>A restart gives back the term, the vote and everything else of the view.\<close>

lemma restart_backed:
  assumes "restart E k now (r_config r) c (r_storage r) m = Some (r', Inr ())"
    and "backed E r" and "runner_ok r" and "gen_range_ok (en_rng E)" and "config_u64 (r_config r)"
  shows "node_view (r_node r') = node_view (r_node r)" and "role (r_node r') = Follower"
    and "r_storage r' = r_storage r" and "r_config r' = r_config r" and "runner_ok r'" and "backed E r'"
    and "r_communication r' = fst (co_start (en_communication E) (cfg_addr (r_config r)) c)"
proof -
  let ?l = "st_load (en_storage E) (r_storage r) (cfg_id (r_config r))"
  have i: "nid (r_node r) = cfg_id (r_config r)" using assms(3) by (simp add: runner_ok_def)
  have "node_view (r_node r') = node_view (r_node r) \<and> role (r_node r') = Follower \<and>
      r_storage r' = r_storage r \<and> r_config r' = r_config r \<and> runner_ok r' \<and>
      r_communication r' = fst (co_start (en_communication E) (cfg_addr (r_config r)) c)"
  proof (cases ?l)
    case None
    then show ?thesis using restart_fresh [OF assms(1) None] assms(2,4,5) i by (simp add: backed_def)
  next
    case (Some x)
    then have v: "ss_view x = node_view (r_node r)" using assms(2) i by (simp add: backed_def)
    have "ss_node_id x = ss_node_id (ss_view x)" by (simp add: ss_view_fields)
    also have "\<dots> = cfg_id (r_config r)" unfolding v node_view_fields by (rule i)
    finally have id: "ss_node_id x = cfg_id (r_config r)" .
    show ?thesis
      using restart_view [OF assms(1) Some id] restart_communication [OF assms(1) Some] v assms(4,5) by simp
  qed
  then show "node_view (r_node r') = node_view (r_node r)" "role (r_node r') = Follower"
    "r_storage r' = r_storage r" "r_config r' = r_config r" "runner_ok r'"
    "r_communication r' = fst (co_start (en_communication E) (cfg_addr (r_config r)) c)" by blast+
  then show "backed E r'" using assms(2) i by (auto simp: backed_def runner_ok_def split: option.splits)
qed

subsection \<open>Any start, on an empty storage or on one with a snapshot of the node\<close>

lemma restart_makes_backed:
  assumes "restart E k now cfg c s m = Some (r, Inr ())" and "gen_range_ok (en_rng E)" and "config_u64 cfg"
    and "\<And>x. st_load (en_storage E) s (cfg_id cfg) = Some x \<Longrightarrow> ss_node_id x = cfg_id cfg"
  shows "backed E r" and "runner_ok r" and "r_config r = cfg" and "r_storage r = s"
proof -
  let ?l = "st_load (en_storage E) s (cfg_id cfg)"
  have "backed E r \<and> runner_ok r \<and> r_config r = cfg \<and> r_storage r = s"
  proof (cases ?l)
    case None
    note f = restart_fresh [OF assms(1) None]
    have "runner_ok r" using f(6) assms(2,3) by blast
    then show ?thesis using f None by (simp add: backed_def runner_ok_def)
  next
    case (Some x)
    then show ?thesis using restart_view [OF assms(1) Some assms(4) [OF Some]] assms(2,3) durable_backed by blast
  qed
  then show "backed E r" "runner_ok r" "r_config r = cfg" "r_storage r = s" by blast+
qed

lemma restart_backed_total:
  assumes "backed E r" and "runner_ok r" and "config_ok (r_config r)" and "log_end (r_node r) < u64_limit"
    and "snd (co_start (en_communication E) (cfg_addr (r_config r)) c) = Inr ()"
  shows "\<exists>r'. restart E k now (r_config r) c (r_storage r) m = Some (r', Inr ())"
proof (cases "st_load (en_storage E) (r_storage r) (cfg_id (r_config r))")
  case (Some x)
  then have "ss_view x = node_view (r_node r)" using assms(1,2) by (simp add: backed_def runner_ok_def)
  then have "ss_last_included_index x + length (ss_log x) < u64_limit"
    using assms(4) ss_view_fields [of x] node_view_fields [of "r_node r"] by (simp add: log_end_def)
  then show ?thesis by (rule restart_total [OF assms(3) Some _ assms(5)])
next
  case None
  obtain n where n: "node_of_config (en_rng E) k (r_config r) = Some n" using node_of_config_total [OF assms(3)] by blast
  then have l: "log_end n < u64_limit" "log n = []"
    by (auto simp: node_of_config_def new_node_def bind_Some_iff log_end_def u64_limit_def split: if_splits)
  obtain n2 es where t: "take_unapplied_entries n = Some (n2, es)"
    using take_unapplied_eq [OF l(1)] by (cases "apply_to n \<le> apply_from n") simp_all
  then have "es = []" using take_unapplied_entries_spec(1) [OF t] l(2) n
    by (auto simp: node_of_config_def new_node_def bind_Some_iff apply_to_def log_end_def split: if_splits)
  obtain c' where "co_start (en_communication E) (cfg_addr (r_config r)) c = (c', Inr ())"
    using assms(5) by (cases "co_start (en_communication E) (cfg_addr (r_config r)) c") auto
  then show ?thesis
    using n None t \<open>es = []\<close>
    by (simp add: restart_def runner_new_def run_start_def apply_committed_entries_def)
qed

end
