(* ===== verification/Cluster.thy ===== *)
theory Cluster
  imports Election_Safety Recovery
begin

text \<open>
  A cluster of runners on a network that may lose, repeat, delay and reorder packets, with nodes that
  may stop between two events and start again on their storage. The transport of a runner is an
  outbox, emptied into the network after every event; the network keeps every packet, and an event
  delivers any of them. The history of leaders is recorded beside the cluster.
\<close>

type_synonym outbox = "(node_id \<times> raft_message) list"

definition outbox_ops :: "outbox communication_ops" where
  "outbox_ops = \<lparr>co_start = \<lambda>address c. (c, Inr ()), co_poll = \<lambda>c. (c, Inr None),
     co_send = \<lambda>to msg c. (c @ [(to, msg)], Sent)\<rparr>"

definition cluster_env :: "'s storage_ops \<Rightarrow> 'm state_machine_ops \<Rightarrow> gen_range \<Rightarrow> (outbox, 's, 'm) runner_env" where
  "cluster_env S M rng =
     \<lparr>en_communication = outbox_ops, en_storage = S, en_machine = M, en_rng = rng\<rparr>"

record ('s, 'm) cluster =
  cl_runners :: "(node_id, (outbox, 's, 'm) runner) hash_map"
  cl_net :: "packet list"
  cl_elected :: "(term_no \<times> node_id) list"

text \<open>An event of the cluster; a packet is named by its position in the network.\<close>

datatype cluster_event =
    Deliver nat
  | Ticks node_id
  | Commands node_id command
  | Restarts node_id nat

definition after_event ::
  "node_id \<Rightarrow> (outbox, 's, 'm) runner \<Rightarrow> ('s, 'm) cluster \<Rightarrow> ('s, 'm) cluster" where
  "after_event i r cl =
     cl\<lparr>cl_runners := hm_insert i (r\<lparr>r_communication := []\<rparr>) (cl_runners cl),
        cl_net := cl_net cl @ map (\<lambda>(to, msg). (i, to, msg)) (r_communication r),
        cl_elected := (if role (r_node r) = Leader then [(current_term (r_node r), i)] else []) @ cl_elected cl\<rparr>"

definition node_event ::
  "(outbox, 's, 'm) runner_env \<Rightarrow> node_id \<Rightarrow> runner_event \<Rightarrow> ('s, 'm) cluster \<Rightarrow> ('s, 'm) cluster option" where
  "node_event E i ev cl = do {
     r \<leftarrow> hm_get (cl_runners cl) i;
     r' \<leftarrow> runner_step E ev r;
     Some (after_event i r' cl)
   }"

text \<open>A restart loses the runner and keeps its configuration and storage; \<open>m0\<close> is the new machine.\<close>

definition restart_event ::
  "(outbox, 's, 'm) runner_env \<Rightarrow> 'm \<Rightarrow> node_id \<Rightarrow> nat \<Rightarrow> ('s, 'm) cluster \<Rightarrow> ('s, 'm) cluster option" where
  "restart_event E m0 i k cl = do {
     r \<leftarrow> hm_get (cl_runners cl) i;
     (r', res) \<leftarrow> restart E k 0 (r_config r) [] (r_storage r) m0;
     (case res of Inr _ \<Rightarrow> Some (after_event i r' cl) | Inl _ \<Rightarrow> None)
   }"

definition cluster_step ::
  "(outbox, 's, 'm) runner_env \<Rightarrow> 'm \<Rightarrow> cluster_event \<Rightarrow> ('s, 'm) cluster \<Rightarrow> ('s, 'm) cluster option" where
  "cluster_step E m0 ev cl =
     (case ev of
        Deliver k \<Rightarrow>
          (if k < length (cl_net cl)
           then case cl_net cl ! k of (s, to, msg) \<Rightarrow> node_event E to (Received s msg) cl else None)
      | Ticks i \<Rightarrow> node_event E i Ticked cl
      | Commands i cmd \<Rightarrow> node_event E i (Commanded cmd) cl
      | Restarts i k \<Rightarrow> restart_event E m0 i k cl)"

fun cluster_run ::
  "(outbox, 's, 'm) runner_env \<Rightarrow> 'm \<Rightarrow> cluster_event list \<Rightarrow> ('s, 'm) cluster \<Rightarrow> ('s, 'm) cluster option" where
  "cluster_run E m0 [] cl = Some cl"
| "cluster_run E m0 (ev # evs) cl = Option.bind (cluster_step E m0 ev cl) (cluster_run E m0 evs)"

text \<open>Every node of the cluster is started for the first time, on an empty storage.\<close>

fun start_all ::
  "(outbox, 's, 'm) runner_env \<Rightarrow> 's \<Rightarrow> 'm \<Rightarrow> raft_config list \<Rightarrow> (node_id, (outbox, 's, 'm) runner) hash_map option" where
  "start_all E s0 m0 [] = Some []"
| "start_all E s0 m0 (cfg # cfgs) = do {
     (r, res) \<leftarrow> restart E 0 0 cfg [] s0 m0;
     rs \<leftarrow> start_all E s0 m0 cfgs;
     (case res of Inr _ \<Rightarrow> Some ((cfg_id cfg, r) # rs) | Inl _ \<Rightarrow> None)
   }"

definition cluster_start ::
  "(outbox, 's, 'm) runner_env \<Rightarrow> 's \<Rightarrow> 'm \<Rightarrow> raft_config list \<Rightarrow> ('s, 'm) cluster option" where
  "cluster_start E s0 m0 cfgs =
     map_option (\<lambda>rs. \<lparr>cl_runners = rs, cl_net = [], cl_elected = []\<rparr>) (start_all E s0 m0 cfgs)"

text \<open>The configurations agree: distinct ids, and each lists all the others as its peers.\<close>

definition cluster_config_ok :: "raft_config list \<Rightarrow> bool" where
  "cluster_config_ok cfgs \<longleftrightarrow> distinct (map cfg_id cfgs) \<and>
     (\<forall>c \<in> set cfgs. config_ok c \<and> config_u64 c \<and>
        set (hm_keys (cfg_peer_addrs c)) = cfg_id ` set cfgs - {cfg_id c})"

definition cluster_nodes :: "('s, 'm) cluster \<Rightarrow> nodes" where
  "cluster_nodes cl i = map_option r_node (hm_get (cl_runners cl) i)"

subsection \<open>The invariant of the cluster\<close>

definition runners_ok :: "('s \<Rightarrow> bool) \<Rightarrow> (outbox, 's, 'm) runner_env \<Rightarrow> ('s, 'm) cluster \<Rightarrow> bool" where
  "runners_ok good E cl \<longleftrightarrow>
     (\<forall>i r. hm_get (cl_runners cl) i = Some r \<longrightarrow>
        runner_ok r \<and> backed E r \<and> good (r_storage r) \<and> r_communication r = [] \<and> config_u64 (r_config r))"

definition cluster_inv ::
  "('s \<Rightarrow> bool) \<Rightarrow> (outbox, 's, 'm) runner_env \<Rightarrow> node_id set \<Rightarrow> ('s, 'm) cluster \<Rightarrow> bool" where
  "cluster_inv good E ids cl \<longleftrightarrow> runners_ok good E cl \<and>
     election_inv ids (cluster_nodes cl) (set (cl_net cl)) (set (cl_elected cl))"

lemma send_all_outbox: "en_communication E = outbox_ops \<Longrightarrow> send_all E ms c = c @ ms"
  by (induction ms arbitrary: c) (auto simp: outbox_ops_def)

lemma cluster_nodes_after:
  "cluster_nodes (after_event i r cl) = (cluster_nodes cl)(i \<mapsto> r_node r)"
  "set (cl_net (after_event i r cl)) = set (cl_net cl) \<union> packets_from i (r_communication r)"
  "set (cl_elected (after_event i r cl)) = set (cl_elected cl) \<union> elected_now i (r_node r)"
  by (auto simp: cluster_nodes_def after_event_def packets_from_def elected_now_def fun_eq_iff)

lemma runners_ok_after:
  assumes "runners_ok good E cl" and "runner_ok r" and "backed E r" and "good (r_storage r)"
    and "config_u64 (r_config r)"
  shows "runners_ok good E (after_event i r cl)"
  using assms by (simp add: runners_ok_def after_event_def)

text \<open>A step is an event of one node, with a packet that the network holds, or a restart.\<close>

lemma cluster_step_cases:
  assumes "cluster_step E m0 ev cl = Some cl'"
  obtains (event) i e where "event_from (set (cl_net cl)) i e" and "node_event E i e cl = Some cl'"
  | (again) i k where "restart_event E m0 i k cl = Some cl'"
proof (cases ev)
  case (Deliver k)
  then have k: "k < length (cl_net cl)" using assms by (simp add: cluster_step_def split: if_splits)
  obtain s to msg where p: "cl_net cl ! k = (s, to, msg)" by (cases "cl_net cl ! k") auto
  then have "(s, to, msg) \<in> set (cl_net cl)" using k by (metis nth_mem)
  then have "event_from (set (cl_net cl)) to (Received s msg)" by (simp add: event_from_def)
  then show ?thesis using event assms Deliver k p by (simp add: cluster_step_def)
next
  case (Restarts i k)
  then show ?thesis using again assms by (simp add: cluster_step_def)
qed (use assms event in \<open>auto simp: cluster_step_def event_from_def\<close>)

context durable_runner begin

text \<open>An event at a runner of the cluster is a local step of its node, with a save.\<close>

lemma node_event_local:
  assumes E: "en_communication E = outbox_ops" "en_storage E = S" "gen_range_ok (en_rng E)"
    and inv: "cluster_inv good E ids cl" and ev: "event_from (set (cl_net cl)) i ev"
    and step: "node_event E i ev cl = Some cl'"
  obtains r r' n1 outs where "hm_get (cl_runners cl) i = Some r" and "cl' = after_event i r' cl"
    and "react (en_rng E) ev (r_node r) = Some (n1, outs)" and "handled E r (n1, outs) r'"
    and "r_communication r' = outs" and "runner_ok r'"
    and "local_step (cluster_nodes cl) (set (cl_net cl)) i ev (r_node r) (r_node r') outs"
proof -
  obtain r r' where r: "hm_get (cl_runners cl) i = Some r" "runner_step E ev r = Some r'"
    and cl': "cl' = after_event i r' cl"
    using step by (auto simp: node_event_def bind_Some_iff)
  have ok: "runner_ok r" "r_communication r = []"
    and el: "election_inv ids (cluster_nodes cl) (set (cl_net cl)) (set (cl_elected cl))"
    using inv r(1) by (simp_all add: cluster_inv_def runners_ok_def)
  have ni: "\<not> installs_snapshot ev"
  proof
    assume "installs_snapshot ev"
    then obtain s q where "ev = Received s (InstallSnapshot q)" by (cases ev rule: installs_snapshot.cases) auto
    then have "packet_ok ids (set (cl_elected cl)) (s, i, InstallSnapshot q)"
      using ev el unfolding event_from_def election_inv_def by blast
    then show False by (simp add: packet_ok_def)
  qed
  obtain n1 outs where h: "react (en_rng E) ev (r_node r) = Some (n1, outs)" "handled E r (n1, outs) r'"
    using runner_step_reacts [OF r(2) ni] by (metis surj_pair)
  have inv_n: "node_inv (r_node r)" using ok(1) by (simp add: runner_ok_def)
  have same: "same_election n1 (r_node r')" "r_communication r' = outs"
    using h(2) ok(2) send_all_outbox [OF E(1)] by (simp_all add: handled_def)
  have ok': "runner_ok r'" by (rule runner_step_ok [OF E(3) ok(1) r(2)])
  have sends: "sends_ok ev (r_node r) (r_node r') to m" if "(to, m) \<in> set outs" for to m
    using react_election(2) [OF inv_n h(1) that] same(1)
    by (cases m) (auto simp: sends_ok_def same_election_def)
  have "local_step (cluster_nodes cl) (set (cl_net cl)) i ev (r_node r) (r_node r') outs"
    unfolding local_step_def
    using r(1) ev election_step_same [OF react_election(1) [OF inv_n h(1)] same(1)] sends ok'
      react_ids [OF h(1)] same(1)
    by (simp add: cluster_nodes_def runner_ok_def same_election_def)
  then show thesis using that [OF r(1) cl' h same(2) ok'] by blast
qed

lemma node_event_inv:
  assumes E: "en_communication E = outbox_ops" "en_storage E = S" "gen_range_ok (en_rng E)"
    and inv: "cluster_inv good E ids cl" and ev: "event_from (set (cl_net cl)) i ev"
    and step: "node_event E i ev cl = Some cl'"
  shows "cluster_inv good E ids cl'"
proof -
  obtain r r' n1 outs where h: "hm_get (cl_runners cl) i = Some r" "cl' = after_event i r' cl"
      "react (en_rng E) ev (r_node r) = Some (n1, outs)" "handled E r (n1, outs) r'"
      "r_communication r' = outs" "runner_ok r'"
      "local_step (cluster_nodes cl) (set (cl_net cl)) i ev (r_node r) (r_node r') outs"
    using node_event_local [OF assms] .
  have ok: "backed E r" "good (r_storage r)" "config_u64 (r_config r)"
    and el: "election_inv ids (cluster_nodes cl) (set (cl_net cl)) (set (cl_elected cl))"
    using inv h(1) by (simp_all add: cluster_inv_def runners_ok_def)
  have "r_config r' = r_config r" using h(4) by (simp add: handled_def)
  with election_inv_step [OF el h(7)] saved_or_same(1) [OF E(2) ok(2) handled_saves [OF h(4)]]
    saved_or_same(3) [OF E(2) ok(2) handled_saves [OF h(4)] ok(1)] h(6) ok(3) inv show ?thesis
    unfolding h(2) cluster_inv_def cluster_nodes_after h(5)
    using runners_ok_after [of good E cl r' i] by simp
qed

lemma restart_event_local:
  assumes E: "en_communication E = outbox_ops" "gen_range_ok (en_rng E)"
    and inv: "cluster_inv good E ids cl" and step: "restart_event E m0 i k cl = Some cl'"
  obtains r r' where "hm_get (cl_runners cl) i = Some r" and "cl' = after_event i r' cl"
    and "node_view (r_node r') = node_view (r_node r)" and "role (r_node r') = Follower"
    and "r_storage r' = r_storage r" and "r_config r' = r_config r" and "runner_ok r'" and "backed E r'"
    and "r_communication r' = []"
proof -
  obtain r r' res where rr: "hm_get (cl_runners cl) i = Some r"
      "restart E k 0 (r_config r) [] (r_storage r) m0 = Some (r', res)"
    and res: "(case res of Inr _ \<Rightarrow> Some (after_event i r' cl) | Inl _ \<Rightarrow> None) = Some cl'"
    using step by (auto simp: restart_event_def bind_Some_iff)
  then have r: "hm_get (cl_runners cl) i = Some r"
      "restart E k 0 (r_config r) [] (r_storage r) m0 = Some (r', Inr ())"
    and cl': "cl' = after_event i r' cl"
    by (cases res; simp)+
  have ok: "runner_ok r" "backed E r" "config_u64 (r_config r)"
    using inv r(1) by (simp_all add: cluster_inv_def runners_ok_def)
  note b = restart_backed [OF r(2) ok(2,1) E(2) ok(3)]
  have "r_communication r' = []" using b(7) by (simp add: E(1) outbox_ops_def)
  then show thesis using that [OF r(1) cl' b(1-6)] by blast
qed

lemma restart_event_inv:
  assumes E: "en_communication E = outbox_ops" "en_storage E = S" "gen_range_ok (en_rng E)"
    and inv: "cluster_inv good E ids cl" and step: "restart_event E m0 i k cl = Some cl'"
  shows "cluster_inv good E ids cl'"
proof -
  obtain r r' where r: "hm_get (cl_runners cl) i = Some r" and cl': "cl' = after_event i r' cl"
    and b: "node_view (r_node r') = node_view (r_node r)" "role (r_node r') = Follower"
      "r_storage r' = r_storage r" "r_config r' = r_config r" "runner_ok r'" "backed E r'" "r_communication r' = []"
    using restart_event_local [OF E(1,3) inv step] .
  have ok: "runner_ok r" "good (r_storage r)" "config_u64 (r_config r)"
    and el: "election_inv ids (cluster_nodes cl) (set (cl_net cl)) (set (cl_elected cl))"
    using inv r(1) by (simp_all add: cluster_inv_def runners_ok_def)
  have view: "ss_current_term (node_view (r_node r')) = ss_current_term (node_view (r_node r))"
    "ss_voted_for (node_view (r_node r')) = ss_voted_for (node_view (r_node r))" using b(1) by simp_all
  have ids: "nid (r_node r') = nid (r_node r)" "peers (r_node r') = peers (r_node r)" "node_inv (r_node r')"
    using ok(1) b(4,5) by (simp_all add: runner_ok_def)
  have "election_inv ids ((cluster_nodes cl)(i \<mapsto> r_node r')) (set (cl_net cl)) (set (cl_elected cl))"
    using r view b(2) by (intro election_inv_restart [OF el _ ids(3,1,2)])
      (simp_all add: cluster_nodes_def node_view_fields)
  then show ?thesis
    unfolding cl' cluster_inv_def cluster_nodes_after
    using inv runners_ok_after [of good E cl r' i] b ok
    by (simp add: cluster_inv_def packets_from_def elected_now_def)
qed

lemma cluster_step_inv:
  assumes "en_communication E = outbox_ops" "en_storage E = S" "gen_range_ok (en_rng E)"
    and "cluster_inv good E ids cl" and "cluster_step E m0 ev cl = Some cl'"
  shows "cluster_inv good E ids cl'"
proof (rule cluster_step_cases [OF assms(5)])
  fix i e
  assume "event_from (set (cl_net cl)) i e" "node_event E i e cl = Some cl'"
  then show ?thesis by (rule node_event_inv [OF assms(1-4)])
next
  fix i k
  assume "restart_event E m0 i k cl = Some cl'"
  then show ?thesis by (rule restart_event_inv [OF assms(1-4)])
qed

lemma cluster_run_inv:
  assumes "en_communication E = outbox_ops" "en_storage E = S" "gen_range_ok (en_rng E)"
  shows "cluster_inv good E ids cl \<Longrightarrow> cluster_run E m0 evs cl = Some cl' \<Longrightarrow> cluster_inv good E ids cl'"
proof (induction evs arbitrary: cl)
  case (Cons ev evs)
  then obtain c where "cluster_step E m0 ev cl = Some c" "cluster_run E m0 evs c = Some cl'"
    by (auto simp: bind_Some_iff)
  then show ?case using Cons.IH cluster_step_inv [OF assms Cons.prems(1)] by blast
qed simp

end

subsection \<open>The start of the cluster\<close>

lemma start_all_get:
  assumes "start_all E s0 m0 cfgs = Some rs"
  shows "map fst rs = map cfg_id cfgs"
    and "hm_get rs i = Some r \<Longrightarrow>
      \<exists>cfg \<in> set cfgs. cfg_id cfg = i \<and> restart E 0 0 cfg [] s0 m0 = Some (r, Inr ())"
proof -
  have "map fst rs = map cfg_id cfgs \<and> (\<forall>i r. hm_get rs i = Some r \<longrightarrow>
      (\<exists>cfg \<in> set cfgs. cfg_id cfg = i \<and> restart E 0 0 cfg [] s0 m0 = Some (r, Inr ())))"
    using assms
  proof (induction cfgs arbitrary: rs)
    case (Cons cfg cfgs)
    then obtain q res rs' where q: "restart E 0 0 cfg [] s0 m0 = Some (q, res)" "start_all E s0 m0 cfgs = Some rs'"
      and c: "(case res of Inr _ \<Rightarrow> Some ((cfg_id cfg, q) # rs') | Inl _ \<Rightarrow> None) = Some rs"
      by (auto simp: bind_Some_iff)
    then have "res = Inr ()" "rs = (cfg_id cfg, q) # rs'" by (cases res; simp)+
    then show ?case using q Cons.IH [OF q(2)] by auto
  qed simp
  then show "map fst rs = map cfg_id cfgs"
    and "hm_get rs i = Some r \<Longrightarrow>
      \<exists>cfg \<in> set cfgs. cfg_id cfg = i \<and> restart E 0 0 cfg [] s0 m0 = Some (r, Inr ())" by blast+
qed

lemma hm_get_dom: "dom (hm_get m) = fst ` set m"
proof -
  have "hm_get m = map_of m" by (rule ext) (simp add: hm_get_def)
  then show ?thesis by (simp add: dom_map_of_conv_image_fst)
qed

context durable_runner begin

lemma cluster_start_inv:
  assumes E: "en_communication E = outbox_ops" "en_storage E = S" "gen_range_ok (en_rng E)"
    and cfgs: "cluster_config_ok cfgs" and s0: "good s0" "\<forall>i. st_load S s0 i = None"
    and start: "cluster_start E s0 m0 cfgs = Some cl"
  shows "cluster_inv good E (cfg_id ` set cfgs) cl"
proof -
  obtain rs where rs: "start_all E s0 m0 cfgs = Some rs" and cl: "cl = \<lparr>cl_runners = rs, cl_net = [], cl_elected = []\<rparr>"
    using start by (auto simp: cluster_start_def)
  have node: "runner_ok r \<and> backed E r \<and> good (r_storage r) \<and> r_communication r = [] \<and> config_u64 (r_config r) \<and>
      nid (r_node r) = i \<and> role (r_node r) = Follower \<and>
      set (peers (r_node r)) = cfg_id ` set cfgs - {i} \<and> distinct (peers (r_node r))"
    if at: "hm_get rs i = Some r" for i r
  proof -
    obtain cfg where cfg: "cfg \<in> set cfgs" "cfg_id cfg = i" "restart E 0 0 cfg [] s0 m0 = Some (r, Inr ())"
      using start_all_get(2) [OF rs at] by blast
    have c: "config_ok cfg" "config_u64 cfg" "set (hm_keys (cfg_peer_addrs cfg)) = cfg_id ` set cfgs - {i}"
      using cfgs cfg(1,2) by (auto simp: cluster_config_ok_def)
    have none: "st_load (en_storage E) s0 (cfg_id cfg) = None" using s0(2) E(2) by simp
    note f = restart_fresh [OF cfg(3) none]
    have ok: "runner_ok r" using f(6) E(3) c(2) by blast
    moreover have "backed E r" using f(1,3) ok none f(4) by (simp add: backed_def runner_ok_def)
    moreover have "distinct (hm_keys (cfg_peer_addrs cfg))" using c(1) by (simp add: config_ok_def hm_ok_def hm_keys_def)
    ultimately show ?thesis
      using f s0(1) c cfg(2) E(1) by (simp add: runner_ok_def outbox_ops_def)
  qed
  have dom: "dom (cluster_nodes cl) = cfg_id ` set cfgs"
  proof -
    have "dom (cluster_nodes cl) = dom (hm_get rs)" by (auto simp: cluster_nodes_def cl dom_def)
    also have "\<dots> = set (map fst rs)" by (simp add: hm_get_dom)
    finally show ?thesis unfolding start_all_get(1) [OF rs] by simp
  qed
  have "nodes_ok (cfg_id ` set cfgs) (cluster_nodes cl)"
    unfolding nodes_ok_def using node dom by (auto simp: cluster_nodes_def cl runner_ok_def)
  moreover have "leaders_elected (cluster_nodes cl) {}" "votes_backed (cluster_nodes cl) {}"
    using node by (auto simp: leaders_elected_def votes_backed_def cluster_nodes_def cl)
  moreover have "runners_ok good E cl" using node by (simp add: runners_ok_def cl)
  ultimately show ?thesis
    by (simp add: cluster_inv_def election_inv_def cl grants_current_def grants_unique_def elected_ok_def
        one_leader_def granted_def)
qed

text \<open>A cluster that has run from its start: every state keeps the invariant.\<close>

lemma cluster_reachable_inv:
  assumes "en_communication E = outbox_ops" "en_storage E = S" "gen_range_ok (en_rng E)"
    and "cluster_config_ok cfgs" and "good s0" "\<forall>i. st_load S s0 i = None"
    and "cluster_start E s0 m0 cfgs = Some cl0" and "cluster_run E m0 evs cl0 = Some cl"
  shows "cluster_inv good E (cfg_id ` set cfgs) cl"
  using cluster_run_inv [OF assms(1-3) cluster_start_inv [OF assms(1-7)] assms(8)] .

end

end
