(* ===== verification/Log_History.thy ===== *)
theory Log_History
  imports Election
begin

text \<open>
  Logs as chains of proposals. A history records for every proposal the index, the term, the command
  and the term of the entry before it; it is not part of the program. A log and an AppendEntries
  request are chains when each entry, after the one before it, is in the history. Two chains of one
  history match wherever they have an entry of the same term at the same index. \<open>log_step\<close> says what an
  event does to the log of a node, and \<open>react_built\<close> that every request is a slice of the sender's log.
\<close>

type_synonym history = "(nat \<times> term_no \<times> str \<times> term_no) set"

subsection \<open>Chains of proposals\<close>

text \<open>The entries follow an entry of term \<open>u\<close> at index \<open>b\<close>.\<close>

fun chained :: "history \<Rightarrow> nat \<Rightarrow> term_no \<Rightarrow> log_entry list \<Rightarrow> bool" where
  "chained H b u [] = True"
| "chained H b u (e # es) \<longleftrightarrow>
     (b + 1, le_term e, le_command e, u) \<in> H \<and> chained H (b + 1) (le_term e) es"

definition end_term :: "term_no \<Rightarrow> log_entry list \<Rightarrow> term_no" where
  "end_term u es = (if es = [] then u else le_term (last es))"

lemma end_term_simps [simp]: "end_term u [] = u" "end_term u (e # es) = end_term (le_term e) es"
  by (simp_all add: end_term_def)

lemma chained_mono: "chained H b u es \<Longrightarrow> H \<subseteq> H' \<Longrightarrow> chained H' b u es"
  by (induction es arbitrary: b u) auto

lemma chained_append:
  "chained H b u (xs @ ys) \<longleftrightarrow> chained H b u xs \<and> chained H (b + length xs) (end_term u xs) ys"
  by (induction xs arbitrary: b u) auto

lemma chained_take_drop:
  assumes "chained H b u es" and "k \<le> length es"
  shows "chained H b u (take k es)" and "chained H (b + k) (end_term u (take k es)) (drop k es)"
  using assms chained_append [of H b u "take k es" "drop k es"] by (simp_all add: min_absorb2)

lemma chained_nth:
  "chained H b u es \<Longrightarrow> k < length es \<Longrightarrow>
     (b + k + 1, le_term (es ! k), le_command (es ! k), end_term u (take k es)) \<in> H"
proof (induction es arbitrary: b u k)
  case (Cons e es)
  then show ?case using Cons.IH [of "b + 1" "le_term e" "k - 1"] by (cases k) auto
qed simp

text \<open>Two chains from one point reconcile to a chain.\<close>

lemma chained_reconcile: "chained H b u xs \<Longrightarrow> chained H b u ys \<Longrightarrow> chained H b u (reconcile xs ys)"
  by (induction xs ys arbitrary: b u rule: reconcile.induct) auto

text \<open>An index and a term determine the command and the term before.\<close>

definition functional :: "history \<Rightarrow> bool" where
  "functional H \<longleftrightarrow>
     (\<forall>k t c c' u u'. (k, t, c, u) \<in> H \<longrightarrow> (k, t, c', u') \<in> H \<longrightarrow> c = c' \<and> u = u')"

text \<open>A chain with the base case of an empty snapshot.\<close>

definition based :: "history \<Rightarrow> nat \<Rightarrow> term_no \<Rightarrow> log_entry list \<Rightarrow> bool" where
  "based H b u es \<longleftrightarrow> chained H b u es \<and> (b = 0 \<longrightarrow> u = 0)"

definition log_based :: "history \<Rightarrow> raft_node \<Rightarrow> bool" where
  "log_based H n \<longleftrightarrow> based H (snapshot_last_included_index n) (snapshot_last_included_term n) (log n)"

definition request_based :: "history \<Rightarrow> append_entries \<Rightarrow> bool" where
  "request_based H req \<longleftrightarrow> based H (ae_prev_log_index req) (ae_prev_log_term req) (ae_entries req)"

lemma based_mono: "based H b u es \<Longrightarrow> H \<subseteq> H' \<Longrightarrow> based H' b u es"
  using chained_mono by (auto simp: based_def)

lemma log_based_cong:
  "log m = log n \<Longrightarrow> snapshot_last_included_index m = snapshot_last_included_index n \<Longrightarrow>
   snapshot_last_included_term m = snapshot_last_included_term n \<Longrightarrow> log_based H m = log_based H n"
  by (simp add: log_based_def)

text \<open>Any suffix of a log, from a position that the log knows, is a chain from the term there.\<close>

lemma term_at_prefix:
  assumes "k \<le> length (log n)"
  shows "term_at n (snapshot_last_included_index n + k) =
    Some (end_term (snapshot_last_included_term n) (take k (log n)))"
proof (cases k)
  case (Suc j)
  then have "take k (log n) = take j (log n) @ [log n ! j]" using assms by (simp add: take_Suc_conv_app_nth)
  then show ?thesis using Suc assms by (simp add: term_at_def offset_for_index_def end_term_def)
qed (simp add: term_at_def)

lemma based_suffix:
  assumes "log_based H n" and "k \<le> length (log n)" and "term_at n (snapshot_last_included_index n + k) = Some t"
  shows "based H (snapshot_last_included_index n + k) t (drop k (log n))"
proof -
  have t: "t = end_term (snapshot_last_included_term n) (take k (log n))"
    using assms(3) term_at_prefix [OF assms(2)] by simp
  show ?thesis
    using assms(1) chained_take_drop(2) [of H _ _ "log n" k] assms(2)
    by (auto simp: t log_based_def based_def)
qed

lemma cut_log_based: "log_based H n \<Longrightarrow> cut_log n n' \<Longrightarrow> log_based H n'"
  unfolding cut_log_def using based_suffix by (metis log_based_def)

lemma cut_log_end: "cut_log n n' \<Longrightarrow> log_end n' = log_end n"
  by (auto simp: cut_log_def log_end_def)

lemma entry_at_history:
  assumes "log_based H n" and "entry_at n k = Some e"
  obtains u where "term_at n (k - 1) = Some u" and "(k, le_term e, le_command e, u) \<in> H"
proof -
  let ?s = "snapshot_last_included_index n"
  let ?j = "k - ?s - 1"
  have k: "?s < k" "?j < length (log n)" "e = log n ! ?j" "k - 1 = ?s + ?j" "k = ?s + ?j + 1"
    using assms(2) by (auto simp: entry_at_log split: if_splits)
  have "chained H ?s (snapshot_last_included_term n) (log n)" using assms(1) by (simp add: log_based_def based_def)
  from chained_nth [OF this k(2)] have "(k, le_term e, le_command e,
      end_term (snapshot_last_included_term n) (take ?j (log n))) \<in> H"
    using k(3,5) by simp
  moreover have "term_at n (k - 1) = Some (end_term (snapshot_last_included_term n) (take ?j (log n)))"
    unfolding k(4) using term_at_prefix [of ?j n] k(2) by simp
  ultimately show thesis using that by blast
qed

text \<open>The matching of two logs that are chains of one history.\<close>

lemma chains_match:
  assumes "functional H" and "log_based H n" and "log_based H n'"
  shows "entry_at n k = Some e \<Longrightarrow> entry_at n' k = Some e' \<Longrightarrow> le_term e = le_term e' \<Longrightarrow> l \<le> k \<Longrightarrow>
    entry_at n l = Some x \<Longrightarrow> entry_at n' l = Some x' \<Longrightarrow> x = x'"
proof (induction k arbitrary: e e')
  case 0
  then show ?case by (simp add: entry_at_def)
next
  case (Suc k)
  obtain u where u: "term_at n k = Some u" "(Suc k, le_term e, le_command e, u) \<in> H"
    using entry_at_history [OF assms(2) Suc.prems(1)] by auto
  obtain u' where u': "term_at n' k = Some u'" "(Suc k, le_term e', le_command e', u') \<in> H"
    using entry_at_history [OF assms(3) Suc.prems(2)] by auto
  have same: "le_command e = le_command e'" "u = u'"
    using assms(1) u(2) u'(2) Suc.prems(3) unfolding functional_def by metis+
  show ?case
  proof (cases "l = Suc k")
    case True
    then show ?thesis using Suc.prems same by simp
  next
    case False
    then have l: "l \<le> k" using Suc.prems(4) by simp
    then have in1: "snapshot_last_included_index n < k" "snapshot_last_included_index n' < k"
      using Suc.prems(5,6) by (simp_all add: entry_at_Some_iff)
    then obtain f f' where "entry_at n k = Some f" "entry_at n' k = Some f'" "le_term f = u" "le_term f' = u'"
      using u(1) u'(1) by (auto simp: term_at_entry)
    then show ?thesis using Suc.IH [of f f'] l same(2) Suc.prems(5,6) by simp
  qed
qed

subsection \<open>What an event does to the log\<close>

definition same_log :: "raft_node \<Rightarrow> raft_node \<Rightarrow> bool" where
  "same_log n n' \<longleftrightarrow> log n' = log n \<and> snapshot_last_included_index n' = snapshot_last_included_index n \<and>
     snapshot_last_included_term n' = snapshot_last_included_term n"

lemma same_log_refl [simp]: "same_log n n"
  by (simp add: same_log_def)

text \<open>
  Only two events write a log: a request that the follower accepts, and a proposal at a leader.
  \<open>term_at\<close> and \<open>log_end\<close> of the follower are those it had before it stepped down.
\<close>

definition proposal :: "runner_event \<Rightarrow> raft_node \<Rightarrow> str option" where
  "proposal ev n =
     (if role n \<noteq> Leader then None else case ev of Commanded (Propose v) \<Rightarrow> Some v | _ \<Rightarrow> None)"

lemma proposal_simps [simp]:
  "proposal (Received s msg) n = None" "proposal Ticked n = None"
  "role n \<noteq> Leader \<Longrightarrow> proposal ev n = None"
  "role n = Leader \<Longrightarrow> proposal (Commanded (Propose v)) n = Some v"
  "proposal (Commanded ForceElection) n = None" "proposal (Commanded Status) n = None"
  "proposal (Commanded Shutdown) n = None"
  by (simp_all add: proposal_def)

lemma proposal_Some_iff: "proposal ev n = Some v \<longleftrightarrow> role n = Leader \<and> ev = Commanded (Propose v)"
  by (auto simp: proposal_def split: runner_event.splits command.splits)

inductive log_step :: "runner_event \<Rightarrow> raft_node \<Rightarrow> raft_node \<Rightarrow> bool" where
  unchanged: "proposal ev n = None \<Longrightarrow> same_log n n' \<Longrightarrow> log_step ev n n'"
| accepts: "ev = Received sender (AppendEntries req) \<Longrightarrow> role n' = Follower \<Longrightarrow> ae_consistent req n \<Longrightarrow>
    same_log (n\<lparr>log := take (ae_prev_log_index req - snapshot_last_included_index n) (log n) @
      reconcile (drop (ae_prev_log_index req - snapshot_last_included_index n) (log n)) (ae_entries req)\<rparr>) n' \<Longrightarrow>
    log_step ev n n'"
| proposes: "proposal ev n = Some v \<Longrightarrow>
    same_log (n\<lparr>log := log n @ [\<lparr>le_term = current_term n, le_command = v\<rparr>]\<rparr>) n' \<Longrightarrow> log_step ev n n'"

lemma append_entries_log:
  assumes "handle_append_entries rng req n = Some (n', r)"
  shows "log_step (Received s (AppendEntries req)) n n'"
  using assms
proof (cases rule: handle_append_entries_cases)
  case stale
  then show ?thesis by (simp add: unchanged)
next
  case (reject)
  then show ?thesis using ae_step_down_effect by (intro unchanged) (auto simp: same_log_def)
next
  case (accept m)
  have m: "log m = log n" "snapshot_last_included_index m = snapshot_last_included_index n"
    "snapshot_last_included_term m = snapshot_last_included_term n" "role m = Follower"
    using ae_step_down_effect [OF accept(2)] by simp_all
  have c: "ae_consistent req n = ae_consistent req m"
    unfolding ae_consistent_def term_at_cong [OF m(1-3)] log_end_cong [OF m(1,2)] m(2) ..
  obtain l k where "n' = m\<lparr>log := l, commit_index := k\<rparr>" using ae_accept_effect [OF accept(4)] by blast
  then have "role n' = Follower" using m(4) by simp
  then show ?thesis
    using ae_accept_log [OF accept(3,4)] accept(3) m c by (intro accepts [OF refl]) (simp_all add: same_log_def)
qed

lemma tick_log: "tick rng n = Some (n', ms) \<Longrightarrow> same_log n n'"
  by (erule tick_cases) (auto simp: same_log_def start_election_Some_iff)

lemma vote_response_log:
  "handle_request_vote_response rng resp n = Some (n', b) \<Longrightarrow> same_log n n'"
  by (erule handle_request_vote_response_cases)
    (auto simp: same_log_def become_follower_Some_iff become_leader_Some_iff split: if_splits)

lemma append_response_log:
  "handle_append_entries_response rng resp n = Some (n', ms) \<Longrightarrow> same_log n n'"
  by (drule handle_append_entries_response_effect) (auto simp: same_log_def become_follower_Some_iff)

lemma message_log:
  assumes "react_message rng s msg n = Some (n', outs)"
  shows "log_step (Received s msg) n n'"
proof (cases msg)
  case (RequestVote req)
  then show ?thesis using assms handle_request_vote_effect
    by (fastforce simp: react_message_def same_log_def intro: unchanged)
next
  case (RequestVoteResponse resp)
  then obtain k b where h: "handle_request_vote_response rng resp n = Some (k, b)"
    and t: "n' = k \<or> (\<exists>ms. tick rng k = Some (n', ms))"
    using assms by (auto simp: react_message_def bind_Some_iff split: if_splits)
  have "same_log k n'" using t tick_log by auto
  then show ?thesis using vote_response_log [OF h] RequestVoteResponse by (intro unchanged) (simp_all add: same_log_def)
next
  case (AppendEntries req)
  then show ?thesis using assms append_entries_log by (auto simp: react_message_def)
next
  case (AppendEntriesResponse resp)
  then show ?thesis using assms append_response_log by (auto simp: react_message_def intro: unchanged)
qed (use assms in \<open>auto simp: react_message_def intro: unchanged\<close>)

lemma react_log:
  assumes "react rng ev n = Some (n', outs)"
  shows "log_step ev n n'"
proof (cases ev)
  case (Received s msg)
  then show ?thesis using assms message_log by (simp add: react_def)
next
  case Ticked
  then show ?thesis using assms tick_log by (auto simp: react_def intro: unchanged)
next
  case (Commanded cmd)
  show ?thesis
  proof (cases cmd)
    case (Propose v)
    then obtain ms where p: "propose_command v n = Some (n', ms)" using assms Commanded by (auto simp: react_def)
    show ?thesis
    proof (cases "role n = Leader")
      case True
      then show ?thesis using propose_command_effect [OF p] Commanded Propose
        by (intro proposes) (auto simp: same_log_def)
    next
      case False
      then show ?thesis using propose_command_effect [OF p] by (intro unchanged) auto
    qed
  next
    case ForceElection
    then show ?thesis using assms Commanded
      by (auto simp: react_def start_election_Some_iff same_log_def intro!: unchanged)
  qed (use assms Commanded in \<open>auto simp: react_def intro: unchanged\<close>)
qed

subsection \<open>The log of a leader\<close>

lemma cut_log_entry:
  assumes "cut_log n n'" and "snapshot_last_included_index n' < i"
  shows "entry_at n' i = entry_at n i"
proof -
  obtain k where k: "k \<le> length (log n)" "log n' = drop k (log n)"
    "snapshot_last_included_index n' = snapshot_last_included_index n + k"
    using assms(1) unfolding cut_log_def by blast
  have "i - snapshot_last_included_index n' - 1 < length (log n) - k \<longleftrightarrow>
      i - snapshot_last_included_index n - 1 < length (log n)"
    "k + (i - snapshot_last_included_index n' - 1) = i - snapshot_last_included_index n - 1"
    using assms(2) k by auto
  then show ?thesis using assms(2) k by (simp add: entry_at_log)
qed

text \<open>A node that leads after an event has the log it had before, with its own proposal at the end.\<close>

lemma leader_log:
  assumes "react rng ev n = Some (m, outs)" and "role m = Leader" and "cut_log m n'"
  shows "log_end n' = log_end n + (if proposal ev n = None then 0 else 1)"
    and "snapshot_last_included_index n' < i \<Longrightarrow> i \<le> log_end n \<Longrightarrow> entry_at n' i = entry_at n i"
    and "proposal ev n = Some v \<Longrightarrow> snapshot_last_included_index n' \<le> log_end n \<Longrightarrow>
      entry_at n' (log_end n + 1) = Some \<lparr>le_term = current_term n, le_command = v\<rparr>"
proof -
  let ?new = "case proposal ev n of None \<Rightarrow> [] | Some v \<Rightarrow> [\<lparr>le_term = current_term n, le_command = v\<rparr>]"
  have m: "log m = log n @ ?new" "snapshot_last_included_index m = snapshot_last_included_index n"
    using react_log [OF assms(1)] assms(2) by (cases; simp add: same_log_def)+
  show "log_end n' = log_end n + (if proposal ev n = None then 0 else 1)"
    using cut_log_end [OF assms(3)] m by (simp add: log_end_def split: option.splits)
  show "entry_at n' i = entry_at n i" if "snapshot_last_included_index n' < i" "i \<le> log_end n"
    using cut_log_entry [OF assms(3) that(1)] that(2) m by (auto simp: entry_at_log log_end_def nth_append)
  show "entry_at n' (log_end n + 1) = Some \<lparr>le_term = current_term n, le_command = v\<rparr>"
    if "proposal ev n = Some v" "snapshot_last_included_index n' \<le> log_end n"
    using cut_log_entry [OF assms(3), of "log_end n + 1"] that m by (simp add: entry_at_log log_end_def nth_append)
qed

subsection \<open>The requests of a leader are slices of its log\<close>

text \<open>Whatever the event, a request that is sent was built from the node that is left.\<close>

lemma build_messages_built:
  "build_messages_for n ps = Some ms \<Longrightarrow> (to, AppendEntries req) \<in> set (map outbound_to ms) \<Longrightarrow>
     \<exists>p. build_append_entries_for_peer n p = Some (Some req)"
proof (induction ps arbitrary: ms)
  case (Cons p ps)
  then obtain x ms' where x: "build_append_entries_for_peer n p = Some x" and r: "build_messages_for n ps = Some ms'"
    and ms: "ms = (case x of None \<Rightarrow> ms' | Some message \<Rightarrow> OutAppendEntries p message # ms')"
    by (auto simp: bind_Some_iff)
  show ?case
  proof (cases "(to, AppendEntries req) \<in> set (map outbound_to ms')")
    case True
    then show ?thesis using Cons.IH [OF r] by blast
  next
    case False
    then show ?thesis using Cons.prems(2) ms x by (cases x) (auto simp: outbound_to_def)
  qed
qed simp

lemma tick_built:
  assumes "tick rng n = Some (n', ms)" and "(to, AppendEntries req) \<in> set (map outbound_to ms)"
  shows "\<exists>p. build_append_entries_for_peer n' p = Some (Some req)"
  using assms(1)
proof (cases rule: tick_cases)
  case (leader h)
  then have "build_messages_for n' (peers n') = Some ms" using assms(2) by (auto simp: build_heartbeat_messages_def)
  then show ?thesis using build_messages_built assms(2) by blast
next
  case election
  then show ?thesis using assms(2) by (auto simp: start_election_Some_iff outbound_to_def)
qed (use assms(2) in simp)

lemma message_built:
  assumes "react_message rng s msg n = Some (n', outs)" and "(to, AppendEntries req) \<in> set outs"
  shows "\<exists>p. build_append_entries_for_peer n' p = Some (Some req)"
proof (cases msg)
  case (RequestVoteResponse resp)
  then obtain k b where h: "handle_request_vote_response rng resp n = Some (k, b)"
    and t: "outs = [] \<or> (\<exists>ms. tick rng k = Some (n', ms) \<and> outs = map outbound_to ms)"
    using assms(1) by (auto simp: react_message_def bind_Some_iff split: if_splits)
  then show ?thesis using tick_built assms(2) by (metis empty_iff list.set(1))
next
  case (AppendEntriesResponse resp)
  then obtain ms where h: "handle_append_entries_response rng resp n = Some (n', ms)" "outs = map outbound_to ms"
    using assms(1) by (auto simp: react_message_def)
  then show ?thesis using append_response_built [OF h(1)] assms(2) by (fastforce simp: outbound_to_def)
qed (use assms in \<open>auto simp: react_message_def\<close>)

lemma react_built:
  assumes "react rng ev n = Some (n', outs)" and "(to, AppendEntries req) \<in> set outs"
  shows "\<exists>p. build_append_entries_for_peer n' p = Some (Some req)"
proof (cases ev)
  case (Received s msg)
  then show ?thesis using assms message_built by (simp add: react_def)
next
  case Ticked
  then show ?thesis using assms tick_built by (auto simp: react_def)
next
  case (Commanded cmd)
  show ?thesis
  proof (cases cmd)
    case (Propose v)
    then obtain ms out where p: "propose_command v n = Some (n', ms)"
      and outs: "ms = Some out" "outs = map outbound_to out"
      using assms Commanded by (auto simp: react_def split: option.splits)
    have "build_messages_for n' (peers n') = Some out"
      using p outs(1) by (auto simp: propose_command_def bind_Some_iff Let_def build_heartbeat_messages_def split: if_splits)
    then show ?thesis using build_messages_built assms(2) outs(2) by blast
  next
    case ForceElection
    then show ?thesis using assms Commanded by (auto simp: react_def start_election_Some_iff outbound_to_def)
  qed (use assms Commanded in \<open>auto simp: react_def\<close>)
qed

lemma built_request_based:
  assumes "log_based H n" and "build_append_entries_for_peer n p = Some (Some req)"
  shows "request_based H req"
proof -
  let ?s = "snapshot_last_included_index n" and ?i = "next_index_for n p"
  have "log_end n < u64_limit"
    using assms(2) by (auto simp: build_append_entries_for_peer_def bind_Some_iff Let_def last_log_index_Some_iff
        split: if_splits option.splits)
  then have i: "?s < ?i" "?i \<le> log_end n + 1" and req: "req = replication_message n ?i"
    using assms(2) build_append_entries_eq by (simp_all split: if_splits)
  have k: "?i - 1 = ?s + (?i - 1 - ?s)" "?i - 1 - ?s \<le> length (log n)" using i by (simp_all add: log_end_def)
  obtain t where t: "term_at n (?i - 1) = Some t" using replication_message_end(2) [OF i] by blast
  have "based H (?s + (?i - 1 - ?s)) t (drop (?i - 1 - ?s) (log n))"
    by (rule based_suffix [OF assms(1) k(2)]) (use k(1) t in simp)
  then show ?thesis using k(1) t by (simp add: req request_based_def replication_message_def)
qed

end
