(* ===== verification/Log_Matching.thy ===== *)
theory Log_Matching
  imports Cluster Log_History
begin

text \<open>
  Log matching across a cluster: two logs that have an entry of the same term at the same index have
  the same entries up to there. The invariant keeps a history of all proposals beside the cluster: a
  leader proposes each index of its term once, and every log and every request is a chain of the
  history. Compaction and restarts keep it.
\<close>

subsection \<open>The invariant\<close>

text \<open>
  Every proposal was made by a leader of its term; a leader's log reaches as far as the proposals of its
  term; a candidate has not yet led its term.
\<close>

definition terms_led :: "history \<Rightarrow> (term_no \<times> node_id) set \<Rightarrow> bool" where
  "terms_led H el \<longleftrightarrow> (\<forall>k t c u. (k, t, c, u) \<in> H \<longrightarrow> (\<exists>j. (t, j) \<in> el))"

definition leaders_ahead :: "history \<Rightarrow> nodes \<Rightarrow> bool" where
  "leaders_ahead H N \<longleftrightarrow> (\<forall>i n k c u. N i = Some n \<longrightarrow> role n = Leader \<longrightarrow>
     (k, current_term n, c, u) \<in> H \<longrightarrow> k \<le> log_end n)"

definition candidates_new :: "nodes \<Rightarrow> (term_no \<times> node_id) set \<Rightarrow> bool" where
  "candidates_new N el \<longleftrightarrow> (\<forall>i n. N i = Some n \<longrightarrow> role n = Candidate \<longrightarrow> (current_term n, i) \<notin> el)"

definition history_inv ::
  "history \<Rightarrow> nodes \<Rightarrow> packet set \<Rightarrow> (term_no \<times> node_id) set \<Rightarrow> bool" where
  "history_inv H N net el \<longleftrightarrow> functional H \<and> terms_led H el \<and> leaders_ahead H N \<and> candidates_new N el \<and>
     (\<forall>i n. N i = Some n \<longrightarrow> log_based H n) \<and>
     (\<forall>s to req. (s, to, AppendEntries req) \<in> net \<longrightarrow> request_based H req)"

text \<open>The history after an event: a proposal at a leader adds one entry to it.\<close>

definition propose_history :: "runner_event \<Rightarrow> raft_node \<Rightarrow> history \<Rightarrow> history" where
  "propose_history ev n H =
     (case proposal ev n of
        None \<Rightarrow> H
      | Some v \<Rightarrow> insert (log_end n + 1, current_term n, v, last_term n) H)"

lemma propose_history_mono: "H \<subseteq> propose_history ev n H"
  by (auto simp: propose_history_def split: option.splits)

text \<open>A new proposal is made by a leader, in its term, just past the end of its log.\<close>

lemma propose_history_new:
  "(k, t, c, u) \<in> propose_history ev n H \<Longrightarrow> (k, t, c, u) \<in> H \<or>
     role n = Leader \<and> proposal ev n = Some c \<and> k = log_end n + 1 \<and> t = current_term n \<and> u = last_term n"
  by (auto simp: propose_history_def proposal_Some_iff split: option.splits)

lemma log_step_based:
  assumes "log_step ev n m" and "log_based H n"
    and "\<And>s req. ev = Received s (AppendEntries req) \<Longrightarrow> request_based H req"
  shows "log_based (propose_history ev n H) m"
  using assms(1)
proof cases
  case unchanged
  then have "log_based H m" using assms(2) log_based_cong [of m n] by (simp add: same_log_def)
  then show ?thesis using based_mono propose_history_mono unfolding log_based_def by blast
next
  case (accepts s req)
  let ?s = "snapshot_last_included_index n" and ?u = "snapshot_last_included_term n" and ?p = "ae_prev_log_index req"
  have c: "?s \<le> ?p" "?p \<le> log_end n" "?p = 0 \<or> term_at n ?p = Some (ae_prev_log_term req)"
    using accepts(3) unfolding ae_consistent_def by blast+
  have r: "based H ?p (ae_prev_log_term req) (ae_entries req)"
    using assms(3) [OF accepts(1)] by (simp add: request_based_def)
  have l: "based H ?s ?u (log n)" using assms(2) by (simp add: log_based_def)
  have t: "term_at n ?p = Some (ae_prev_log_term req)"
    using c l r by (cases "?p = 0") (auto simp: based_def term_at_def)
  have k: "?p - ?s \<le> length (log n)" "?s + (?p - ?s) = ?p" using c by (simp_all add: log_end_def)
  have d: "based H ?p (ae_prev_log_term req) (drop (?p - ?s) (log n))"
    using based_suffix [OF assms(2) k(1)] k(2) t by simp
  have e: "end_term ?u (take (?p - ?s) (log n)) = ae_prev_log_term req"
    using term_at_prefix [OF k(1)] k(2) t by simp
  have "chained H ?s ?u (take (?p - ?s) (log n))" using chained_take_drop(1) l k(1) by (auto simp: based_def)
  moreover have "chained H ?p (ae_prev_log_term req) (reconcile (drop (?p - ?s) (log n)) (ae_entries req))"
    using chained_reconcile d r by (simp add: based_def)
  ultimately have "log_based H m"
    using accepts(4) l k e by (simp add: log_based_def based_def same_log_def chained_append min_absorb2)
  moreover have "propose_history ev n H = H" using accepts(1) by (simp add: propose_history_def)
  ultimately show ?thesis by simp
next
  case (proposes v)
  let ?H = "propose_history ev n H"
  have l: "based ?H (snapshot_last_included_index n) (snapshot_last_included_term n) (log n)"
    using assms(2) based_mono propose_history_mono unfolding log_based_def by blast
  have "(log_end n + 1, current_term n, v, last_term n) \<in> ?H" using proposes(1) by (simp add: propose_history_def)
  then show ?thesis using l proposes(2)
    by (simp add: log_based_def based_def same_log_def chained_append end_term_def last_term_def log_end_def)
qed

subsection \<open>One event keeps the invariant\<close>

text \<open>The event, the reaction of the node to it, and the node as it is saved.\<close>

definition logged_step ::
  "gen_range \<Rightarrow> nodes \<Rightarrow> packet set \<Rightarrow> node_id \<Rightarrow> runner_event \<Rightarrow> raft_node \<Rightarrow> raft_node \<Rightarrow>
   (node_id \<times> raft_message) list \<Rightarrow> bool" where
  "logged_step rng N net i ev n n' outs \<longleftrightarrow> local_step N net i ev n n' outs \<and>
     (\<exists>m. react rng ev n = Some (m, outs) \<and> same_election m n' \<and> cut_log m n')"

lemma logged_stepD:
  assumes "logged_step rng N net i ev n n' outs"
  obtains m where "local_step N net i ev n n' outs" and "react rng ev n = Some (m, outs)"
    and "same_election m n'" and "cut_log m n'"
  using assms unfolding logged_step_def by blast

lemma history_invD:
  assumes "history_inv H N net el"
  shows "functional H" and "terms_led H el" and "leaders_ahead H N" and "candidates_new N el"
    and "N i = Some n \<Longrightarrow> log_based H n" and "(s, to, AppendEntries req) \<in> net \<Longrightarrow> request_based H req"
  using assms unfolding history_inv_def by blast+

lemma leaders_aheadD:
  "leaders_ahead H N \<Longrightarrow> N i = Some n \<Longrightarrow> role n = Leader \<Longrightarrow> (k, current_term n, c, u) \<in> H \<Longrightarrow> k \<le> log_end n"
  unfolding leaders_ahead_def by blast

lemma terms_ledD: "terms_led H el \<Longrightarrow> (k, t, c, u) \<in> H \<Longrightarrow> \<exists>j. (t, j) \<in> el"
  unfolding terms_led_def by blast

text \<open>A leader proposes at an index that its term has not used.\<close>

lemma step_functional:
  assumes "history_inv H N net el" and "N i = Some n"
  shows "functional (propose_history ev n H)"
proof -
  have unused: "(log_end n + 1, current_term n, c, u) \<notin> H" if "role n = Leader" for c u
    using leaders_aheadD [OF history_invD(3) [OF assms(1)] assms(2) that] by fastforce
  have old: "c = c' \<and> u = u'" if "(k, t, c, u) \<in> H" "(k, t, c', u') \<in> H" for k t c c' u u'
    using history_invD(1) [OF assms(1)] that unfolding functional_def by blast
  show ?thesis
    unfolding functional_def
  proof (intro allI impI)
    fix k t c c' u u'
    assume "(k, t, c, u) \<in> propose_history ev n H" "(k, t, c', u') \<in> propose_history ev n H"
    then show "c = c' \<and> u = u'" using old unused propose_history_new by (metis option.inject)
  qed
qed

lemma step_terms_led:
  assumes "election_inv ids N net el" and "history_inv H N net el" and "N i = Some n" and "el \<subseteq> el'"
  shows "terms_led (propose_history ev n H) el'"
proof -
  have "(current_term n, i) \<in> el" if "role n = Leader"
    using assms(1,3) that unfolding election_inv_def leaders_elected_def by blast
  then show ?thesis
    unfolding terms_led_def using terms_ledD [OF history_invD(2) [OF assms(2)]] propose_history_new assms(4) by blast
qed

lemma step_candidates_new:
  assumes "election_inv ids N net el" and "history_inv H N net el" and "local_step N net i ev n n' outs"
  shows "candidates_new (N(i \<mapsto> n')) (el \<union> elected_now i n')"
  unfolding candidates_new_def
proof (intro allI impI)
  fix j k
  assume k: "(N(i \<mapsto> n')) j = Some k" "role k = Candidate"
  note l = local_stepD [OF assms(3)]
  note old = history_invD(4) [OF assms(2), unfolded candidates_new_def]
  have "(current_term k, j) \<notin> el"
  proof (cases "j = i")
    case False
    then show ?thesis using old k by simp
  next
    case True
    then have kn: "k = n'" using k(1) by simp
    have t: "t \<le> current_term n" if "(t, i) \<in> el" for t
      using assms(1) elected_okD(2) [of ids N net el t i n] that l(1) unfolding election_inv_def by blast
    from l(3) have "role n = Candidate \<and> current_term n' = current_term n \<or> current_term n < current_term n'"
      using k(2) kn by cases (auto simp: same_election_def)
    then show ?thesis using old l(1) t [of "current_term n'"] True kn by (auto simp: not_le)
  qed
  moreover have "(current_term k, j) \<notin> elected_now i n'" using k by (auto simp: elected_now_def)
  ultimately show "(current_term k, j) \<notin> el \<union> elected_now i n'" by blast
qed

lemma elected_of_leader:
  "election_inv ids N net el \<Longrightarrow> N i = Some n \<Longrightarrow> role n = Leader \<Longrightarrow> (current_term n, i) \<in> el"
  unfolding election_inv_def leaders_elected_def by blast

text \<open>Another leader has another term than the node that handles the event.\<close>

lemma step_other_ahead:
  assumes "election_inv ids N net el" and "history_inv H N net el" and "N i = Some n"
    and "N j = Some q" and "role q = Leader" and "j \<noteq> i" and "(k, current_term q, c, u) \<in> propose_history ev n H"
  shows "k \<le> log_end q"
  using propose_history_new [OF assms(7)]
proof
  assume "(k, current_term q, c, u) \<in> H"
  then show ?thesis using leaders_aheadD [OF history_invD(3) [OF assms(2)] assms(4,5)] by blast
next
  assume "role n = Leader \<and> proposal ev n = Some c \<and> k = log_end n + 1 \<and>
    current_term q = current_term n \<and> u = last_term n"
  then have "(current_term q, i) \<in> el" using elected_of_leader [OF assms(1,3)] by simp
  then show ?thesis
    using elected_of_leader [OF assms(1,4,5)] assms(1,6) unfolding election_inv_def one_leader_def by blast
qed

text \<open>A node with proposals in its term led it before the event: a term just won has none.\<close>

lemma step_new_leader:
  assumes "election_inv ids N net el" and "history_inv H N net el" and "local_step N net i ev n n' outs"
    and "role n' = Leader" and "(k, current_term n', c, u) \<in> H"
  shows "role n = Leader" and "current_term n' = current_term n"
proof -
  note ls = local_stepD [OF assms(3)]
  have t: "current_term n' = current_term n" "role n = Leader \<or> role n = Candidate"
    using leads_after [OF ls(3) assms(4)] by blast+
  show "current_term n' = current_term n" by (rule t(1))
  show "role n = Leader"
  proof (rule ccontr)
    assume "role n \<noteq> Leader"
    then have "(current_term n, i) \<notin> el"
      using t(2) ls(1) history_invD(4) [OF assms(2)] unfolding candidates_new_def by blast
    moreover obtain a where "(current_term n, a) \<in> el"
      using terms_ledD [OF history_invD(2) [OF assms(2)] assms(5)] t(1) by auto
    moreover have "(current_term n, i) \<in> elected_now i n'" using assms(4) t(1) by (simp add: elected_now_def)
    ultimately show False using step_one_leader [OF assms(1,3)] unfolding one_leader_def by blast
  qed
qed

lemma step_leaders_ahead:
  assumes "election_inv ids N net el" and "history_inv H N net el" and "logged_step rng N net i ev n n' outs"
  shows "leaders_ahead (propose_history ev n H) (N(i \<mapsto> n'))"
  unfolding leaders_ahead_def
proof (intro allI impI)
  fix j q k c u
  assume q: "(N(i \<mapsto> n')) j = Some q" "role q = Leader" and h: "(k, current_term q, c, u) \<in> propose_history ev n H"
  obtain m where l: "local_step N net i ev n n' outs"
    and m: "react rng ev n = Some (m, outs)" "same_election m n'" "cut_log m n'"
    using logged_stepD [OF assms(3)] .
  note at = local_stepD(1) [OF l]
  show "k \<le> log_end q"
  proof (cases "j = i")
    case False
    then show ?thesis using step_other_ahead [OF assms(1,2) at _ q(2) False h] q(1) by simp
  next
    case True
    then have qn: "q = n'" using q(1) by simp
    have "role m = Leader" using m(2) q(2) qn by (simp add: same_election_def)
    then have e: "log_end n' = log_end n + (if proposal ev n = None then 0 else 1)"
      by (rule leader_log(1) [OF m(1) _ m(3)])
    from propose_history_new [OF h] show ?thesis
    proof
      assume old: "(k, current_term q, c, u) \<in> H"
      have "role n' = Leader" using q(2) qn by simp
      note n = step_new_leader [OF assms(1,2) l this old [unfolded qn]]
      have "k \<le> log_end n" using leaders_aheadD [OF history_invD(3) [OF assms(2)] at n(1)] old n(2) qn by simp
      then show ?thesis using e qn by simp
    qed (use e qn in simp)
  qed
qed

lemma history_inv_step:
  assumes "election_inv ids N net el" and "history_inv H N net el" and "logged_step rng N net i ev n n' outs"
  shows "history_inv (propose_history ev n H) (N(i \<mapsto> n')) (net \<union> packets_from i outs) (el \<union> elected_now i n')"
proof -
  let ?H = "propose_history ev n H"
  obtain m where l: "local_step N net i ev n n' outs" and m: "react rng ev n = Some (m, outs)" "cut_log m n'"
    using logged_stepD [OF assms(3)] .
  note ls = local_stepD [OF l]
  have "request_based H req" if "ev = Received s (AppendEntries req)" for s req
    using history_invD(6) [OF assms(2)] ls(2) that unfolding event_from_def by blast
  then have b: "log_based ?H m" using log_step_based [OF react_log [OF m(1)] history_invD(5) [OF assms(2) ls(1)]] by blast
  have "request_based ?H req" if "(s, to, AppendEntries req) \<in> net \<union> packets_from i outs" for s to req
  proof (cases "(s, to, AppendEntries req) \<in> net")
    case True
    then show ?thesis using history_invD(6) [OF assms(2)] based_mono propose_history_mono
      unfolding request_based_def by blast
  next
    case False
    then have "(to, AppendEntries req) \<in> set outs" using that by (auto simp: packets_from_def)
    then show ?thesis using react_built [OF m(1)] built_request_based [OF b] by blast
  qed
  moreover have "log_based ?H q" if "(N(i \<mapsto> n')) j = Some q" for j q
  proof (cases "j = i")
    case True
    then show ?thesis using that cut_log_based [OF b m(2)] by simp
  next
    case False
    then show ?thesis using that history_invD(5) [OF assms(2)] based_mono propose_history_mono
      unfolding log_based_def by (metis fun_upd_other)
  qed
  moreover have "terms_led ?H (el \<union> elected_now i n')" by (rule step_terms_led [OF assms(1,2) ls(1)]) simp
  ultimately show ?thesis
    unfolding history_inv_def
    using step_functional [OF assms(2) ls(1)] step_candidates_new [OF assms(1,2) l] step_leaders_ahead [OF assms] by blast
qed

text \<open>A restart gives back the log and its snapshot position.\<close>

lemma history_inv_restart:
  assumes "history_inv H N net el" and "N i = Some n" and "role n' = Follower" and "same_log n n'"
  shows "history_inv H (N(i \<mapsto> n')) net el"
proof -
  have "log_based H n'" using history_invD(5) [OF assms(1,2)] assms(4) log_based_cong [of n' n] by (simp add: same_log_def)
  then show ?thesis
    using assms(1,3) unfolding history_inv_def leaders_ahead_def candidates_new_def by auto
qed

subsection \<open>The cluster\<close>

definition logged_cluster :: "history \<Rightarrow> ('s, 'm) cluster \<Rightarrow> bool" where
  "logged_cluster H cl \<longleftrightarrow> history_inv H (cluster_nodes cl) (set (cl_net cl)) (set (cl_elected cl))"

lemma logged_clusterD:
  assumes "logged_cluster H cl" and "hm_get (cl_runners cl) i = Some r"
  shows "functional H" and "log_based H (r_node r)"
proof -
  have h: "history_inv H (cluster_nodes cl) (set (cl_net cl)) (set (cl_elected cl))"
    using assms(1) by (simp add: logged_cluster_def)
  show "functional H" by (rule history_invD(1) [OF h])
  have "cluster_nodes cl i = Some (r_node r)" using assms(2) by (simp add: cluster_nodes_def)
  then show "log_based H (r_node r)" by (rule history_invD(5) [OF h])
qed

context durable_runner begin

lemma node_event_logged:
  assumes "en_communication E = outbox_ops" and "en_storage E = S" and "gen_range_ok (en_rng E)"
    and "cluster_inv good E ids cl" and "event_from (set (cl_net cl)) i ev"
    and "node_event E i ev cl = Some cl'" and "logged_cluster H cl"
  shows "\<exists>H'. logged_cluster H' cl'"
proof -
  obtain r r' n1 outs where h: "hm_get (cl_runners cl) i = Some r" "cl' = after_event i r' cl"
      "react (en_rng E) ev (r_node r) = Some (n1, outs)" "handled E r (n1, outs) r'"
      "r_communication r' = outs" "runner_ok r'"
      "local_step (cluster_nodes cl) (set (cl_net cl)) i ev (r_node r) (r_node r') outs"
    using node_event_local [OF assms(1-6)] .
  have el: "election_inv ids (cluster_nodes cl) (set (cl_net cl)) (set (cl_elected cl))"
    using assms(4) by (simp add: cluster_inv_def)
  have "logged_step (en_rng E) (cluster_nodes cl) (set (cl_net cl)) i ev (r_node r) (r_node r') outs"
    unfolding logged_step_def using h(3,4,7) by (auto simp: handled_def)
  from history_inv_step [OF el _ this] assms(7) show ?thesis
    unfolding logged_cluster_def h(2) cluster_nodes_after h(5) by blast
qed

lemma restart_event_logged:
  assumes "en_communication E = outbox_ops" and "gen_range_ok (en_rng E)" and "cluster_inv good E ids cl"
    and "restart_event E m0 i k cl = Some cl'" and "logged_cluster H cl"
  shows "logged_cluster H cl'"
proof -
  obtain r r' where r: "hm_get (cl_runners cl) i = Some r" and cl': "cl' = after_event i r' cl"
    and b: "node_view (r_node r') = node_view (r_node r)" "role (r_node r') = Follower" "r_communication r' = []"
    using restart_event_local [OF assms(1-4)] .
  have "same_log (r_node r) (r_node r')" unfolding same_log_def using b(1) by (metis node_view_fields)
  then have "history_inv H ((cluster_nodes cl)(i \<mapsto> r_node r')) (set (cl_net cl)) (set (cl_elected cl))"
    using history_inv_restart [OF _ _ b(2)] assms(5) r by (simp add: logged_cluster_def cluster_nodes_def)
  then show ?thesis
    unfolding logged_cluster_def cl' cluster_nodes_after using b by (simp add: packets_from_def elected_now_def)
qed

lemma cluster_step_logged:
  assumes "en_communication E = outbox_ops" and "en_storage E = S" and "gen_range_ok (en_rng E)"
    and "cluster_inv good E ids cl" and "cluster_step E m0 ev cl = Some cl'" and "logged_cluster H cl"
  shows "\<exists>H'. logged_cluster H' cl'"
proof (rule cluster_step_cases [OF assms(5)])
  fix i e
  assume "event_from (set (cl_net cl)) i e" "node_event E i e cl = Some cl'"
  then show ?thesis using node_event_logged [OF assms(1-4) _ _ assms(6)] by blast
next
  fix i k
  assume "restart_event E m0 i k cl = Some cl'"
  then show ?thesis using restart_event_logged [OF assms(1,3,4) _ assms(6)] by blast
qed

lemma cluster_run_logged:
  assumes "en_communication E = outbox_ops" and "en_storage E = S" and "gen_range_ok (en_rng E)"
  shows "cluster_inv good E ids cl \<Longrightarrow> cluster_run E m0 evs cl = Some cl' \<Longrightarrow> logged_cluster H cl \<Longrightarrow>
    \<exists>H'. logged_cluster H' cl'"
proof (induction evs arbitrary: cl H)
  case (Cons ev evs)
  then obtain c where c: "cluster_step E m0 ev cl = Some c" "cluster_run E m0 evs c = Some cl'"
    by (auto simp: bind_Some_iff)
  obtain H' where "logged_cluster H' c" using cluster_step_logged [OF assms Cons.prems(1) c(1) Cons.prems(3)] by blast
  then show ?case using Cons.IH cluster_step_inv [OF assms Cons.prems(1) c(1)] c(2) by blast
qed auto

lemma cluster_start_logged:
  assumes "cluster_start E s0 m0 cfgs = Some cl" and "en_storage E = S" and "\<forall>i. st_load S s0 i = None"
  shows "logged_cluster {} cl"
proof -
  obtain rs where rs: "start_all E s0 m0 cfgs = Some rs" and cl: "cl = \<lparr>cl_runners = rs, cl_net = [], cl_elected = []\<rparr>"
    using assms(1) by (auto simp: cluster_start_def)
  have "log_based {} n" if at: "cluster_nodes cl i = Some n" for i n
  proof -
    obtain r where r: "hm_get rs i = Some r" "n = r_node r" using at by (auto simp: cluster_nodes_def cl)
    obtain cfg where "restart E 0 0 cfg [] s0 m0 = Some (r, Inr ())" using start_all_get(2) [OF rs r(1)] by blast
    from restart_fresh(1) [OF this] assms(2,3) have "node_view n = fresh_view (cfg_id cfg)" using r(2) by simp
    then have "log n = []" "snapshot_last_included_term n = 0"
      using node_view_fields [of n] by (simp_all add: fresh_view_def)
    then show ?thesis by (simp add: log_based_def based_def)
  qed
  then show ?thesis
    by (simp add: logged_cluster_def history_inv_def functional_def terms_led_def leaders_ahead_def
        candidates_new_def cl)
qed

lemma cluster_reachable_logged:
  assumes "en_communication E = outbox_ops" "en_storage E = S" "gen_range_ok (en_rng E)"
    and "cluster_config_ok cfgs" and "good s0" "\<forall>i. st_load S s0 i = None"
    and "cluster_start E s0 m0 cfgs = Some cl0" and "cluster_run E m0 evs cl0 = Some cl"
  shows "\<exists>H. logged_cluster H cl"
  using cluster_run_logged [OF assms(1-3) cluster_start_inv [OF assms(1-7)] assms(8)
      cluster_start_logged [OF assms(7,2,6)]] .

end

end
