(* ===== verification/History_Tree.thy ===== *)
theory History_Tree
  imports Log_Matching
begin

text \<open>
  The history of proposals as a tree. A point is an index with the term of the entry there, the root the
  point before the first entry; \<open>below\<close> follows the entries from one point up to another. A log, however
  much of it is compacted, is the path from the root to its \<open>tip\<close>, so that an event can be followed by what
  it does to one point: compaction keeps the tip, a proposal moves it one entry up, and an accepted
  request moves it to the end of the request unless the log already leads beyond that.
\<close>

subsection \<open>Points and paths\<close>

type_synonym point = "nat \<times> term_no"

definition proposed :: "history \<Rightarrow> point \<Rightarrow> bool" where
  "proposed H p \<longleftrightarrow> (\<exists>c u. (fst p, snd p, c, u) \<in> H)"

definition pt :: "history \<Rightarrow> point \<Rightarrow> bool" where
  "pt H p \<longleftrightarrow> p = (0, 0) \<or> proposed H p"

text \<open>Every proposal stands on a point.\<close>

definition rooted :: "history \<Rightarrow> bool" where
  "rooted H \<longleftrightarrow> (\<forall>k t c u. (k, t, c, u) \<in> H \<longrightarrow> 0 < k \<and> pt H (k - 1, u))"

inductive below :: "history \<Rightarrow> point \<Rightarrow> point \<Rightarrow> bool" for H where
  self: "below H p p"
| up: "below H p (k, u) \<Longrightarrow> (Suc k, t, c, u) \<in> H \<Longrightarrow> below H p (Suc k, t)"

lemma below_self [simp, intro]: "below H p p"
  by (rule self)

lemma proposed_mono: "proposed H p \<Longrightarrow> H \<subseteq> H' \<Longrightarrow> proposed H' p"
  by (auto simp: proposed_def)

lemma pt_mono: "pt H p \<Longrightarrow> H \<subseteq> H' \<Longrightarrow> pt H' p"
  using proposed_mono unfolding pt_def by blast

lemma pt_root [simp]: "pt H (0, 0)"
  by (simp add: pt_def)

lemma pt_proposed: "pt H p \<Longrightarrow> 0 < snd p \<Longrightarrow> proposed H p"
  by (auto simp: pt_def)

lemma rootedD: "rooted H \<Longrightarrow> (k, t, c, u) \<in> H \<Longrightarrow> 0 < k \<and> pt H (k - 1, u)"
  unfolding rooted_def by blast

lemma proposed_index: "rooted H \<Longrightarrow> proposed H p \<Longrightarrow> 0 < fst p"
  unfolding proposed_def rooted_def by blast

lemma below_index: "below H p q \<Longrightarrow> p = q \<or> fst p < fst q"
  by (induction rule: below.induct) auto

lemma below_fst: "below H p q \<Longrightarrow> fst p \<le> fst q"
  using below_index by fastforce

lemma below_trans: "below H q r \<Longrightarrow> below H p q \<Longrightarrow> below H p r"
  by (induction rule: below.induct) (blast intro: up)+

lemma below_mono: "below H p q \<Longrightarrow> H \<subseteq> H' \<Longrightarrow> below H' p q"
  by (induction rule: below.induct) (blast intro: up)+

text \<open>A larger history has no new path between old points.\<close>

lemma below_old:
  assumes "functional H'" and "H \<subseteq> H'" and "rooted H"
  shows "below H' p q \<Longrightarrow> pt H q \<Longrightarrow> below H p q"
proof (induction rule: below.induct)
  case (up p k u t c)
  then obtain c' u' where h: "(Suc k, t, c', u') \<in> H" by (auto simp: pt_def proposed_def)
  then have "u' = u" using assms(1,2) up.hyps(2) unfolding functional_def by blast
  then have "pt H (k, u)" using rootedD [OF assms(3) h] by simp
  then show ?case using up.IH h \<open>u' = u\<close> below.up by blast
qed simp

lemma pt_below: "below H p q \<Longrightarrow> rooted H \<Longrightarrow> pt H q \<Longrightarrow> pt H p"
proof (induction rule: below.induct)
  case (up p k u t c)
  then show ?case using rootedD [OF up.prems(1) up.hyps(2)] by simp
qed simp

text \<open>Two points below a third one are on one path.\<close>

lemma below_comparable:
  assumes "functional H"
  shows "below H p r \<Longrightarrow> below H q r \<Longrightarrow> fst q \<le> fst p \<Longrightarrow> below H q p"
proof (induction rule: below.induct)
  case (up p k u t c)
  note IH = up.IH
  have le: "fst p \<le> k" using below_fst [OF up.hyps(1)] by simp
  show ?case
    using up.prems(1)
  proof cases
    case self
    then show ?thesis using up.prems(2) le by auto
  next
    case (up u' c')
    then have "u' = u" using assms \<open>(Suc k, t, c, u) \<in> H\<close> unfolding functional_def by blast
    then show ?thesis using IH up(1) \<open>fst q \<le> fst p\<close> by simp
  qed
qed simp

text \<open>Entries of an increasing history, and the points of every index below a point.\<close>

definition increasing :: "history \<Rightarrow> bool" where
  "increasing H \<longleftrightarrow> (\<forall>k t c u. (k, t, c, u) \<in> H \<longrightarrow> u \<le> t)"

lemma below_term: "below H p q \<Longrightarrow> increasing H \<Longrightarrow> snd p \<le> snd q"
  by (induction rule: below.induct) (fastforce simp: increasing_def)+

lemma below_at:
  assumes "rooted H"
  shows "pt H (k, t) \<Longrightarrow> i \<le> k \<Longrightarrow> \<exists>u. below H (i, u) (k, t)"
proof (induction k arbitrary: t)
  case (Suc k)
  show ?case
  proof (cases "i = Suc k")
    case False
    obtain c u where h: "(Suc k, t, c, u) \<in> H" using Suc.prems(1) by (auto simp: pt_def proposed_def)
    have "pt H (k, u)" using rootedD [OF assms h] by simp
    then show ?thesis using Suc.IH [of u] Suc.prems(2) False up [OF _ h] by fastforce
  qed auto
qed auto

subsection \<open>Paths along chains of entries\<close>

lemma end_term_split [simp]: "end_term (end_term u (take k es)) (drop k es) = end_term u es"
proof (cases "drop k es = []")
  case False
  have "es = take k es @ drop k es" by simp
  then have "last es = last (drop k es)" using False by (metis last_appendR)
  then show ?thesis using False by (auto simp: end_term_def)
qed (simp add: end_term_def)

definition end_point :: "nat \<Rightarrow> term_no \<Rightarrow> log_entry list \<Rightarrow> point" where
  "end_point b u es = (b + length es, end_term u es)"

lemma end_point_simps [simp]:
  "end_point b u [] = (b, u)"
  "end_point b u (e # es) = end_point (Suc b) (le_term e) es"
  by (simp_all add: end_point_def)

lemma chain_below: "chained H b u es \<Longrightarrow> below H (b, u) (end_point b u es)"
proof (induction es arbitrary: b u)
  case (Cons e es)
  then have "below H (Suc b, le_term e) (end_point (Suc b) (le_term e) es)" by simp
  moreover have "(Suc b, le_term e, le_command e, u) \<in> H" using Cons.prems by simp
  then have "below H (b, u) (Suc b, le_term e)" by (rule up [OF self])
  ultimately show ?case unfolding end_point_simps by (rule below_trans)
qed simp

lemma chain_points:
  "chained H b u es \<Longrightarrow> i \<le> length es \<Longrightarrow> below H (b + i, end_term u (take i es)) (end_point b u es)"
proof (induction es arbitrary: b u i)
  case (Cons e es)
  show ?case
  proof (cases i)
    case 0
    then show ?thesis using chain_below [OF Cons.prems(1)] by simp
  next
    case (Suc j)
    have "below H (Suc b + j, end_term (le_term e) (take j es)) (end_point (Suc b) (le_term e) es)"
      by (rule Cons.IH) (use Cons.prems Suc in simp_all)
    then show ?thesis using Suc by simp
  qed
qed simp

lemma chain_pt:
  assumes "chained H b u es" and "pt H (b, u)"
  shows "pt H (end_point b u es)"
proof (cases es rule: rev_cases)
  case (snoc xs e)
  then have "(b + length xs + 1, le_term e, le_command e, end_term u xs) \<in> H"
    using assms(1) by (simp add: chained_append)
  then show ?thesis using snoc by (auto simp: pt_def proposed_def end_point_def end_term_def)
qed (use assms in simp)

text \<open>Reconciling ends where the longer way goes: at the old end if the new end lies below it.\<close>

lemma reconcile_end:
  assumes "functional H"
  shows "chained H b u xs \<Longrightarrow> chained H b u ys \<Longrightarrow>
    end_point b u (reconcile xs ys) =
      (if below H (end_point b u ys) (end_point b u xs) then end_point b u xs else end_point b u ys)"
proof (induction xs ys arbitrary: b u rule: reconcile.induct)
  case (1 old)
  then show ?case using chain_below by simp
next
  case (2 y ys)
  have "\<not> below H (end_point b u (y # ys)) (end_point b u [])"
    using below_fst [of H "end_point b u (y # ys)" "end_point b u []"] by (auto simp: end_point_def)
  then show ?case by simp
next
  case (3 x xs y ys)
  show ?case
  proof (cases "le_term x = le_term y")
    case True
    then show ?thesis using 3 by simp
  next
    case False
    have "\<not> below H (end_point b u (y # ys)) (end_point b u (x # xs))"
    proof
      assume "below H (end_point b u (y # ys)) (end_point b u (x # xs))"
      then have y: "below H (Suc b, le_term y) (end_point (Suc b) (le_term x) xs)"
        using below_trans chain_below [of H "Suc b" "le_term y" ys] 3(3) by simp
      have x: "below H (Suc b, le_term x) (end_point (Suc b) (le_term x) xs)"
        using chain_below [of H "Suc b" "le_term x" xs] 3(2) by simp
      have "below H (Suc b, le_term y) (Suc b, le_term x)"
        by (rule below_comparable [OF assms x y]) simp
      from below_index [OF this] show False using False by simp
    qed
    then show ?thesis using False by simp
  qed
qed

subsection \<open>The tip of a log and the end of a request\<close>

definition tip :: "raft_node \<Rightarrow> point" where
  "tip n = (log_end n, last_term n)"

definition request_end :: "append_entries \<Rightarrow> point" where
  "request_end req = end_point (ae_prev_log_index req) (ae_prev_log_term req) (ae_entries req)"

definition snapshot_point :: "raft_node \<Rightarrow> point" where
  "snapshot_point n = (snapshot_last_included_index n, snapshot_last_included_term n)"

lemma tip_end: "tip n = end_point (snapshot_last_included_index n) (snapshot_last_included_term n) (log n)"
  by (simp add: tip_def end_point_def log_end_def last_term_def end_term_def)

lemma tip_simps [simp]: "fst (tip n) = log_end n" "snd (tip n) = last_term n"
  by (simp_all add: tip_def)

lemma same_log_tip: "same_log n n' \<Longrightarrow> tip n' = tip n \<and> snapshot_point n' = snapshot_point n"
  by (simp add: same_log_def tip_end snapshot_point_def)

lemma log_based_chained:
  "log_based H n \<Longrightarrow> chained H (snapshot_last_included_index n) (snapshot_last_included_term n) (log n)"
  by (simp add: log_based_def based_def)

lemma request_based_chained:
  "request_based H req \<Longrightarrow> chained H (ae_prev_log_index req) (ae_prev_log_term req) (ae_entries req)"
  by (simp add: request_based_def based_def)

lemma tip_pt: "log_based H n \<Longrightarrow> pt H (snapshot_point n) \<Longrightarrow> pt H (tip n)"
  unfolding tip_end snapshot_point_def by (rule chain_pt [OF log_based_chained])

text \<open>What the log says is on its path.\<close>

lemma term_at_below:
  assumes "log_based H n" and "term_at n k = Some t"
  shows "below H (k, t) (tip n)"
proof -
  let ?s = "snapshot_last_included_index n"
  have k: "?s \<le> k" "k \<le> log_end n" using assms(2) term_at_None_iff [of n k] by (force, force)
  then have l: "k - ?s \<le> length (log n)" "?s + (k - ?s) = k" by (simp_all add: log_end_def)
  have "t = end_term (snapshot_last_included_term n) (take (k - ?s) (log n))"
    using assms(2) term_at_prefix [OF l(1)] l(2) by simp
  then show ?thesis unfolding tip_end using chain_points [OF log_based_chained [OF assms(1)] l(1)] l(2) by simp
qed

lemma entry_below:
  assumes "log_based H n" and "entry_at n k = Some e"
  shows "below H (k, le_term e) (tip n)" and "proposed H (k, le_term e)"
proof -
  have "snapshot_last_included_index n < k" using assms(2) by (simp add: entry_at_Some_iff)
  then have "term_at n k = Some (le_term e)" using assms(2) by (simp add: term_at_entry)
  then show "below H (k, le_term e) (tip n)" by (rule term_at_below [OF assms(1)])
  obtain u where "(k, le_term e, le_command e, u) \<in> H" using entry_at_history [OF assms] by blast
  then show "proposed H (k, le_term e)" by (auto simp: proposed_def)
qed

text \<open>Entries that two logs hold at one point are the same.\<close>

lemma entry_of_point:
  assumes "functional H" and "log_based H n" and "log_based H n'" and "entry_at n k = Some e"
    and "entry_at n' k = Some e'" and "le_term e = le_term e'"
  shows "e = e'"
proof -
  obtain u where "(k, le_term e, le_command e, u) \<in> H" using entry_at_history [OF assms(2,4)] by blast
  moreover obtain u' where "(k, le_term e', le_command e', u') \<in> H" using entry_at_history [OF assms(3,5)] by blast
  ultimately have "le_command e = le_command e'" using assms(1,6) unfolding functional_def by metis
  then show ?thesis using assms(6) by simp
qed

lemma cut_log_tip:
  assumes "cut_log n n'"
  shows "tip n' = tip n" and "term_at n (snapshot_last_included_index n') = Some (snapshot_last_included_term n')"
proof -
  let ?s = "snapshot_last_included_index n"
  obtain k where k: "k \<le> length (log n)" "log n' = drop k (log n)" "snapshot_last_included_index n' = ?s + k"
      "term_at n (?s + k) = Some (snapshot_last_included_term n')"
    using assms unfolding cut_log_def by blast
  then show "term_at n (snapshot_last_included_index n') = Some (snapshot_last_included_term n')" by simp
  have u: "snapshot_last_included_term n' = end_term (snapshot_last_included_term n) (take k (log n))"
    using k(4) term_at_prefix [OF k(1)] by simp
  have "end_term (end_term u (take k es)) (drop k es) = end_term u es" for u es
    using append_take_drop_id [of k es] by (cases "drop k es = []") (auto simp: end_term_def last_append)
  then show "tip n' = tip n" unfolding tip_end end_point_def using k u by simp
qed

text \<open>A follower that accepts a request.\<close>

lemma consistent_term:
  assumes "request_based H req" and "log_based H n" and "ae_consistent req n"
  shows "term_at n (ae_prev_log_index req) = Some (ae_prev_log_term req)"
  using assms by (cases "ae_prev_log_index req = 0")
    (auto simp: ae_consistent_def request_based_def based_def log_based_def term_at_def)

lemma accept_tip:
  assumes "functional H" and "request_based H req" and "log_based H n" and "ae_consistent req n"
    and "same_log (n\<lparr>log := take (ae_prev_log_index req - snapshot_last_included_index n) (log n) @
      reconcile (drop (ae_prev_log_index req - snapshot_last_included_index n) (log n)) (ae_entries req)\<rparr>) m"
  shows "tip m = (if below H (request_end req) (tip n) then tip n else request_end req)"
    and "snapshot_point m = snapshot_point n"
proof -
  let ?s = "snapshot_last_included_index n" and ?u = "snapshot_last_included_term n"
  let ?p = "ae_prev_log_index req" and ?v = "ae_prev_log_term req"
  let ?j = "?p - ?s"
  have c: "?s \<le> ?p" "?j \<le> length (log n)" using assms(4) by (auto simp: ae_consistent_def log_end_def)
  have t: "term_at n (?s + ?j) = Some ?v" using consistent_term [OF assms(2-4)] c(1) by simp
  then have v: "?v = end_term ?u (take ?j (log n))" using term_at_prefix [OF c(2)] by simp
  have split: "end_point ?s ?u (take ?j (log n) @ es) = end_point ?p ?v es" for es
    using c by (auto simp: end_point_def v end_term_def last_append)
  have old: "tip n = end_point ?p ?v (drop ?j (log n))" using split [of "drop ?j (log n)"] by (simp add: tip_end)
  have "chained H ?p ?v (drop ?j (log n))"
    using based_suffix [OF assms(3) c(2) t] c(1) by (simp add: based_def)
  from reconcile_end [OF assms(1) this request_based_chained [OF assms(2)]]
  show "tip m = (if below H (request_end req) (tip n) then tip n else request_end req)"
    using assms(5) unfolding old request_end_def by (simp add: tip_end same_log_def split)
  show "snapshot_point m = snapshot_point n" using assms(5) by (simp add: snapshot_point_def same_log_def)
qed

text \<open>A leader that proposes, and the requests that it builds: they end at its tip.\<close>

lemma propose_tip:
  "same_log (n\<lparr>log := log n @ [\<lparr>le_term = t, le_command = v\<rparr>]\<rparr>) m \<Longrightarrow>
     tip m = (Suc (log_end n), t) \<and> snapshot_point m = snapshot_point n"
  by (simp add: same_log_def tip_end end_point_def end_term_def log_end_def snapshot_point_def)

lemma built_request_end:
  assumes "build_append_entries_for_peer n p = Some (Some req)"
  shows "request_end req = tip n" and "term_at n (ae_prev_log_index req) = Some (ae_prev_log_term req)"
    and "ae_leader_commit req = commit_index n"
proof -
  let ?s = "snapshot_last_included_index n" and ?i = "next_index_for n p"
  have "log_end n < u64_limit"
    using assms by (auto simp: build_append_entries_for_peer_def bind_Some_iff Let_def last_log_index_Some_iff
        split: if_splits option.splits)
  then have i: "?s < ?i" "?i \<le> log_end n + 1" and req: "req = replication_message n ?i"
    using assms build_append_entries_eq by (simp_all split: if_splits)
  let ?j = "?i - 1 - ?s"
  have j: "?j \<le> length (log n)" "?s + ?j = ?i - 1" using i by (simp_all add: log_end_def)
  show t: "term_at n (ae_prev_log_index req) = Some (ae_prev_log_term req)"
    using replication_message_end(2) [OF i] by (simp add: req replication_message_def)
  have es: "ae_entries req = drop ?j (log n)" "ae_prev_log_index req = ?s + ?j"
    using j by (simp_all add: req replication_message_def)
  then have "ae_prev_log_term req = end_term (snapshot_last_included_term n) (take ?j (log n))"
    using t term_at_prefix [OF j(1)] by simp
  then show "request_end req = tip n"
    using j(1) by (simp add: request_end_def tip_end end_point_def es)
  show "ae_leader_commit req = commit_index n" by (simp add: req replication_message_def)
qed

end
