(* ===== verification/Replica_Step.thy ===== *)
theory Replica_Step
  imports History_Tree
begin

text \<open>
  What an event does to the parts of a node that commitment is about: the log, the commit index, and the
  match index that a leader keeps per node. \<open>replica_step\<close> has one rule for each kind of event, and
  \<open>react_replica\<close> shows that every reaction is such a step; the lemmas after it say what the messages
  that are sent promise.
\<close>

inductive replica_step :: "runner_event \<Rightarrow> raft_node \<Rightarrow> raft_node \<Rightarrow> bool" where
  quiet: "proposal ev n = None \<Longrightarrow> same_log n m \<Longrightarrow> commit_index m = commit_index n \<Longrightarrow>
    (role m = Follower \<or> role m = role n \<and> current_term m = current_term n \<and>
       leader_match_index m = leader_match_index n) \<Longrightarrow> replica_step ev n m"
| campaign: "proposal ev n = None \<Longrightarrow> same_log n m \<Longrightarrow> commit_index m = commit_index n \<Longrightarrow> role m = Candidate \<Longrightarrow>
    current_term n < current_term m \<Longrightarrow> replica_step ev n m"
| elected: "proposal ev n = None \<Longrightarrow> same_log n m \<Longrightarrow> commit_index m = commit_index n \<Longrightarrow> role n = Candidate \<Longrightarrow>
    role m = Leader \<Longrightarrow> current_term m = current_term n \<Longrightarrow>
    (\<forall>p x. hm_get (leader_match_index m) p = Some x \<longrightarrow>
       p = nid n \<or> p \<in> set (peers n) \<and> x = snapshot_last_included_index n) \<Longrightarrow> replica_step ev n m"
| accepts: "ev = Received sender (AppendEntries req) \<Longrightarrow> current_term n \<le> ae_term req \<Longrightarrow>
    current_term m = ae_term req \<Longrightarrow> role m = Follower \<Longrightarrow> ae_consistent req n \<Longrightarrow>
    same_log (n\<lparr>log := take (ae_prev_log_index req - snapshot_last_included_index n) (log n) @
      reconcile (drop (ae_prev_log_index req - snapshot_last_included_index n) (log n)) (ae_entries req)\<rparr>) m \<Longrightarrow>
    commit_index m = (if ae_leader_commit req > commit_index n
      then max (snapshot_last_included_index n) (min (ae_leader_commit req) (log_end m)) else commit_index n) \<Longrightarrow>
    replica_step ev n m"
| acknowledged: "ev = Received sender (AppendEntriesResponse resp) \<Longrightarrow> aer_success resp \<Longrightarrow> role n = Leader \<Longrightarrow>
    role m = Leader \<Longrightarrow> aer_term resp = current_term n \<Longrightarrow> current_term m = current_term n \<Longrightarrow> same_log n m \<Longrightarrow>
    k = n\<lparr>leader_match_index := hm_insert (aer_from resp) (aer_match_index resp) (leader_match_index n)\<rparr> \<Longrightarrow>
    leader_match_index m = leader_match_index k \<Longrightarrow>
    commit_index m = commit_index n \<or> commit_candidate k (commit_index m) \<Longrightarrow> replica_step ev n m"
| proposes: "proposal ev n = Some v \<Longrightarrow> role n = Leader \<Longrightarrow> role m = Leader \<Longrightarrow> current_term m = current_term n \<Longrightarrow>
    same_log (n\<lparr>log := log n @ [\<lparr>le_term = current_term n, le_command = v\<rparr>]\<rparr>) m \<Longrightarrow>
    leader_match_index m = hm_insert (nid n) (log_end m) (leader_match_index n) \<Longrightarrow>
    commit_index m = commit_index n \<or> majority n = 1 \<and> commit_index m = log_end m \<Longrightarrow> replica_step ev n m"

subsection \<open>Every reaction is such a step\<close>

lemma tick_replica:
  assumes "tick rng n = Some (m, ms)"
  shows "replica_step Ticked n m"
  using assms
proof (cases rule: tick_cases)
  case election
  then show ?thesis by (intro campaign) (auto simp: same_log_def start_election_Some_iff)
qed (auto intro: quiet simp: same_log_def)

lemma leader_tick_same:
  "tick rng n = Some (m, ms) \<Longrightarrow> role n = Leader \<Longrightarrow>
     same_log n m \<and> commit_index m = commit_index n \<and> leader_match_index m = leader_match_index n \<and>
     role m = Leader \<and> current_term m = current_term n"
  by (erule tick_cases) (auto simp: same_log_def)

lemma fold_peers_get:
  "hm_get (fold (\<lambda>p. hm_insert p v) ps mm) p = (if p \<in> set ps then Some v else hm_get mm p)"
  by (induction ps arbitrary: mm) auto

lemma become_leader_match:
  assumes "become_leader n = Some m"
  shows "hm_get (leader_match_index m) p = Some x \<Longrightarrow>
    p = nid n \<or> p \<in> set (peers n) \<and> x = snapshot_last_included_index n"
  using assms by (auto simp: become_leader_Some_iff split: if_splits)

lemma vote_response_replica:
  assumes "handle_request_vote_response rng resp n = Some (k, b)"
    and "m = k \<and> \<not> b \<or> b \<and> (\<exists>ms. tick rng k = Some (m, ms))"
  shows "replica_step (Received s (RequestVoteResponse resp)) n m"
  using assms(1)
proof (cases rule: handle_request_vote_response_cases)
  case newer
  then show ?thesis using assms(2) by (intro quiet) (auto simp: same_log_def become_follower_Some_iff)
next
  case ignored
  then show ?thesis using assms(2) by (intro quiet) (auto simp: same_log_def)
next
  case (counted q)
  show ?thesis
  proof (cases b)
    case False
    then show ?thesis using counted assms(2) by (intro quiet) (auto simp: same_log_def)
  next
    case True
    then have l: "become_leader q = Some k" using counted(5) by simp
    have k: "role k = Leader" "current_term k = current_term n" "same_log n k" "commit_index k = commit_index n"
      using l counted(2,3) by (auto simp: become_leader_Some_iff same_log_def)
    obtain ms where t: "tick rng k = Some (m, ms)" using assms(2) True by blast
    have q: "nid q = nid n" "peers q = peers n" "snapshot_last_included_index q = snapshot_last_included_index n"
      using counted(3) by simp_all
    from leader_tick_same [OF t k(1)] show ?thesis
      using k counted(2) become_leader_match [OF l] q by (intro elected) (auto simp: same_log_def)
  qed
qed

lemma append_entries_replica:
  assumes "handle_append_entries rng req n = Some (m, r)"
  shows "replica_step (Received s (AppendEntries req)) n m"
  using assms
proof (cases rule: handle_append_entries_cases)
  case stale
  then show ?thesis by (intro quiet) simp_all
next
  case reject
  then show ?thesis using ae_step_down_effect by (intro quiet) (auto simp: same_log_def)
next
  case (accept k)
  have k: "log k = log n" "snapshot_last_included_index k = snapshot_last_included_index n"
    "snapshot_last_included_term k = snapshot_last_included_term n" "role k = Follower"
    "commit_index k = commit_index n" "current_term k = ae_term req"
    using ae_step_down_effect [OF accept(2)] accept(1) by auto
  have c: "ae_consistent req n = ae_consistent req k"
    unfolding ae_consistent_def term_at_cong [OF k(1-3)] log_end_cong [OF k(1,2)] k(2) ..
  obtain l i where m: "m = k\<lparr>log := l, commit_index := i\<rparr>" using ae_accept_effect [OF accept(4)] by blast
  then have "role m = Follower" "current_term m = ae_term req" using k by simp_all
  then show ?thesis
    using ae_accept_log [OF accept(3,4)] accept(1,3) k c by (intro accepts [OF refl]) (simp_all add: same_log_def)
qed

lemma append_response_replica:
  assumes "node_inv n" and "handle_append_entries_response rng resp n = Some (m, ms)"
  shows "replica_step (Received s (AppendEntriesResponse resp)) n m"
proof (cases "aer_term resp \<le> current_term n \<and> role n = Leader \<and> aer_term resp = current_term n")
  case False
  then have "(current_term n < aer_term resp \<and> become_follower rng (aer_term resp) None n = Some m) \<or> m = n"
    using assms(2) by (fastforce simp: handle_append_entries_response_def bind_Some_iff split: if_splits)
  then show ?thesis by (intro quiet) (auto simp: same_log_def become_follower_Some_iff)
next
  case True
  show ?thesis
  proof (cases "aer_success resp")
    case suc: True
    define k where "k = n\<lparr>leader_match_index := hm_insert (aer_from resp) (aer_match_index resp) (leader_match_index n)\<rparr>"
    define q where "q = k\<lparr>leader_next_index := hm_insert (aer_from resp) (aer_match_index resp + 1) (leader_next_index k)\<rparr>"
    have a: "try_advance_commit_index q = Some m"
      using assms(2) suc True
      by (auto simp: handle_append_entries_response_def Let_def k_def q_def bind_Some_iff uadd_Some_iff)
    have r: "role q = Leader" "snapshot_last_included_index q \<le> commit_index q"
      using True node_inv_snapshot_le [OF assms(1)] by (simp_all add: q_def k_def)
    have cc: "commit_candidate q i = commit_candidate k i" for i
      by (simp add: commit_candidate_def q_def replicated_count_def)
    have m: "m = q\<lparr>commit_index := if \<exists>i. commit_candidate k i then GREATEST i. commit_candidate k i else commit_index n\<rparr>"
      using try_advance_commit_index_spec [OF r a] unfolding cc by (simp add: q_def k_def)
    have "commit_index m = commit_index n \<or> commit_candidate k (commit_index m)"
    proof (cases "\<exists>i. commit_candidate k i")
      case ex: True
      then obtain i where i: "commit_candidate k i" by blast
      have "commit_candidate k (GREATEST i. commit_candidate k i)"
        by (rule GreatestI_nat [where P = "commit_candidate k" and k = i and b = "log_end k", OF i])
          (simp add: commit_candidate_def)
      then show ?thesis using ex m by simp
    qed (use m in simp)
    moreover have "same_log n m" "role m = Leader" "current_term m = current_term n"
        "leader_match_index m = leader_match_index k"
      using True by (simp_all add: m q_def k_def same_log_def)
    ultimately show ?thesis using True suc by (intro acknowledged [OF refl suc _ _ _ _ _ k_def]) simp_all
  next
    case False
    with assms(2) True obtain x where "m = n\<lparr>leader_next_index := x\<rparr>"
      by (auto simp: handle_append_entries_response_def Let_def bind_Some_iff)
    then show ?thesis by (intro quiet) (simp_all add: same_log_def)
  qed
qed

lemma propose_replica:
  assumes "node_inv n" and "propose_command v n = Some (m, ms)"
  shows "replica_step (Commanded (Propose v)) n m"
proof (cases "role n = Leader")
  case False
  with assms(2) show ?thesis by (intro quiet) (auto simp: propose_command_def)
next
  case True
  define l where "l = n\<lparr>log := log n @ [\<lparr>le_term = current_term n, le_command = v\<rparr>]\<rparr>"
  define k where "k = l\<lparr>leader_match_index := hm_insert (nid l) (log_end l) (leader_match_index l)\<rparr>"
  have mk: "majority k = majority l" by (simp add: k_def)
  have "m = k \<or> majority k = 1 \<and> commit_to (log_end k) k = Some m"
    unfolding mk using True assms(2) by (auto simp: propose_command_def Let_def l_def [symmetric] bind_Some_iff last_log_index_Some_iff
        k_def [symmetric] split: if_splits)
  moreover have "log_end k = log_end m" if "commit_to (log_end k) k = Some m"
    using that by (auto simp: commit_to_Some_iff)
  ultimately have m: "m = k \<or> majority n = 1 \<and> (\<exists>c. m = k\<lparr>commit_index := c\<rparr> \<and> c = log_end k)"
    by (auto simp: commit_to_Some_iff k_def l_def log_end_def)
  have "log_end m = log_end l" using m by (auto simp: k_def)
  then show ?thesis
    using m True by (intro proposes [of _ _ v]) (auto simp: k_def l_def same_log_def)
qed

lemma message_replica:
  assumes "node_inv n" and "react_message rng s msg n = Some (m, outs)"
  shows "replica_step (Received s msg) n m"
proof (cases msg)
  case (RequestVote req)
  then obtain r where h: "handle_request_vote rng req n = Some (m, r)"
    using assms(2) by (auto simp: react_message_def)
  have "same_log n m" "commit_index m = commit_index n" "leader_match_index m = leader_match_index n \<or> role m = Follower"
      "role m = Follower \<or> role m = role n \<and> current_term m = current_term n"
    using h by (cases rule: handle_request_vote_cases;
        auto simp: same_log_def become_follower_Some_iff resample_timeout_Some_iff split: if_splits)+
  then show ?thesis unfolding RequestVote by (intro quiet) auto
next
  case (RequestVoteResponse resp)
  then obtain k b where h: "handle_request_vote_response rng resp n = Some (k, b)"
    and "m = k \<and> \<not> b \<or> b \<and> (\<exists>ms. tick rng k = Some (m, ms))"
    using assms(2) by (auto simp: react_message_def bind_Some_iff split: if_splits)
  then show ?thesis unfolding RequestVoteResponse by (rule vote_response_replica)
next
  case (AppendEntries req)
  then show ?thesis using assms(2) append_entries_replica by (auto simp: react_message_def)
next
  case (AppendEntriesResponse resp)
  then show ?thesis using assms append_response_replica by (auto simp: react_message_def)
qed (use assms(2) in \<open>auto simp: react_message_def intro: quiet\<close>)

lemma react_replica:
  assumes "node_inv n" and "react rng ev n = Some (m, outs)"
  shows "replica_step ev n m"
proof (cases ev)
  case (Received s msg)
  then show ?thesis using assms message_replica by (simp add: react_def)
next
  case Ticked
  then show ?thesis using assms tick_replica by (auto simp: react_def)
next
  case (Commanded cmd)
  show ?thesis
  proof (cases cmd)
    case (Propose v)
    then obtain ms where "propose_command v n = Some (m, ms)" using assms Commanded by (auto simp: react_def)
    then show ?thesis unfolding Commanded Propose by (rule propose_replica [OF assms(1)])
  next
    case ForceElection
    then show ?thesis using assms Commanded
      by (intro campaign) (auto simp: react_def start_election_Some_iff same_log_def)
  qed (use assms Commanded in \<open>auto simp: react_def intro: quiet\<close>)
qed

subsection \<open>What the messages promise\<close>

text \<open>A campaign tells the voters the tip of the candidate.\<close>

definition candidate_tip :: "request_vote \<Rightarrow> point" where
  "candidate_tip req = (rv_last_log_index req, rv_last_log_term req)"

lemma start_election_tip:
  assumes "start_election rng n = Some (m, ms)" and "(to, RequestVote req) \<in> set (map outbound_to ms)"
  shows "rv_term req = current_term m \<and> candidate_tip req = tip m"
  using assms by (auto simp: start_election_Some_iff outbound_to_def candidate_tip_def tip_def)

lemma built_no_campaign:
  "build_messages_for n ps = Some ms \<Longrightarrow> (to, RequestVote req) \<notin> set (map outbound_to ms)"
  using outbound_shape by blast

lemma tick_campaign:
  assumes "tick rng n = Some (m, ms)" and "(to, RequestVote req) \<in> set (map outbound_to ms)"
  shows "rv_term req = current_term m \<and> candidate_tip req = tip m"
  using assms(1)
proof (cases rule: tick_cases)
  case leader
  then have "ms = [] \<or> build_messages_for m (peers m) = Some ms" by (simp add: build_heartbeat_messages_def)
  then show ?thesis using assms(2) built_no_campaign [of m "peers m" ms to req] by auto
next
  case election
  then show ?thesis using start_election_tip assms(2) by blast
qed (use assms(2) in simp)

lemma react_campaign:
  assumes "react rng ev n = Some (m, outs)" and "(to, RequestVote req) \<in> set outs"
  shows "rv_term req = current_term m \<and> candidate_tip req = tip m"
proof (cases ev)
  case (Received s msg)
  show ?thesis
  proof (cases msg)
    case (RequestVoteResponse resp)
    then obtain k ms where "tick rng k = Some (m, ms)" "outs = map outbound_to ms"
      using assms Received by (auto simp: react_def react_message_def bind_Some_iff split: if_splits)
    then show ?thesis using tick_campaign assms(2) by blast
  next
    case (AppendEntriesResponse resp)
    then obtain ms where h: "handle_append_entries_response rng resp n = Some (m, ms)" "outs = map outbound_to ms"
      using assms(1) Received by (auto simp: react_def react_message_def)
    then show ?thesis using append_response_built [OF h(1)] assms(2) by (fastforce simp: outbound_to_def)
  qed (use assms Received in \<open>auto simp: react_def react_message_def\<close>)
next
  case Ticked
  then show ?thesis using assms tick_campaign by (auto simp: react_def)
next
  case (Commanded cmd)
  show ?thesis
  proof (cases cmd)
    case (Propose v)
    then obtain ms out where p: "propose_command v n = Some (m, ms)"
      and outs: "ms = Some out" "outs = map outbound_to out"
      using assms Commanded by (auto simp: react_def split: option.splits)
    have "build_messages_for m (peers m) = Some out"
      using p outs(1) by (auto simp: propose_command_def bind_Some_iff Let_def build_heartbeat_messages_def split: if_splits)
    then show ?thesis using built_no_campaign assms(2) outs(2) by blast
  next
    case ForceElection
    then show ?thesis using assms Commanded start_election_tip by (auto simp: react_def)
  qed (use assms Commanded in \<open>auto simp: react_def\<close>)
qed

text \<open>An answer goes to the sender of the request that it answers.\<close>

lemma outbound_no_answer:
  "(to, RequestVoteResponse r) \<notin> set (map outbound_to ms)" "(to, AppendEntriesResponse a) \<notin> set (map outbound_to ms)"
  by (auto simp: outbound_to_def split: outbound_message.splits)

lemma react_answer:
  assumes "react rng ev n = Some (m, outs)" and "(to, msg) \<in> set outs"
  shows "msg = RequestVoteResponse r \<Longrightarrow> \<exists>req x. ev = Received to (RequestVote req) \<and>
      handle_request_vote rng req n = Some (m, x) \<and> r = x\<lparr>rvr_from := nid m\<rparr>"
    and "msg = AppendEntriesResponse a \<Longrightarrow> \<exists>req x. ev = Received to (AppendEntries req) \<and>
      handle_append_entries rng req n = Some (m, x) \<and> a = x\<lparr>aer_from := nid m\<rparr>"
proof -
  consider (out) ms where "outs = map outbound_to ms"
    | (vote) s req x where "ev = Received s (RequestVote req)" "handle_request_vote rng req n = Some (m, x)"
      "outs = [(s, RequestVoteResponse (x\<lparr>rvr_from := nid m\<rparr>))]"
    | (append) s req x where "ev = Received s (AppendEntries req)" "handle_append_entries rng req n = Some (m, x)"
      "outs = [(s, AppendEntriesResponse (x\<lparr>aer_from := nid m\<rparr>))]"
  proof (cases ev)
    case (Received s msg)
    show ?thesis
    proof (cases msg)
      case (RequestVoteResponse resp)
      then have "\<exists>ms. outs = map outbound_to ms"
        using assms(1) Received by (fastforce simp: react_def react_message_def bind_Some_iff split: if_splits)
      then show ?thesis using out by blast
    qed (use assms Received out vote append in \<open>auto simp: react_def react_message_def\<close>)
  next
    case (Commanded cmd)
    then show ?thesis using assms out
      by (cases cmd) (auto simp: react_def split: option.splits)
  qed (use assms(1) out in \<open>auto simp: react_def\<close>)
  then have "(msg = RequestVoteResponse r \<longrightarrow> (\<exists>req x. ev = Received to (RequestVote req) \<and>
        handle_request_vote rng req n = Some (m, x) \<and> r = x\<lparr>rvr_from := nid m\<rparr>)) \<and>
      (msg = AppendEntriesResponse a \<longrightarrow> (\<exists>req x. ev = Received to (AppendEntries req) \<and>
        handle_append_entries rng req n = Some (m, x) \<and> a = x\<lparr>aer_from := nid m\<rparr>))"
    by cases (use assms(2) outbound_no_answer in blast, use assms(2) in auto)
  then show "msg = RequestVoteResponse r \<Longrightarrow> \<exists>req x. ev = Received to (RequestVote req) \<and>
      handle_request_vote rng req n = Some (m, x) \<and> r = x\<lparr>rvr_from := nid m\<rparr>"
    and "msg = AppendEntriesResponse a \<Longrightarrow> \<exists>req x. ev = Received to (AppendEntries req) \<and>
      handle_append_entries rng req n = Some (m, x) \<and> a = x\<lparr>aer_from := nid m\<rparr>" by blast+
qed

text \<open>An acknowledgement reports the end of the follower's log in the term of the request.\<close>

lemma react_ack:
  assumes "react rng ev n = Some (m, outs)" and "(to, AppendEntriesResponse r) \<in> set outs" and "aer_success r"
  obtains req where "ev = Received to (AppendEntries req)" and "current_term n \<le> ae_term req"
    and "ae_consistent req n" and "aer_term r = ae_term req" and "current_term m = ae_term req"
    and "aer_match_index r = log_end m"
    and "same_log (n\<lparr>log := take (ae_prev_log_index req - snapshot_last_included_index n) (log n) @
      reconcile (drop (ae_prev_log_index req - snapshot_last_included_index n) (log n)) (ae_entries req)\<rparr>) m"
proof -
  have "\<exists>req x. ev = Received to (AppendEntries req) \<and> handle_append_entries rng req n = Some (m, x) \<and>
      r = x\<lparr>aer_from := nid m\<rparr>"
    using react_answer(2) [OF assms(1,2)] by blast
  then obtain req x where ev: "ev = Received to (AppendEntries req)"
    and h: "handle_append_entries rng req n = Some (m, x)" and x: "r = x\<lparr>aer_from := nid m\<rparr>" by blast
  from h show thesis
  proof (cases rule: handle_append_entries_cases)
    case (accept k)
    have k: "log k = log n" "snapshot_last_included_index k = snapshot_last_included_index n"
      "snapshot_last_included_term k = snapshot_last_included_term n" "current_term k = ae_term req"
      using ae_step_down_effect [OF accept(2)] accept(1) by auto
    have c: "ae_consistent req n = ae_consistent req k"
      unfolding ae_consistent_def term_at_cong [OF k(1-3)] log_end_cong [OF k(1,2)] k(2) ..
    have "current_term m = ae_term req" using ae_accept_effect [OF accept(4)] k(4) by auto
    moreover have "same_log (n\<lparr>log := take (ae_prev_log_index req - snapshot_last_included_index n) (log n) @
        reconcile (drop (ae_prev_log_index req - snapshot_last_included_index n) (log n)) (ae_entries req)\<rparr>) m"
      using ae_accept_log [OF accept(3,4)] k by (simp add: same_log_def)
    ultimately show ?thesis using that [OF ev accept(1)] c accept x by simp
  qed (use x assms(3) in simp_all)
qed

text \<open>A vote goes to a candidate whose log is at least as up to date, and changes no log.\<close>

definition up_to_date :: "point \<Rightarrow> point \<Rightarrow> bool" where
  "up_to_date s p \<longleftrightarrow> snd p < snd s \<or> snd p = snd s \<and> fst p \<le> fst s"

lemma react_grant:
  assumes "react rng ev n = Some (m, outs)" and "(to, RequestVoteResponse r) \<in> set outs" and "rvr_vote_granted r"
  obtains req where "ev = Received to (RequestVote req)" and "tip m = tip n"
    and "up_to_date (candidate_tip req) (tip n)" and "current_term n \<le> rv_term req"
proof -
  have "\<exists>req x. ev = Received to (RequestVote req) \<and> handle_request_vote rng req n = Some (m, x) \<and>
      r = x\<lparr>rvr_from := nid m\<rparr>"
    using react_answer(1) [OF assms(1,2)] by blast
  then obtain req x where ev: "ev = Received to (RequestVote req)"
    and h: "handle_request_vote rng req n = Some (m, x)" and x: "rvr_vote_granted x" using assms(3) by auto
  note f = handle_request_vote_effect [OF h]
  have "same_log n m" using f by (simp add: same_log_def)
  then have t: "tip m = tip n" using same_log_tip by blast
  have "up_to_date (candidate_tip req) (tip n) \<and> current_term n \<le> rv_term req"
    using f x by (auto simp: up_to_date_def candidate_tip_def candidate_log_is_up_to_date_def tip_def)
  then show thesis using that [OF ev t] by blast
qed

end
