(* ===== verification/Commit_Inv.thy ===== *)
theory Commit_Inv
  imports Replica_Step
begin

text \<open>
  When an entry is committed, and why no later leader lacks it. Beside the history \<open>H\<close> of proposals the
  argument keeps the \<open>base\<close> of each term, the point \<open>S t\<close> at which the log of its leader ended when it
  was elected: the proposals of the term stand on it in a row. A node holds a proposal when it led the
  term of it or acknowledged an index from there on, and a proposal is committed when a quorum holds
  it. The invariants say that a node that held a proposal still has it, or that the base of a later
  term does not; with the quorums of elections this gives \<open>leader_complete\<close>.
\<close>

subsection \<open>The proposals of a term\<close>

definition led :: "(term_no \<times> node_id) set \<Rightarrow> term_no \<Rightarrow> bool" where
  "led el t \<longleftrightarrow> (\<exists>j. (t, j) \<in> el)"

type_synonym bases = "term_no \<Rightarrow> point"

definition history_tree :: "history \<Rightarrow> bases \<Rightarrow> (term_no \<times> node_id) set \<Rightarrow> bool" where
  "history_tree H S el \<longleftrightarrow> functional H \<and> rooted H \<and> terms_led H el \<and>
     (\<forall>k t c u. (k, t, c, u) \<in> H \<longrightarrow> (k - 1, u) = S t \<or> u = t) \<and>
     (\<forall>t. led el t \<longrightarrow> pt H (S t) \<and> snd (S t) < t)"

lemma history_treeD:
  assumes "history_tree H S el"
  shows "functional H" and "rooted H" and "terms_led H el"
    and "(k, t, c, u) \<in> H \<Longrightarrow> (k - 1, u) = S t \<or> u = t" and "led el t \<Longrightarrow> pt H (S t) \<and> snd (S t) < t"
  using assms unfolding history_tree_def by blast+

lemma proposed_led: "history_tree H S el \<Longrightarrow> proposed H (k, t) \<Longrightarrow> led el t"
  unfolding history_tree_def terms_led_def proposed_def led_def fst_conv snd_conv by blast

lemma tree_increasing: "history_tree H S el \<Longrightarrow> increasing H"
  unfolding increasing_def
proof (intro allI impI)
  fix k t c u
  assume h: "history_tree H S el" and e: "(k, t, c, u) \<in> H"
  then have "led el t" using proposed_led [of H S el k t] by (auto simp: proposed_def)
  then have "snd (S t) < t" using history_treeD(5) [OF h] by blast
  then show "u \<le> t" using history_treeD(4) [OF h e] by (auto dest: sym)
qed

text \<open>The point before a proposal is the base of its term or another proposal of it.\<close>

lemma proposal_cases:
  assumes "history_tree H S el" and "proposed H (k, t)"
  obtains c u j where "k = Suc j" and "(Suc j, t, c, u) \<in> H" and "(j, u) = S t"
  | c j where "k = Suc j" and "(Suc j, t, c, t) \<in> H" and "proposed H (j, t)"
proof -
  obtain c u where h: "(k, t, c, u) \<in> H" using assms(2) by (auto simp: proposed_def)
  have r: "0 < k" "pt H (k - 1, u)" using rootedD [OF history_treeD(2) [OF assms(1)] h] by blast+
  then obtain j where k: "k = Suc j" by (cases k) simp_all
  have t: "0 < t" using history_treeD(5) [OF assms(1) proposed_led [OF assms]] by simp
  from history_treeD(4) [OF assms(1) h] show thesis
  proof
    assume "(k - 1, u) = S t"
    then show ?thesis using that(1) [of j c u] h k by simp
  next
    assume u: "u = t"
    then have "proposed H (j, t)" using pt_proposed [OF r(2)] t k by simp
    then show ?thesis using that(2) [of j c] h k u by simp
  qed
qed

lemma base_below:
  assumes "history_tree H S el"
  shows "proposed H (k, t) \<Longrightarrow> fst (S t) < k \<and> below H (S t) (k, t)"
proof (induction k)
  case 0
  then show ?case using proposed_index [OF history_treeD(2) [OF assms]] by fastforce
next
  case (Suc k)
  from assms Suc.prems show ?case
  proof (cases rule: proposal_cases)
    case (1 c u j)
    then have "below H (S t) (j, u)" "fst (S t) = j" by (metis below_self, metis fst_conv)
    then show ?thesis using 1 up [of H "S t" j u t c] by simp
  next
    case (2 c j)
    then show ?thesis using Suc.IH up [of H "S t" j t t c] by simp
  qed
qed

lemma same_term:
  assumes "history_tree H S el" and "proposed H (k, t)"
  shows "proposed H (l, t) \<Longrightarrow> k \<le> l \<Longrightarrow> below H (k, t) (l, t)"
proof (induction l)
  case (Suc l)
  show ?case
  proof (cases "k = Suc l")
    case False
    from assms(1) Suc.prems(1) show ?thesis
    proof (cases rule: proposal_cases)
      case (1 c u j)
      then have "fst (S t) = l" by (metis fst_conv Suc_inject)
      then show ?thesis using base_below [OF assms] Suc.prems(2) False by simp
    next
      case (2 c j)
      then show ?thesis using Suc.IH Suc.prems(2) False up [of H "(k, t)" l t t c] by simp
    qed
  qed simp
qed (use proposed_index [OF history_treeD(2) [OF assms(1)]] in fastforce)

text \<open>A log of the term: one that ends at its base or at one of its proposals.\<close>

definition of_term :: "history \<Rightarrow> bases \<Rightarrow> term_no \<Rightarrow> point \<Rightarrow> bool" where
  "of_term H S t p \<longleftrightarrow> p = S t \<or> snd p = t \<and> proposed H p"

lemma of_termI:
  assumes "history_tree H S el" and "led el t" and "pt H p" and "p = S t \<or> snd p = t"
  shows "of_term H S t p"
  using assms(4) pt_proposed [OF assms(3)] history_treeD(5) [OF assms(1,2)] by (auto simp: of_term_def)

lemma of_term_base: "history_tree H S el \<Longrightarrow> of_term H S t p \<Longrightarrow> below H (S t) p"
  using base_below [of H S el "fst p" t] by (auto simp: of_term_def)

lemma of_term_proposal:
  assumes "history_tree H S el" and "of_term H S t p" and "proposed H (k, t)" and "k \<le> fst p"
  shows "below H (k, t) p"
proof -
  have "p \<noteq> S t" using base_below [OF assms(1,3)] assms(4) by auto
  then have "p = (fst p, t)" "proposed H (fst p, t)" using assms(2) by (auto simp: of_term_def)
  then show ?thesis using same_term [OF assms(1,3), of "fst p"] assms(4) by metis
qed

lemma of_term_above:
  "history_tree H S el \<Longrightarrow> of_term H S (snd q) p \<Longrightarrow> proposed H q \<Longrightarrow> fst q \<le> fst p \<Longrightarrow> below H q p"
  using of_term_proposal [of H S el "snd q" p "fst q"] by simp

text \<open>Two logs of one term are on one path.\<close>

lemma of_term_linear:
  assumes "history_tree H S el" and "of_term H S t p" and "of_term H S t q" and "fst p \<le> fst q"
  shows "below H p q"
proof (cases "p = S t")
  case True
  then show ?thesis using of_term_base [OF assms(1,3)] by simp
next
  case False
  then have "p = (fst p, t)" "proposed H (fst p, t)" using assms(2) by (auto simp: of_term_def)
  then show ?thesis using of_term_proposal [OF assms(1,3)] assms(4) by metis
qed

subsection \<open>Holding and committing a proposal\<close>

definition acked :: "packet set \<Rightarrow> node_id \<Rightarrow> term_no \<Rightarrow> nat \<Rightarrow> bool" where
  "acked net v t m \<longleftrightarrow> (\<exists>to r. (v, to, AppendEntriesResponse r) \<in> net \<and> aer_success r \<and>
     aer_term r = t \<and> aer_match_index r = m)"

definition holds :: "history \<Rightarrow> packet set \<Rightarrow> (term_no \<times> node_id) set \<Rightarrow> node_id \<Rightarrow> point \<Rightarrow> bool" where
  "holds H net el v q \<longleftrightarrow> proposed H q \<and> ((snd q, v) \<in> el \<or> (\<exists>m. fst q \<le> m \<and> acked net v (snd q) m))"

definition committed :: "node_id set \<Rightarrow> history \<Rightarrow> packet set \<Rightarrow> (term_no \<times> node_id) set \<Rightarrow> point \<Rightarrow> bool" where
  "committed ids H net el q \<longleftrightarrow> proposed H q \<and> (\<exists>Q. quorum ids Q \<and> (\<forall>v \<in> Q. holds H net el v q))"

text \<open>The base of a term in between lacks the proposal.\<close>

definition passed :: "history \<Rightarrow> bases \<Rightarrow> (term_no \<times> node_id) set \<Rightarrow> point \<Rightarrow> term_no \<Rightarrow> bool" where
  "passed H S el q b \<longleftrightarrow> (\<exists>t. led el t \<and> snd q < t \<and> t < b \<and> \<not> below H q (S t))"

text \<open>What a voter that held \<open>q\<close> knows about a candidate of term \<open>b\<close> whose log ends at \<open>s\<close>.\<close>

definition kept :: "history \<Rightarrow> bases \<Rightarrow> (term_no \<times> node_id) set \<Rightarrow> point \<Rightarrow> point \<Rightarrow> term_no \<Rightarrow> bool" where
  "kept H S el q s b \<longleftrightarrow> (\<exists>p. pt H p \<and> below H q p \<and> up_to_date s p) \<or> passed H S el q b"

definition elected_by ::
  "node_id set \<Rightarrow> history \<Rightarrow> bases \<Rightarrow> nodes \<Rightarrow> packet set \<Rightarrow> (term_no \<times> node_id) set \<Rightarrow> bool" where
  "elected_by ids H S N net el \<longleftrightarrow> (\<forall>t j. (t, j) \<in> el \<longrightarrow>
     (\<exists>Q. quorum ids Q \<and> (\<forall>v \<in> Q. (\<forall>n. N v = Some n \<longrightarrow> t \<le> current_term n) \<and>
        (\<forall>q. holds H net el v q \<longrightarrow> snd q < t \<longrightarrow> kept H S el q (S t) t))))"

text \<open>A log that is at least as up to date as one with a proposal has it, if all bases in between do.\<close>

lemma up_to_date_has:
  assumes "history_tree H S el" and "proposed H q" and "pt H p" and "below H q p" and "pt H s" and "up_to_date s p"
    and "\<And>t. led el t \<Longrightarrow> snd q < t \<Longrightarrow> t \<le> snd s \<Longrightarrow> below H q (S t)"
  shows "below H q s"
proof -
  have q: "snd q \<le> snd p" "fst q \<le> fst p"
    using below_term [OF assms(4) tree_increasing [OF assms(1)]] below_fst [OF assms(4)] by simp_all
  have "led el (snd q)" using proposed_led [OF assms(1), of "fst q" "snd q"] assms(2) by simp
  then have pos: "0 < snd q" using history_treeD(5) [OF assms(1)] by fastforce
  then have p: "proposed H p" using pt_proposed [OF assms(3)] q by linarith
  show ?thesis
  proof (cases "snd p = snd s")
    case True
    then have le: "fst p \<le> fst s" using assms(6) by (simp add: up_to_date_def)
    have "proposed H s" using pt_proposed [OF assms(5)] True pos q by linarith
    then have s: "proposed H (fst s, snd p)" using True by simp
    have "below H (fst p, snd p) (fst s, snd p)" by (rule same_term [OF assms(1) _ s le]) (use p in simp)
    then have "below H p s" using True by (metis prod.collapse)
    then show ?thesis using assms(4) by (rule below_trans)
  next
    case False
    then have lt: "snd p < snd s" using assms(6) by (simp add: up_to_date_def)
    then have s: "proposed H (fst s, snd s)" using pt_proposed [OF assms(5)] by simp
    then have "below H q (S (snd s))" using assms(7) proposed_led [OF assms(1) s] lt q by simp
    then show ?thesis using below_trans [of H "S (snd s)" s q] base_below [OF assms(1) s] by simp
  qed
qed

lemma leader_complete:
  assumes "history_tree H S el" and "elected_by ids H S N net el" and "finite ids" and "committed ids H net el q"
  shows "(t, j) \<in> el \<Longrightarrow> snd q < t \<Longrightarrow> below H q (S t)"
proof (induction t arbitrary: j rule: less_induct)
  case (less t)
  obtain Q where Q: "quorum ids Q" "\<forall>v \<in> Q. holds H net el v q" and q: "proposed H q"
    using assms(4) unfolding committed_def by blast
  obtain R where R: "quorum ids R" "\<forall>v \<in> R. \<forall>q. holds H net el v q \<longrightarrow> snd q < t \<longrightarrow> kept H S el q (S t) t"
    using assms(2) less.prems(1) unfolding elected_by_def by blast
  obtain v where "v \<in> Q" "v \<in> R" using quorums_meet [OF Q(1) R(1) assms(3)] by blast
  then have "kept H S el q (S t) t" using Q(2) R(2) less.prems(2) by blast
  moreover have "\<not> passed H S el q t" using less.IH unfolding passed_def led_def by blast
  ultimately obtain p where p: "pt H p" "below H q p" "up_to_date (S t) p" unfolding kept_def by blast
  have b: "pt H (S t)" "snd (S t) < t" using history_treeD(5) [OF assms(1)] less.prems(1) by (auto simp: led_def)
  show ?case
  proof (rule up_to_date_has [OF assms(1) q p(1,2) b(1) p(3)])
    fix x
    assume "led el x" "snd q < x" "x \<le> snd (S t)"
    then show "below H q (S x)" using less.IH [of x] b(2) unfolding led_def by auto
  qed
qed

subsection \<open>Larger histories\<close>

definition extends ::
  "history \<Rightarrow> bases \<Rightarrow> (term_no \<times> node_id) set \<Rightarrow> history \<Rightarrow> bases \<Rightarrow> (term_no \<times> node_id) set \<Rightarrow> bool" where
  "extends H S el H' S' el' \<longleftrightarrow> H \<subseteq> H' \<and> functional H' \<and> rooted H \<and> el \<subseteq> el' \<and>
     (\<forall>t. led el t \<longrightarrow> S' t = S t \<and> pt H (S t))"

lemma passed_extends:
  assumes "extends H S el H' S' el'" and "passed H S el q b" and "b \<le> b'"
  shows "passed H' S' el' q b'"
proof -
  obtain t where t: "led el t" "snd q < t" "t < b" "\<not> below H q (S t)" using assms(2) unfolding passed_def by blast
  have e: "H \<subseteq> H'" "functional H'" "rooted H" "el \<subseteq> el'" "S' t = S t" "pt H (S t)"
    using assms(1) t(1) unfolding extends_def by blast+
  have "\<not> below H' q (S' t)" using below_old [OF e(2,1,3) _ e(6)] t(4) e(5) by metis
  moreover have "led el' t" using t(1) e(4) unfolding led_def by blast
  ultimately show ?thesis using t(2,3) assms(3) unfolding passed_def by (meson less_le_trans)
qed

lemma kept_extends:
  assumes "extends H S el H' S' el'" and "kept H S el q s b"
  shows "kept H' S' el' q s b"
proof -
  have "H \<subseteq> H'" using assms(1) unfolding extends_def by blast
  then show ?thesis
    using assms passed_extends [OF assms(1) _ order_refl] pt_mono below_mono unfolding kept_def by meson
qed

lemma acked_mono: "acked net v t m \<Longrightarrow> acked (net \<union> new) v t m"
  unfolding acked_def by blast

lemma holds_mono: "holds H net el v q \<Longrightarrow> H \<subseteq> H' \<Longrightarrow> el \<subseteq> el' \<Longrightarrow> holds H' (net \<union> new) el' v q"
  unfolding holds_def using proposed_mono acked_mono by (meson subsetD)

lemma committed_mono:
  "committed ids H net el q \<Longrightarrow> H \<subseteq> H' \<Longrightarrow> el \<subseteq> el' \<Longrightarrow> committed ids H' (net \<union> new) el' q"
  unfolding committed_def using holds_mono proposed_mono by meson

end
