(* ===== verification/Commit_Step.thy ===== *)
theory Commit_Step
  imports Commit_Inv
begin

text \<open>
  The steps of a node as commitment sees them, \<open>moved\<close>: the tip of its log, its commit index and the
  match index of a leader, before the event and as the runner has saved the node after it. Compaction
  is not visible in them. \<open>replicated_step\<close> is one event of one node of a cluster with what it sends.
\<close>

inductive moved :: "history \<Rightarrow> runner_event \<Rightarrow> raft_node \<Rightarrow> raft_node \<Rightarrow> bool" for H where
  stays: "proposal ev n = None \<Longrightarrow> tip n' = tip n \<Longrightarrow> commit_index n' = commit_index n \<Longrightarrow>
    (role n' = Follower \<or> role n' = role n \<and> current_term n' = current_term n \<and>
       leader_match_index n' = leader_match_index n) \<Longrightarrow> moved H ev n n'"
| campaigning: "proposal ev n = None \<Longrightarrow> tip n' = tip n \<Longrightarrow> commit_index n' = commit_index n \<Longrightarrow>
    role n' = Candidate \<Longrightarrow> current_term n < current_term n' \<Longrightarrow> moved H ev n n'"
| winning: "proposal ev n = None \<Longrightarrow> tip n' = tip n \<Longrightarrow> commit_index n' = commit_index n \<Longrightarrow>
    role n = Candidate \<Longrightarrow> role n' = Leader \<Longrightarrow> current_term n' = current_term n \<Longrightarrow>
    (\<forall>p x. hm_get (leader_match_index n') p = Some x \<longrightarrow>
       p = nid n \<or> p \<in> set (peers n) \<and> x \<le> commit_index n) \<Longrightarrow> moved H ev n n'"
| following: "ev = Received sender (AppendEntries req) \<Longrightarrow> current_term n \<le> ae_term req \<Longrightarrow>
    current_term n' = ae_term req \<Longrightarrow> role n' = Follower \<Longrightarrow> ae_consistent req n \<Longrightarrow>
    tip n' = (if below H (request_end req) (tip n) then tip n else request_end req) \<Longrightarrow>
    commit_index n' = commit_index n \<or> commit_index n < ae_leader_commit req \<and>
      commit_index n' = max (snapshot_last_included_index n) (min (ae_leader_commit req) (log_end n')) \<Longrightarrow>
    moved H ev n n'"
| counting: "ev = Received sender (AppendEntriesResponse resp) \<Longrightarrow> aer_success resp \<Longrightarrow> role n = Leader \<Longrightarrow>
    role n' = Leader \<Longrightarrow> aer_term resp = current_term n \<Longrightarrow> current_term n' = current_term n \<Longrightarrow> tip n' = tip n \<Longrightarrow>
    k = n\<lparr>leader_match_index := hm_insert (aer_from resp) (aer_match_index resp) (leader_match_index n)\<rparr> \<Longrightarrow>
    leader_match_index n' = leader_match_index k \<Longrightarrow>
    commit_index n' = commit_index n \<or> commit_candidate k (commit_index n') \<Longrightarrow> moved H ev n n'"
| appending: "proposal ev n = Some v \<Longrightarrow> role n = Leader \<Longrightarrow> role n' = Leader \<Longrightarrow> current_term n' = current_term n \<Longrightarrow>
    tip n' = (Suc (log_end n), current_term n) \<Longrightarrow>
    leader_match_index n' = hm_insert (nid n) (log_end n') (leader_match_index n) \<Longrightarrow>
    commit_index n' = commit_index n \<or> majority n = 1 \<and> commit_index n' = log_end n' \<Longrightarrow> moved H ev n n'"

definition replicated_step ::
  "gen_range \<Rightarrow> nodes \<Rightarrow> packet set \<Rightarrow> node_id \<Rightarrow> runner_event \<Rightarrow> raft_node \<Rightarrow> raft_node \<Rightarrow>
   (node_id \<times> raft_message) list \<Rightarrow> bool" where
  "replicated_step rng N net i ev n n' outs \<longleftrightarrow> local_step N net i ev n n' outs \<and>
     (\<exists>m. react rng ev n = Some (m, outs) \<and> same_election m n' \<and> cut_log m n' \<and> same_progress m n')"

lemma replicated_stepD:
  assumes "replicated_step rng N net i ev n n' outs"
  obtains m where "react rng ev n = Some (m, outs)" and "same_election m n'" and "cut_log m n'"
    and "same_progress m n'"
  using assms unfolding replicated_step_def by blast

lemma replicated_logged:
  "replicated_step rng N net i ev n n' outs \<Longrightarrow> logged_step rng N net i ev n n' outs"
  unfolding replicated_step_def logged_step_def by blast

lemma replicated_local: "replicated_step rng N net i ev n n' outs \<Longrightarrow> local_step N net i ev n n' outs"
  unfolding replicated_step_def by blast

lemma moved_cut:
  assumes "replica_step ev n m" and "node_inv n" and "same_election m n'" and "cut_log m n'" and "same_progress m n'"
    and "functional H" and "log_based H n" and "\<And>s req. ev = Received s (AppendEntries req) \<Longrightarrow> request_based H req"
  shows "moved H ev n n'"
proof -
  have s: "role n' = role m" "current_term n' = current_term m" "commit_index n' = commit_index m"
    "leader_match_index n' = leader_match_index m" "tip n' = tip m" "log_end n' = log_end m"
    using assms(3,5) cut_log_tip(1) [OF assms(4)] cut_log_end [OF assms(4)]
    by (simp_all add: same_election_def same_progress_def)
  from assms(1) show ?thesis
  proof cases
    case quiet
    then show ?thesis using s same_log_tip [of n m] by (intro moved.stays) auto
  next
    case campaign
    then show ?thesis using s same_log_tip [of n m] by (intro moved.campaigning) auto
  next
    case elected
    moreover have "snapshot_last_included_index n \<le> commit_index n" using node_inv_snapshot_le [OF assms(2)] by simp
    ultimately show ?thesis using s same_log_tip [of n m] by (intro moved.winning) auto
  next
    case (accepts sender req)
    have "tip m = (if below H (request_end req) (tip n) then tip n else request_end req)"
      by (rule accept_tip(1) [OF assms(6) assms(8) [OF accepts(1)] assms(7) accepts(5,6)])
    then show ?thesis using accepts s by (intro moved.following [OF accepts(1)]) auto
  next
    case (acknowledged sender resp k)
    then show ?thesis using s same_log_tip [of n m] by (intro moved.counting [OF acknowledged(1)]) auto
  next
    case (proposes v)
    then show ?thesis using s propose_tip [of n "current_term n" v m] by (intro moved.appending) auto
  qed
qed

lemma step_moved:
  assumes "election_inv ids N net el" and "history_inv H N net el" and "replicated_step rng N net i ev n n' outs"
  shows "moved H ev n n'"
proof -
  obtain m where m: "react rng ev n = Some (m, outs)" "same_election m n'" "cut_log m n'" "same_progress m n'"
    using replicated_stepD [OF assms(3)] .
  note l = local_stepD [OF replicated_local [OF assms(3)]]
  have n: "node_inv n" using assms(1) l(1) nodes_okD unfolding election_inv_def by blast
  note h = history_invD [OF assms(2)]
  have r: "request_based H req" if "ev = Received s (AppendEntries req)" for s req
    using h(6) l(2) that unfolding event_from_def by blast
  show ?thesis by (rule moved_cut [OF react_replica [OF n m(1)] n m(2-4) h(1) h(5) [OF l(1)] r])
qed

text \<open>The snapshot position stays on the path of the log.\<close>

lemma step_snapshot:
  assumes "election_inv ids N net el" and "history_inv H N net el" and "replicated_step rng N net i ev n n' outs"
    and "pt H (snapshot_point n)" and "rooted (propose_history ev n H)"
  shows "pt (propose_history ev n H) (snapshot_point n')" and "pt (propose_history ev n H) (tip n')"
proof -
  let ?H = "propose_history ev n H"
  obtain m where m: "react rng ev n = Some (m, outs)" "cut_log m n'" using replicated_stepD [OF assms(3)] .
  note l = local_stepD [OF replicated_local [OF assms(3)]]
  have "request_based H req" if "ev = Received s (AppendEntries req)" for s req
    using history_invD(6) [OF assms(2)] l(2) that unfolding event_from_def by blast
  then have b: "log_based ?H m" using log_step_based [OF react_log [OF m(1)] history_invD(5) [OF assms(2) l(1)]] by blast
  have "snapshot_point m = snapshot_point n"
    using react_log [OF m(1)] by cases (auto simp: same_log_def snapshot_point_def)
  then have p: "pt ?H (snapshot_point m)" using pt_mono [OF assms(4) propose_history_mono] by simp
  have t: "pt ?H (tip m)" by (rule tip_pt [OF b p])
  then show "pt ?H (tip n')" using cut_log_tip(1) [OF m(2)] by simp
  have "below ?H (snapshot_point n') (tip m)"
    using term_at_below [OF b cut_log_tip(2) [OF m(2)]] by (simp add: snapshot_point_def)
  then show "pt ?H (snapshot_point n')" using pt_below assms(5) t by blast
qed

end
