(* ===== verification/Commit_Safety.thy ===== *)
theory Commit_Safety
  imports Commit_Step
begin

text \<open>
  The invariant behind the safety of committed entries, and that every event keeps it if the
  acknowledgement that it may send is clean: the log of the follower then ends where the request ends,
  or in the term of the request. A follower acknowledges the end of its log, so without that it may
  acknowledge entries that the leader does not have.
\<close>

definition clean_event :: "runner_event \<Rightarrow> raft_node \<Rightarrow> raft_node \<Rightarrow> bool" where
  "clean_event ev n n' =
     (case ev of
        Received sender (AppendEntries req) \<Rightarrow> current_term n \<le> ae_term req \<longrightarrow> ae_consistent req n \<longrightarrow>
          log_end n' = ae_prev_log_index req + length (ae_entries req) \<or> last_term n' = ae_term req
      | _ \<Rightarrow> True)"

subsection \<open>The invariant\<close>

text \<open>The logs of nodes and the requests: where they end, and in which term.\<close>

definition tips_ok :: "history \<Rightarrow> bases \<Rightarrow> nodes \<Rightarrow> bool" where
  "tips_ok H S N \<longleftrightarrow> (\<forall>i n. N i = Some n \<longrightarrow> pt H (snapshot_point n) \<and> last_term n \<le> current_term n \<and>
     (role n = Candidate \<longrightarrow> last_term n < current_term n) \<and>
     (role n = Leader \<longrightarrow> of_term H S (current_term n) (tip n)))"

definition requests_ok :: "history \<Rightarrow> bases \<Rightarrow> packet set \<Rightarrow> bool" where
  "requests_ok H S net \<longleftrightarrow> (\<forall>s to req. (s, to, AppendEntries req) \<in> net \<longrightarrow>
     of_term H S (ae_term req) (request_end req))"

definition campaigns_ok :: "nodes \<Rightarrow> packet set \<Rightarrow> bool" where
  "campaigns_ok N net \<longleftrightarrow> (\<forall>s to req n. (s, to, RequestVote req) \<in> net \<longrightarrow> N s = Some n \<longrightarrow>
     rv_term req \<le> current_term n \<and>
     (rv_term req = current_term n \<longrightarrow> role n = Candidate \<longrightarrow> candidate_tip req = tip n))"

text \<open>An acknowledgement is for a log of its term.\<close>

definition acks_ok :: "history \<Rightarrow> bases \<Rightarrow> nodes \<Rightarrow> packet set \<Rightarrow> (term_no \<times> node_id) set \<Rightarrow> bool" where
  "acks_ok H S N net el \<longleftrightarrow> (\<forall>v t m. acked net v t m \<longrightarrow> led el t \<and> (m = fst (S t) \<or> proposed H (m, t)) \<and>
     (\<forall>n. N v = Some n \<longrightarrow> t \<le> current_term n))"

text \<open>What a node held it still has, or a base passed it by.\<close>

definition retained :: "history \<Rightarrow> bases \<Rightarrow> nodes \<Rightarrow> packet set \<Rightarrow> (term_no \<times> node_id) set \<Rightarrow> bool" where
  "retained H S N net el \<longleftrightarrow> (\<forall>v n q. N v = Some n \<longrightarrow> holds H net el v q \<longrightarrow>
     below H q (tip n) \<or> passed H S el q (current_term n + 1))"

definition grants_ok :: "history \<Rightarrow> bases \<Rightarrow> packet set \<Rightarrow> (term_no \<times> node_id) set \<Rightarrow> bool" where
  "grants_ok H S net el \<longleftrightarrow> (\<forall>v c t. granted net v c t \<longrightarrow> (\<exists>req. (c, v, RequestVote req) \<in> net \<and> rv_term req = t \<and>
     (led el t \<or> (\<forall>q. holds H net el v q \<longrightarrow> snd q < t \<longrightarrow> kept H S el q (candidate_tip req) t))))"

text \<open>A commit index \<open>k\<close> known in term \<open>t\<close> on the way to \<open>p\<close>: there is a committed proposal above it.\<close>

definition commit_at ::
  "node_id set \<Rightarrow> history \<Rightarrow> packet set \<Rightarrow> (term_no \<times> node_id) set \<Rightarrow> nat \<Rightarrow> term_no \<Rightarrow> point \<Rightarrow> bool" where
  "commit_at ids H net el k t p \<longleftrightarrow> k = 0 \<or>
     (\<exists>r q. fst r = k \<and> below H r p \<and> below H r q \<and> committed ids H net el q \<and> snd q \<le> t)"

definition commits_ok ::
  "node_id set \<Rightarrow> history \<Rightarrow> nodes \<Rightarrow> packet set \<Rightarrow> (term_no \<times> node_id) set \<Rightarrow> bool" where
  "commits_ok ids H N net el \<longleftrightarrow>
     (\<forall>i n. N i = Some n \<longrightarrow> commit_at ids H net el (commit_index n) (current_term n) (tip n)) \<and>
     (\<forall>s to req. (s, to, AppendEntries req) \<in> net \<longrightarrow>
        commit_at ids H net el (ae_leader_commit req) (ae_term req) (request_end req))"

text \<open>A leader's match index of a follower was acknowledged, or is committed already.\<close>

definition matches_ok :: "node_id set \<Rightarrow> nodes \<Rightarrow> packet set \<Rightarrow> bool" where
  "matches_ok ids N net \<longleftrightarrow> (\<forall>i n v x. N i = Some n \<longrightarrow> role n = Leader \<longrightarrow>
     hm_get (leader_match_index n) v = Some x \<longrightarrow>
     v \<in> ids \<and> (v = i \<or> x \<le> commit_index n \<or> acked net v (current_term n) x))"

definition commit_inv ::
  "node_id set \<Rightarrow> history \<Rightarrow> bases \<Rightarrow> nodes \<Rightarrow> packet set \<Rightarrow> (term_no \<times> node_id) set \<Rightarrow> bool" where
  "commit_inv ids H S N net el \<longleftrightarrow> election_inv ids N net el \<and> history_inv H N net el \<and> history_tree H S el \<and>
     tips_ok H S N \<and> requests_ok H S net \<and> campaigns_ok N net \<and> acks_ok H S N net el \<and>
     retained H S N net el \<and> grants_ok H S net el \<and> elected_by ids H S N net el \<and>
     matches_ok ids N net \<and> commits_ok ids H N net el"

lemma commit_invD:
  assumes "commit_inv ids H S N net el"
  shows "election_inv ids N net el" and "history_inv H N net el" and "history_tree H S el"
    and "tips_ok H S N" and "requests_ok H S net" and "campaigns_ok N net" and "acks_ok H S N net el"
    and "retained H S N net el" and "grants_ok H S net el" and "elected_by ids H S N net el"
    and "matches_ok ids N net" and "commits_ok ids H N net el"
  using assms unfolding commit_inv_def by blast+

text \<open>The base of a term that is won with this event is the tip of the winner.\<close>

definition next_bases :: "(term_no \<times> node_id) set \<Rightarrow> raft_node \<Rightarrow> bases \<Rightarrow> bases" where
  "next_bases el n' S = (if role n' = Leader \<and> \<not> led el (current_term n') then S(current_term n' := tip n') else S)"

text \<open>A clean event in a state with the invariant.\<close>

definition clean_in ::
  "gen_range \<Rightarrow> node_id set \<Rightarrow> history \<Rightarrow> bases \<Rightarrow> nodes \<Rightarrow> packet set \<Rightarrow> (term_no \<times> node_id) set \<Rightarrow>
   node_id \<Rightarrow> runner_event \<Rightarrow> raft_node \<Rightarrow> raft_node \<Rightarrow> (node_id \<times> raft_message) list \<Rightarrow> bool" where
  "clean_in rng ids H S N net el i ev n n' outs \<longleftrightarrow> commit_inv ids H S N net el \<and>
     replicated_step rng N net i ev n n' outs \<and> clean_event ev n n'"

lemma clean_inD:
  assumes "clean_in rng ids H S N net el i ev n n' outs"
  shows "commit_inv ids H S N net el" and "replicated_step rng N net i ev n n' outs" and "clean_event ev n n'"
    and "local_step N net i ev n n' outs" and "moved H ev n n'" and "N i = Some n" and "event_from net i ev"
    and "current_term n \<le> current_term n'" and "nid n = i" and "i \<in> ids" and "finite ids"
    and "node_inv n" and "node_inv n'"
proof -
  show c: "commit_inv ids H S N net el" "replicated_step rng N net i ev n n' outs" "clean_event ev n n'"
    using assms unfolding clean_in_def by blast+
  show l: "local_step N net i ev n n' outs" by (rule replicated_local [OF c(2)])
  show "moved H ev n n'" by (rule step_moved [OF commit_invD(1,2) [OF c(1)] c(2)])
  show n: "N i = Some n" and "event_from net i ev" and "node_inv n'" using local_stepD [OF l] by blast+
  show "current_term n \<le> current_term n'" by (rule election_step_term [OF local_stepD(3) [OF l]])
  have ok: "nodes_ok ids N" using commit_invD(1) [OF c(1)] unfolding election_inv_def by blast
  then show "finite ids" unfolding nodes_ok_def by blast
  show "nid n = i" "i \<in> ids" "node_inv n" using nodes_okD [OF ok n] by blast+
qed

subsection \<open>The history of the step\<close>

lemma step_pt:
  assumes "commit_inv ids H S N net el" and "N i = Some n"
  shows "pt H (tip n)"
  using tip_pt history_invD(5) [OF commit_invD(2) [OF assms(1)] assms(2)] commit_invD(4) [OF assms(1)] assms(2)
  unfolding tips_ok_def by blast

text \<open>A node that wins has not led the term before, and nobody else has.\<close>

lemma wins_unled:
  assumes "clean_in rng ids H S N net el i ev n n' outs" and "role n = Candidate" and "role n' = Leader"
    and "current_term n' = current_term n"
  shows "\<not> led el (current_term n')"
proof
  assume "led el (current_term n')"
  then obtain j where j: "(current_term n', j) \<in> el" unfolding led_def by blast
  note c = clean_inD [OF assms(1)]
  have "(current_term n', i) \<in> elected_now i n'" using assms(3) by (simp add: elected_now_def)
  then have "j = i" using j step_one_leader [OF commit_invD(1) [OF c(1)] c(4)] unfolding one_leader_def by blast
  then show False
    using j assms(2,4) c(6) history_invD(4) [OF commit_invD(2) [OF c(1)]] unfolding candidates_new_def by metis
qed

lemma moved_unled:
  assumes "clean_in rng ids H S N net el i ev n n' outs" and "role n' = Leader" and "\<not> led el (current_term n')"
  shows "role n = Candidate" and "current_term n' = current_term n" and "tip n' = tip n"
    and "propose_history ev n H = H"
proof -
  note c = clean_inD [OF assms(1)]
  have l: "led el (current_term n)" if "role n = Leader"
    using elected_of_leader [OF commit_invD(1) [OF c(1)] c(6) that] unfolding led_def by blast
  from c(5) have "role n = Candidate \<and> current_term n' = current_term n \<and> tip n' = tip n \<and> proposal ev n = None"
    by cases (use l assms(2,3) in auto)
  then show "role n = Candidate" "current_term n' = current_term n" "tip n' = tip n" "propose_history ev n H = H"
    by (simp_all add: propose_history_def)
qed

lemma step_extends:
  assumes "clean_in rng ids H S N net el i ev n n' outs"
  shows "extends H S el (propose_history ev n H) (next_bases el n' S) (el \<union> elected_now i n')"
proof -
  note c = clean_inD [OF assms]
  note t = commit_invD(3) [OF c(1)]
  show ?thesis
    unfolding extends_def
    using propose_history_mono step_functional [OF commit_invD(2) [OF c(1)] c(6)] history_treeD(2,5) [OF t]
    by (auto simp: next_bases_def)
qed

lemma extendsD:
  assumes "extends H S el H' S' el'"
  shows "H \<subseteq> H'" and "el \<subseteq> el'" and "led el t \<Longrightarrow> S' t = S t" and "led el t \<Longrightarrow> led el' t"
  using assms unfolding extends_def led_def by blast+

lemma of_term_extends:
  "extends H S el H' S' el' \<Longrightarrow> led el t \<Longrightarrow> of_term H S t p \<Longrightarrow> of_term H' S' t p"
  using proposed_mono extendsD(1,3) unfolding of_term_def by metis

lemma step_tree:
  assumes "clean_in rng ids H S N net el i ev n n' outs"
  shows "history_tree (propose_history ev n H) (next_bases el n' S) (el \<union> elected_now i n')"
proof -
  let ?H = "propose_history ev n H" and ?S = "next_bases el n' S" and ?el = "el \<union> elected_now i n'"
  note c = clean_inD [OF assms]
  note inv = commit_invD [OF c(1)]
  note x = step_extends [OF assms]
  have tips: "last_term n \<le> current_term n" "role n = Candidate \<Longrightarrow> last_term n < current_term n"
      "role n = Leader \<Longrightarrow> of_term H S (current_term n) (tip n)"
    using inv(4) c(6) unfolding tips_ok_def by blast+
  have p: "pt H (tip n)" by (rule step_pt [OF c(1,6)])
  have "rooted ?H"
    unfolding rooted_def
  proof (intro allI impI)
    fix k t v u
    assume "(k, t, v, u) \<in> ?H"
    then show "0 < k \<and> pt ?H (k - 1, u)"
      using propose_history_new rootedD [OF history_treeD(2) [OF inv(3)]] pt_mono [OF _ propose_history_mono] p
      by (metis add.commute diff_add_inverse less_add_one tip_def trans_less_add2 zero_less_one)
  qed
  moreover have "(k - 1, u) = ?S t \<or> u = t" if "(k, t, v, u) \<in> ?H" for k t v u
    using propose_history_new [OF that]
  proof
    assume h: "(k, t, v, u) \<in> H"
    then have "led el t" using proposed_led [OF inv(3), of k t] by (auto simp: proposed_def)
    then show ?thesis using history_treeD(4) [OF inv(3) h] extendsD(3) [OF x] by simp
  next
    assume h: "role n = Leader \<and> proposal ev n = Some v \<and> k = log_end n + 1 \<and> t = current_term n \<and> u = last_term n"
    then have "(t, i) \<in> el" using elected_of_leader [OF inv(1) c(6)] by simp
    then have "?S t = S t" using extendsD(3) [OF x] unfolding led_def by blast
    then show ?thesis using tips(3) h by (auto simp: of_term_def tip_def)
  qed
  moreover have "pt ?H (?S t) \<and> snd (?S t) < t" if l: "led ?el t" for t
  proof (cases "led el t")
    case True
    then show ?thesis using history_treeD(5) [OF inv(3) True] extendsD(3) [OF x] pt_mono [OF _ extendsD(1) [OF x]] by simp
  next
    case False
    then have n: "role n' = Leader" "t = current_term n'"
      using l by (auto simp: led_def elected_now_def split: if_splits)
    note m = moved_unled [OF assms n(1) False [unfolded n(2)]]
    have "?S t = tip n'" using n False by (simp add: next_bases_def)
    then show ?thesis using m p tips(2) n(2) by simp
  qed
  moreover have "functional ?H" "terms_led ?H ?el"
    using step_functional [OF inv(2) c(6)] step_terms_led [OF inv(1,2) c(6)] by auto
  ultimately show ?thesis unfolding history_tree_def by blast
qed

subsection \<open>Logs, requests and campaigns\<close>

lemma tips_okD:
  assumes "commit_inv ids H S N net el" and "N i = Some n"
  shows "pt H (snapshot_point n)" and "last_term n \<le> current_term n"
    and "role n = Candidate \<Longrightarrow> last_term n < current_term n"
    and "role n = Leader \<Longrightarrow> of_term H S (current_term n) (tip n)" and "role n = Leader \<Longrightarrow> led el (current_term n)"
  using commit_invD(4) [OF assms(1)] elected_of_leader [OF commit_invD(1) [OF assms(1)] assms(2)] assms(2)
  unfolding tips_ok_def led_def by blast+

lemma event_packet: "event_from net i (Received s msg) \<Longrightarrow> (s, i, msg) \<in> net"
  by (simp add: event_from_def)

text \<open>A request that is delivered is one of its term.\<close>

lemma request_okD:
  assumes "commit_inv ids H S N net el" and "(s, to, AppendEntries req) \<in> net"
  shows "of_term H S (ae_term req) (request_end req)" and "led el (ae_term req)"
    and "snd (request_end req) \<le> ae_term req" and "request_based H req"
proof -
  note inv = commit_invD [OF assms(1)]
  show o: "of_term H S (ae_term req) (request_end req)" using inv(5) assms(2) unfolding requests_ok_def by blast
  have "packet_ok ids el (s, to, AppendEntries req)" using inv(1) assms(2) unfolding election_inv_def by blast
  then show l: "led el (ae_term req)" by (auto simp: packet_ok_def led_def)
  show "snd (request_end req) \<le> ae_term req" using o history_treeD(5) [OF inv(3) l] by (auto simp: of_term_def)
  show "request_based H req" by (rule history_invD(6) [OF inv(2) assms(2)])
qed

lemma step_tip:
  assumes "clean_in rng ids H S N net el i ev n n' outs"
  shows "last_term n' \<le> current_term n'" and "role n' = Candidate \<Longrightarrow> last_term n' < current_term n'"
    and "role n' = Leader \<Longrightarrow> of_term (propose_history ev n H) (next_bases el n' S) (current_term n') (tip n')"
proof -
  let ?H = "propose_history ev n H" and ?S = "next_bases el n' S"
  note c = clean_inD [OF assms]
  note t = tips_okD [OF c(1,6)]
  note x = step_extends [OF assms]
  have e: "last_term n' = snd p" if "tip n' = p" for p using that by auto
  have old: "of_term ?H ?S (current_term n) (tip n)" if "role n = Leader"
    by (rule of_term_extends [OF x t(5) [OF that] t(4) [OF that]])
  have "last_term n' \<le> current_term n' \<and> (role n' = Candidate \<longrightarrow> last_term n' < current_term n') \<and>
      (role n' = Leader \<longrightarrow> of_term ?H ?S (current_term n') (tip n'))"
    using c(5)
  proof cases
    case stays
    then show ?thesis using t(2,3) c(8) old e [OF stays(2)] by auto
  next
    case campaigning
    then show ?thesis using t(2) e [OF campaigning(2)] by simp
  next
    case winning
    then have "?S (current_term n') = tip n'" using wins_unled [OF assms] by (simp add: next_bases_def)
    then show ?thesis using winning t(2) e [OF winning(2)] by (simp add: of_term_def)
  next
    case (following s req)
    have "(s, i, AppendEntries req) \<in> net" using event_packet c(7) following(1) by blast
    then have "snd (request_end req) \<le> ae_term req" by (rule request_okD(3) [OF c(1)])
    then show ?thesis using following(2-4) t(2) e [OF following(6)] by (auto split: if_splits)
  next
    case (counting s resp k)
    then show ?thesis using t(2) e [OF counting(7)] old by simp
  next
    case (appending v)
    then have "proposed ?H (tip n')" by (auto simp: proposed_def propose_history_def)
    then show ?thesis using appending(2-4) e [OF appending(5)] by (simp add: of_term_def)
  qed
  then show "last_term n' \<le> current_term n'" "role n' = Candidate \<Longrightarrow> last_term n' < current_term n'"
    "role n' = Leader \<Longrightarrow> of_term ?H ?S (current_term n') (tip n')" by blast+
qed

lemma step_tips:
  assumes "clean_in rng ids H S N net el i ev n n' outs"
  shows "tips_ok (propose_history ev n H) (next_bases el n' S) (N(i \<mapsto> n'))"
  unfolding tips_ok_def
proof (intro allI impI)
  fix j k
  assume k: "(N(i \<mapsto> n')) j = Some k"
  note c = clean_inD [OF assms]
  note x = step_extends [OF assms]
  let ?H = "propose_history ev n H" and ?S = "next_bases el n' S"
  show "pt ?H (snapshot_point k) \<and> last_term k \<le> current_term k \<and>
      (role k = Candidate \<longrightarrow> last_term k < current_term k) \<and> (role k = Leader \<longrightarrow> of_term ?H ?S (current_term k) (tip k))"
  proof (cases "j = i")
    case True
    then show ?thesis
      using step_tip [OF assms] step_snapshot(1) [OF commit_invD(1,2) [OF c(1)] c(2) tips_okD(1) [OF c(1,6)]]
        history_treeD(2) [OF step_tree [OF assms]] k by auto
  next
    case False
    then have "N j = Some k" using k by simp
    note t = tips_okD [OF c(1) this]
    show ?thesis using t pt_mono [OF t(1) extendsD(1) [OF x]] of_term_extends [OF x t(5,4)] by blast
  qed
qed

text \<open>A request that is sent ends where the log of the leader ends.\<close>

lemma sent_request:
  assumes "clean_in rng ids H S N net el i ev n n' outs" and "(s, to, AppendEntries req) \<in> packets_from i outs"
  shows "role n' = Leader" and "ae_term req = current_term n'" and "request_end req = tip n'"
    and "ae_leader_commit req = commit_index n'"
proof -
  note c = clean_inD [OF assms(1)]
  have o: "(to, AppendEntries req) \<in> set outs" using assms(2) by (auto simp: packets_from_def)
  from local_stepD(7) [OF c(4) o] show "role n' = Leader" "ae_term req = current_term n'" by (simp_all add: sends_ok_def)
  obtain m where m: "react rng ev n = Some (m, outs)" "cut_log m n'" "same_progress m n'"
    using replicated_stepD [OF c(2)] .
  obtain p where "build_append_entries_for_peer m p = Some (Some req)" using react_built [OF m(1) o] by blast
  note b = built_request_end [OF this]
  show "request_end req = tip n'" using b(1) cut_log_tip(1) [OF m(2)] by simp
  show "ae_leader_commit req = commit_index n'" using b(3) m(3) by (simp add: same_progress_def)
qed

lemma step_requests:
  assumes "clean_in rng ids H S N net el i ev n n' outs"
  shows "requests_ok (propose_history ev n H) (next_bases el n' S) (net \<union> packets_from i outs)"
  unfolding requests_ok_def
proof (intro allI impI)
  fix s to req
  assume "(s, to, AppendEntries req) \<in> net \<union> packets_from i outs"
  then consider "(s, to, AppendEntries req) \<in> net" | "(s, to, AppendEntries req) \<in> packets_from i outs" by blast
  then show "of_term (propose_history ev n H) (next_bases el n' S) (ae_term req) (request_end req)"
  proof cases
    case 1
    note r = request_okD [OF clean_inD(1) [OF assms] 1]
    show ?thesis by (rule of_term_extends [OF step_extends [OF assms] r(2,1)])
  next
    case 2
    note r = sent_request [OF assms 2]
    show ?thesis unfolding r(2,3) by (rule step_tip(3) [OF assms r(1)])
  qed
qed

lemma step_campaigns:
  assumes "clean_in rng ids H S N net el i ev n n' outs"
  shows "campaigns_ok (N(i \<mapsto> n')) (net \<union> packets_from i outs)"
  unfolding campaigns_ok_def
proof (intro allI impI)
  fix s to req k
  assume p: "(s, to, RequestVote req) \<in> net \<union> packets_from i outs" and k: "(N(i \<mapsto> n')) s = Some k"
  note c = clean_inD [OF assms]
  note old = commit_invD(6) [OF c(1), unfolded campaigns_ok_def, rule_format]
  show "rv_term req \<le> current_term k \<and>
      (rv_term req = current_term k \<longrightarrow> role k = Candidate \<longrightarrow> candidate_tip req = tip k)"
  proof (cases "(s, to, RequestVote req) \<in> net")
    case True
    show ?thesis
    proof (cases "s = i")
      case False
      then show ?thesis using old [OF True] k by simp
    next
      case s: True
      then have o: "rv_term req \<le> current_term n"
          "rv_term req = current_term n \<Longrightarrow> role n = Candidate \<Longrightarrow> candidate_tip req = tip n"
        using old [OF True, of n] c(6) by simp_all
      have "role n' = Candidate \<longrightarrow>
          current_term n < current_term n' \<or> current_term n' = current_term n \<and> role n = Candidate \<and> tip n' = tip n"
        using c(5) by cases auto
      then show ?thesis using o c(8) k s by auto
    qed
  next
    case False
    then have "s = i" "(to, RequestVote req) \<in> set outs" using p by (auto simp: packets_from_def)
    moreover obtain m where "react rng ev n = Some (m, outs)" "same_election m n'" "cut_log m n'"
      using replicated_stepD [OF c(2)] .
    ultimately show ?thesis using react_campaign cut_log_tip(1) k by (fastforce simp: same_election_def)
  qed
qed

subsection \<open>Acknowledgements\<close>

text \<open>An acknowledgement that is sent: the log ends at what it reports, which is of the term.\<close>

lemma sent_ack:
  assumes "clean_in rng ids H S N net el i ev n n' outs" and "acked (packets_from i outs) v t m"
  shows "v = i" and "t = current_term n'" and "m = log_end n'" and "led el t" and "of_term H S t (tip n')"
    and "propose_history ev n H = H" and "next_bases el n' S = S"
proof -
  note c = clean_inD [OF assms(1)]
  obtain to r where r: "(v, to, AppendEntriesResponse r) \<in> packets_from i outs" "aer_success r" "aer_term r = t"
      "aer_match_index r = m"
    using assms(2) unfolding acked_def by blast
  then have o: "v = i" "(to, AppendEntriesResponse r) \<in> set outs" by (auto simp: packets_from_def)
  then show "v = i" by blast
  obtain k where k: "react rng ev n = Some (k, outs)" "same_election k n'" "cut_log k n'"
    using replicated_stepD [OF c(2)] .
  obtain req where q: "ev = Received to (AppendEntries req)" "current_term n \<le> ae_term req" "ae_consistent req n"
      "aer_term r = ae_term req" "current_term k = ae_term req" "aer_match_index r = log_end k"
      "same_log (n\<lparr>log := take (ae_prev_log_index req - snapshot_last_included_index n) (log n) @
        reconcile (drop (ae_prev_log_index req - snapshot_last_included_index n) (log n)) (ae_entries req)\<rparr>) k"
    using react_ack [OF k(1) o(2) r(2)] .
  show t: "t = current_term n'" and m: "m = log_end n'"
    using q(4-6) r(3,4) k(2) cut_log_end [OF k(3)] by (simp_all add: same_election_def)
  have net: "(to, i, AppendEntries req) \<in> net" using event_packet c(7) q(1) by blast
  note ok = request_okD [OF c(1) net]
  show led: "led el t" using ok(2) q(4) r(3) by simp
  show "propose_history ev n H = H" using q(1) by (simp add: propose_history_def)
  then have p: "pt H (tip n')"
    using step_snapshot(2) [OF commit_invD(1,2) [OF c(1)] c(2) tips_okD(1) [OF c(1,6)]]
      history_treeD(2) [OF step_tree [OF assms(1)]] by simp
  show "next_bases el n' S = S" using led t by (simp add: next_bases_def)
  have clean: "log_end n' = fst (request_end req) \<or> last_term n' = ae_term req"
    using c(3) q(1-3) by (simp add: clean_event_def request_end_def end_point_def)
  show "of_term H S t (tip n')"
  proof (cases "tip n' = request_end req")
    case True
    then show ?thesis using ok(1) q(4) r(3) by simp
  next
    case False
    have "tip n' = (if below H (request_end req) (tip n) then tip n else request_end req)"
      using accept_tip(1) [OF history_treeD(1) [OF commit_invD(3) [OF c(1)]] ok(4)
          history_invD(5) [OF commit_invD(2) [OF c(1)] c(6)] q(3,7)] cut_log_tip(1) [OF k(3)] by simp
    then have "below H (request_end req) (tip n')" using False by (auto split: if_splits)
    then have "log_end n' \<noteq> fst (request_end req)" using below_index False by fastforce
    then have "last_term n' = t" using clean q(4) r(3) by simp
    then show ?thesis using of_termI [OF commit_invD(3) [OF c(1)] led p] by simp
  qed
qed

lemma acked_Un: "acked (net \<union> new) v t m \<longleftrightarrow> acked net v t m \<or> acked new v t m"
  unfolding acked_def by blast

lemma step_acks:
  assumes "clean_in rng ids H S N net el i ev n n' outs"
  shows "acks_ok (propose_history ev n H) (next_bases el n' S) (N(i \<mapsto> n'))
    (net \<union> packets_from i outs) (el \<union> elected_now i n')"
  unfolding acks_ok_def acked_Un
proof (intro allI impI)
  fix v t m
  let ?H = "propose_history ev n H" and ?S = "next_bases el n' S"
  note c = clean_inD [OF assms]
  note x = extendsD [OF step_extends [OF assms]]
  assume "acked net v t m \<or> acked (packets_from i outs) v t m"
  then show "led (el \<union> elected_now i n') t \<and> (m = fst (?S t) \<or> proposed ?H (m, t)) \<and>
      (\<forall>k. (N(i \<mapsto> n')) v = Some k \<longrightarrow> t \<le> current_term k)"
  proof
    assume "acked net v t m"
    then have a: "led el t" "m = fst (S t) \<or> proposed H (m, t)" "N v = Some k \<Longrightarrow> t \<le> current_term k" for k
      using commit_invD(7) [OF c(1)] unfolding acks_ok_def by blast+
    have "t \<le> current_term k" if "(N(i \<mapsto> n')) v = Some k" for k
      using that a(3) c(6,8) by (cases "v = i") (auto intro: order_trans)
    then show ?thesis using a(2) x(3,4) [OF a(1)] proposed_mono [OF _ x(1)] by auto
  next
    assume "acked (packets_from i outs) v t m"
    note a = sent_ack [OF assms this]
    have "m = fst (S t) \<or> proposed H (m, t)" using a(3,5) unfolding of_term_def tip_def by (metis fst_conv snd_conv)
    then show ?thesis using a(1,2,6,7) x(4) [OF a(4)] by simp
  qed
qed

subsection \<open>Holding a proposal\<close>

text \<open>What is held after the event was held before, or the node has it now in its own term.\<close>

lemma proposed_now:
  assumes "clean_in rng ids H S N net el i ev n n' outs" and "proposed (propose_history ev n H) q" and "\<not> proposed H q"
  shows "role n = Leader" and "q = tip n'" and "q = (Suc (log_end n), current_term n)" and "current_term n' = current_term n"
proof -
  note c = clean_inD [OF assms(1)]
  obtain v u where "(fst q, snd q, v, u) \<in> propose_history ev n H" using assms(2) unfolding proposed_def by blast
  moreover have "(fst q, snd q, v, u) \<notin> H" using assms(3) unfolding proposed_def by blast
  ultimately have h: "role n = Leader" "proposal ev n = Some v" "fst q = log_end n + 1" "snd q = current_term n"
    using propose_history_new by blast+
  then show "role n = Leader" and q: "q = (Suc (log_end n), current_term n)" by (auto simp: prod_eq_iff)
  from c(5) have "tip n' = (Suc (log_end n), current_term n) \<and> current_term n' = current_term n"
    by cases (use h(2) in \<open>auto simp: proposal_Some_iff\<close>)
  then show "q = tip n'" "current_term n' = current_term n" using q by simp_all
qed

lemma leader_past_acks:
  assumes "commit_inv ids H S N net el" and "N i = Some n" and "role n = Leader" and "acked net v (current_term n) m"
  shows "m \<le> log_end n"
proof -
  note inv = commit_invD [OF assms(1)]
  have "m = fst (S (current_term n)) \<or> proposed H (m, current_term n)"
    using inv(7) assms(4) unfolding acks_ok_def by blast
  then show ?thesis
  proof
    assume "proposed H (m, current_term n)"
    then show ?thesis
      using leaders_aheadD [OF history_invD(3) [OF inv(2)] assms(2,3)] unfolding proposed_def by auto
  next
    assume "m = fst (S (current_term n))"
    then show ?thesis
      using below_fst [OF of_term_base [OF inv(3) tips_okD(4) [OF assms(1-3)]]] by simp
  qed
qed

lemma step_holds:
  assumes "clean_in rng ids H S N net el i ev n n' outs"
    and "holds (propose_history ev n H) (net \<union> packets_from i outs) (el \<union> elected_now i n') v q"
  shows "holds H net el v q \<or> v = i \<and> snd q = current_term n' \<and> below (propose_history ev n H) q (tip n')"
proof -
  let ?H = "propose_history ev n H" and ?el = "el \<union> elected_now i n'"
  note c = clean_inD [OF assms(1)]
  note inv = commit_invD [OF c(1)]
  have one: "one_leader ?el" by (rule step_one_leader [OF inv(1) c(4)])
  have q: "proposed ?H q" "(snd q, v) \<in> ?el \<or> (\<exists>m. fst q \<le> m \<and> acked (net \<union> packets_from i outs) v (snd q) m)"
    using assms(2) unfolding holds_def by blast+
  show ?thesis
  proof (cases "proposed H q")
    case True
    then obtain j where j: "(snd q, j) \<in> el" using proposed_led [OF inv(3), of "fst q" "snd q"] unfolding led_def by auto
    from q(2) show ?thesis
    proof
      assume "(snd q, v) \<in> ?el"
      then have "v = j" using one j unfolding one_leader_def by blast
      then show ?thesis using True j by (simp add: holds_def)
    next
      assume "\<exists>m. fst q \<le> m \<and> acked (net \<union> packets_from i outs) v (snd q) m"
      then obtain m where m: "fst q \<le> m" "acked net v (snd q) m \<or> acked (packets_from i outs) v (snd q) m"
        unfolding acked_Un by blast
      show ?thesis
      proof (cases "acked net v (snd q) m")
        case False
        then have "acked (packets_from i outs) v (snd q) m" using m(2) by blast
        note a = sent_ack [OF assms(1) this]
        have "below H q (tip n')" by (rule of_term_above [OF inv(3) a(5) True]) (use m(1) a(3) in simp)
        then show ?thesis using a(1,2,6) by simp
      qed (use True m(1) in \<open>auto simp: holds_def\<close>)
    qed
  next
    case False
    note p = proposed_now [OF assms(1) q(1) False]
    have "(current_term n, i) \<in> ?el" using elected_of_leader [OF inv(1) c(6) p(1)] by blast
    then have e: "v = i" if "(snd q, v) \<in> ?el" using one that p(3) unfolding one_leader_def snd_conv by (metis snd_conv)
    have "v = i" if m: "fst q \<le> m" "acked (net \<union> packets_from i outs) v (snd q) m" for m
    proof -
      have "\<not> acked (packets_from i outs) v (snd q) m" using sent_ack(6) [OF assms(1)] q(1) False by auto
      then have "acked net v (current_term n) m" using m(2) p(3) acked_Un by simp
      then show ?thesis using leader_past_acks [OF c(1,6) p(1)] m(1) p(3) by fastforce
    qed
    then have "v = i" using e q(2) by blast
    moreover have "snd q = current_term n'" using p(3,4) by simp
    ultimately show ?thesis using p(2) by blast
  qed
qed

end
