(* ===== verification/Commit_Kept.thy ===== *)
theory Commit_Kept
  imports Commit_Safety
begin

text \<open>
  Clean events, second part: what is held and committed stays in the logs that need it. A node keeps
  what it held, its vote says so to the candidate, the votes of a quorum say it of the winner; and the
  commit indexes of nodes and requests stay below committed proposals.
\<close>

text \<open>
  A log that is cut by a request of term \<open>t\<close> that ends at \<open>p\<close>: what is below a proposal \<open>q\<close> that the base
  of \<open>t\<close> has is not cut off.
\<close>

lemma not_cut_off:
  assumes "history_tree H S el" and "of_term H S t p" and "proposed H q" and "snd q \<le> t"
    and "snd q < t \<Longrightarrow> below H q (S t)" and "below H a q" and "below H a r" and "\<not> below H p r"
  shows "below H a p"
proof (cases "snd q < t")
  case True
  then show ?thesis using below_trans assms(5,6) of_term_base [OF assms(1,2)] by blast
next
  case False
  then have t: "snd q = t" using assms(4) by simp
  show ?thesis
  proof (cases "fst q \<le> fst p")
    case True
    have "below H q p" by (rule of_term_above [OF assms(1) _ assms(3) True]) (use assms(2) t in simp)
    then show ?thesis by (rule below_trans [OF _ assms(6)])
  next
    case False
    have "of_term H S t q" using assms(3) t by (simp add: of_term_def)
    then have p: "below H p q" using of_term_linear [OF assms(1,2)] False by simp
    show ?thesis
    proof (cases "fst a \<le> fst p")
      case True
      then show ?thesis using below_comparable [OF history_treeD(1) [OF assms(1)] p assms(6)] by simp
    next
      case False
      then have "below H p a" using below_comparable [OF history_treeD(1) [OF assms(1)] assms(6) p] by simp
      then show ?thesis using below_trans [OF assms(7)] assms(8) by blast
    qed
  qed
qed

lemma holds_term: "history_tree H S el \<Longrightarrow> holds H net el v q \<Longrightarrow> proposed H q \<and> led el (snd q)"
  using proposed_led [of H S el "fst q" "snd q"] by (auto simp: holds_def)

lemma step_kept_path:
  assumes "clean_in rng ids H S N net el i ev n n' outs" and "holds H net el i q" and "below H q (tip n)"
  shows "below (propose_history ev n H) q (tip n') \<or> passed H S el q (current_term n' + 1)"
proof -
  let ?H = "propose_history ev n H"
  note c = clean_inD [OF assms(1)]
  note inv = commit_invD [OF c(1)]
  have m: "below ?H q (tip n)" by (rule below_mono [OF assms(3) propose_history_mono])
  show ?thesis
    using c(5)
  proof cases
    case (following s req)
    let ?p = "request_end req" and ?t = "ae_term req"
    note r = request_okD [OF c(1) event_packet [OF c(7) [unfolded following(1)]]]
    have q: "proposed H q" using holds_term [OF inv(3) assms(2)] by blast
    have t: "snd q \<le> ?t"
      using below_term [OF assms(3) tree_increasing [OF inv(3)]] tips_okD(2) [OF c(1,6)] following(2) by simp
    show ?thesis
    proof (cases "below H ?p (tip n) \<or> snd q < ?t \<and> \<not> below H q (S ?t)")
      case True
      then show ?thesis
        using m following(3,6) r(2) by (auto simp: passed_def)
    next
      case False
      have b: "below H q ?p"
        by (rule not_cut_off [OF inv(3) r(1) q t _ below_self assms(3)]) (use False in blast)+
      have "tip n' = ?p" using following(6) False by simp
      then show ?thesis using below_mono [OF b propose_history_mono] by simp
    qed
  next
    case (appending v)
    then have "(Suc (log_end n), current_term n, v, last_term n) \<in> ?H" by (simp add: propose_history_def)
    then have "below ?H q (Suc (log_end n), current_term n)" by (rule up [OF m [unfolded tip_def]])
    then show ?thesis using appending(5) by simp
  qed (use m in simp_all)
qed

lemma step_retained:
  assumes "clean_in rng ids H S N net el i ev n n' outs"
  shows "retained (propose_history ev n H) (next_bases el n' S) (N(i \<mapsto> n'))
    (net \<union> packets_from i outs) (el \<union> elected_now i n')"
  unfolding retained_def
proof (intro allI impI)
  fix v k q
  let ?H = "propose_history ev n H" and ?S = "next_bases el n' S" and ?el = "el \<union> elected_now i n'"
  assume k: "(N(i \<mapsto> n')) v = Some k" and h: "holds ?H (net \<union> packets_from i outs) ?el v q"
  note c = clean_inD [OF assms]
  note x = step_extends [OF assms]
  have old: "below H q (tip a) \<or> passed H S el q (current_term a + 1)" if "N v = Some a" "holds H net el v q" for a
    using commit_invD(8) [OF c(1)] that unfolding retained_def by blast
  show "below ?H q (tip k) \<or> passed ?H ?S ?el q (current_term k + 1)"
  proof (cases "v = i \<and> \<not> holds H net el v q")
    case True
    then have "v = i" "\<not> holds H net el v q" by blast+
    then show ?thesis using step_holds [OF assms h] k by simp
  next
    case False
    then have hv: "holds H net el v q" using step_holds [OF assms h] by blast
    show ?thesis
    proof (cases "v = i")
      case True
      from old [OF _ hv, of n] True c(6) show ?thesis
        using step_kept_path [OF assms, of q] hv passed_extends [OF x, of q "current_term n + 1" "current_term n' + 1"]
          passed_extends [OF x _ order_refl, of q "current_term n' + 1"] c(8) k by auto
    next
      case False
      then show ?thesis
        using old [OF _ hv, of k] k below_mono [OF _ extendsD(1) [OF x]] passed_extends [OF x _ order_refl] by simp blast
    qed
  qed
qed

subsection \<open>Votes and elections\<close>

text \<open>What a voter holds, before the term that it votes in, when nobody has led that term.\<close>

lemma held_kept:
  assumes "commit_inv ids H S N net el" and "N v = Some n" and "holds H net el v q"
    and "up_to_date s (tip n)" and "current_term n \<le> t" and "\<not> led el t"
  shows "kept H S el q s t"
proof -
  have "below H q (tip n) \<or> passed H S el q (current_term n + 1)"
    using commit_invD(8) [OF assms(1)] assms(2,3) unfolding retained_def by blast
  then show ?thesis
  proof
    assume "below H q (tip n)"
    then show ?thesis using step_pt [OF assms(1,2)] assms(4) unfolding kept_def by blast
  next
    assume "passed H S el q (current_term n + 1)"
    then obtain x where x: "led el x" "snd q < x" "x < current_term n + 1" "\<not> below H q (S x)"
      unfolding passed_def by blast
    then have "x < t" using assms(5,6) by (cases "x = t") auto
    then show ?thesis using x unfolding kept_def passed_def by blast
  qed
qed

text \<open>What a node holds of older terms than its own it held before the event.\<close>

lemma holds_before:
  assumes "clean_in rng ids H S N net el i ev n n' outs"
    and "holds (propose_history ev n H) (net \<union> packets_from i outs) (el \<union> elected_now i n') v q"
    and "snd q < t" and "\<And>k. (N(i \<mapsto> n')) v = Some k \<Longrightarrow> t \<le> current_term k"
  shows "holds H net el v q"
  using step_holds [OF assms(1,2)]
proof
  assume "v = i \<and> snd q = current_term n' \<and> below (propose_history ev n H) q (tip n')"
  then show ?thesis using assms(3) assms(4) [of n'] by simp
qed

lemma step_grants:
  assumes "clean_in rng ids H S N net el i ev n n' outs"
  shows "grants_ok (propose_history ev n H) (next_bases el n' S) (net \<union> packets_from i outs) (el \<union> elected_now i n')"
  unfolding grants_ok_def granted_Un
proof (intro allI impI)
  fix v c t
  let ?H = "propose_history ev n H" and ?S = "next_bases el n' S" and ?el = "el \<union> elected_now i n'"
  let ?net = "net \<union> packets_from i outs"
  note c = clean_inD [OF assms]
  note inv = commit_invD [OF c(1)]
  note x = step_extends [OF assms]
  assume g: "granted net v c t \<or> granted (packets_from i outs) v c t"
  have g': "granted ?net v c t" using g granted_Un by blast
  have "grants_current (N(i \<mapsto> n')) ?net" by (rule step_grants_current [OF inv(1) c(4)])
  then have old: "holds H net el v q" if "holds ?H ?net ?el v q" "snd q < t" for q
    using holds_before [OF assms that] grants_currentD [OF _ g'] by blast
  have "\<exists>req. (c, v, RequestVote req) \<in> net \<and> rv_term req = t \<and>
      (led el t \<or> (\<forall>q. holds H net el v q \<longrightarrow> snd q < t \<longrightarrow> kept H S el q (candidate_tip req) t))"
    using g
  proof
    assume "granted net v c t"
    then show ?thesis using inv(9) unfolding grants_ok_def by blast
  next
    assume n: "granted (packets_from i outs) v c t"
    note f = grant_facts [OF inv(1) c(4) n]
    obtain r where r: "(c, RequestVoteResponse r) \<in> set outs" "rvr_vote_granted r" "rvr_term r = t"
      using n unfolding granted_def by (auto simp: packets_from_def)
    obtain k where k: "react rng ev n = Some (k, outs)" using replicated_stepD [OF c(2)] .
    obtain req where q: "ev = Received c (RequestVote req)" "up_to_date (candidate_tip req) (tip n)"
        "current_term n \<le> rv_term req"
      using react_grant [OF k r(1,2)] .
    have t: "rv_term req = t" using local_stepD(7) [OF c(4) r(1)] r(2,3) q(1) by (auto simp: sends_ok_def)
    have p: "(c, v, RequestVote req) \<in> net" using event_packet c(7) q(1) f(1) by blast
    have v: "N v = Some n" using c(6) f(1) by simp
    have "kept H S el q' (candidate_tip req) t" if "\<not> led el t" "holds H net el v q'" for q'
      by (rule held_kept [OF c(1) v that(2) q(2) q(3) [unfolded t] that(1)])
    then show ?thesis using p t by blast
  qed
  then obtain req where req: "(c, v, RequestVote req) \<in> net" "rv_term req = t"
      "led el t \<or> (\<forall>q. holds H net el v q \<longrightarrow> snd q < t \<longrightarrow> kept H S el q (candidate_tip req) t)" by blast
  have "led ?el t \<or> (\<forall>q. holds ?H ?net ?el v q \<longrightarrow> snd q < t \<longrightarrow> kept ?H ?S ?el q (candidate_tip req) t)"
    using req(3) extendsD(4) [OF x] old kept_extends [OF x] by blast
  then show "\<exists>req. (c, v, RequestVote req) \<in> ?net \<and> rv_term req = t \<and>
      (led ?el t \<or> (\<forall>q. holds ?H ?net ?el v q \<longrightarrow> snd q < t \<longrightarrow> kept ?H ?S ?el q (candidate_tip req) t))"
    using req(1,2) by blast
qed

text \<open>The quorum of a new leader: its log has what they held.\<close>

lemma step_won:
  assumes "clean_in rng ids H S N net el i ev n n' outs" and "role n' = Leader" and "\<not> led el (current_term n')"
    and "v \<in> votes_received n'" and "holds H net el v q" and "snd q < current_term n'"
  shows "kept H S el q (tip n') (current_term n')"
proof -
  note c = clean_inD [OF assms(1)]
  note inv = commit_invD [OF c(1)]
  note m = moved_unled [OF assms(1-3)]
  show ?thesis
  proof (cases "v = i")
    case True
    have "up_to_date (tip n') (tip n)" using m(3) by (simp add: up_to_date_def)
    then show ?thesis using held_kept [OF c(1,6) assms(5) [unfolded True] _ _ assms(3)] m(2) by simp
  next
    case False
    have "(current_term n', i) \<notin> el" using assms(3) unfolding led_def by blast
    from step_elected_new(4) [OF inv(1) c(4) assms(2) this, of v]
    have "granted net v i (current_term n') \<or> granted (packets_from i outs) v i (current_term n')"
      using assms(4) False granted_Un by blast
    then have "granted net v i (current_term n')" using grant_facts(1) [OF inv(1) c(4)] False by blast
    then obtain req where req: "(i, v, RequestVote req) \<in> net" "rv_term req = current_term n'"
        "\<forall>q. holds H net el v q \<longrightarrow> snd q < current_term n' \<longrightarrow> kept H S el q (candidate_tip req) (current_term n')"
      using inv(9) assms(3) unfolding grants_ok_def by blast
    have "candidate_tip req = tip n"
      using inv(6) req(1,2) c(6) m(1,2) unfolding campaigns_ok_def by metis
    then show ?thesis using req(3) assms(5,6) m(3) by metis
  qed
qed

lemma step_elected_by:
  assumes "clean_in rng ids H S N net el i ev n n' outs"
  shows "elected_by ids (propose_history ev n H) (next_bases el n' S) (N(i \<mapsto> n'))
    (net \<union> packets_from i outs) (el \<union> elected_now i n')"
  unfolding elected_by_def
proof (intro allI impI)
  fix t j
  let ?H = "propose_history ev n H" and ?S = "next_bases el n' S" and ?el = "el \<union> elected_now i n'"
  let ?net = "net \<union> packets_from i outs" and ?N = "N(i \<mapsto> n')"
  note c = clean_inD [OF assms]
  note inv = commit_invD [OF c(1)]
  note x = step_extends [OF assms]
  assume j: "(t, j) \<in> ?el"
  have "\<exists>Q. quorum ids Q \<and> (\<forall>v \<in> Q. (\<forall>k. ?N v = Some k \<longrightarrow> t \<le> current_term k) \<and>
      (\<forall>q. holds H net el v q \<longrightarrow> snd q < t \<longrightarrow> kept ?H ?S ?el q (?S t) t))"
  proof (cases "led el t")
    case True
    then obtain Q where Q: "quorum ids Q" "\<And>v k. v \<in> Q \<Longrightarrow> N v = Some k \<Longrightarrow> t \<le> current_term k"
        "\<And>v q. v \<in> Q \<Longrightarrow> holds H net el v q \<Longrightarrow> snd q < t \<Longrightarrow> kept H S el q (S t) t"
      using inv(10) unfolding elected_by_def led_def by blast
    have "t \<le> current_term k" if "v \<in> Q" "?N v = Some k" for v k
      using Q(2) [OF that(1)] that(2) c(6,8) by (cases "v = i") (auto intro: order_trans)
    then show ?thesis using Q(1,3) kept_extends [OF x] extendsD(3) [OF x True] by metis
  next
    case False
    then have n: "role n' = Leader" "t = current_term n'" "j = i"
      using j by (auto simp: led_def elected_now_def split: if_splits)
    then have l: "\<not> led el (current_term n')" using False by simp
    then have new: "(current_term n', i) \<notin> el" unfolding led_def by blast
    note e = step_elected_new [OF inv(1) c(4) n(1) new]
    have g: "grants_current ?N ?net" by (rule step_grants_current [OF inv(1) c(4)])
    have "t \<le> current_term k" if "v \<in> votes_received n'" "?N v = Some k" for v k
    proof (cases "v = i")
      case False
      then have "granted ?net v i t" using e(4) that(1) n(2) by blast
      then show ?thesis using grants_currentD [OF g _ that(2)] by blast
    qed (use that n(2) in simp)
    moreover have "?S t = tip n'" using n l by (simp add: next_bases_def)
    ultimately show ?thesis using e(3) step_won [OF assms n(1) l] kept_extends [OF x] n(2) by metis
  qed
  then obtain Q where Q: "quorum ids Q" "\<And>v k. v \<in> Q \<Longrightarrow> ?N v = Some k \<Longrightarrow> t \<le> current_term k"
      "\<And>v q. v \<in> Q \<Longrightarrow> holds H net el v q \<Longrightarrow> snd q < t \<Longrightarrow> kept ?H ?S ?el q (?S t) t" by blast
  have "kept ?H ?S ?el q (?S t) t" if "v \<in> Q" "holds ?H ?net ?el v q" "snd q < t" for v q
    using Q(3) [OF that(1) holds_before [OF assms that(2,3) Q(2) [OF that(1)]] that(3)] .
  then show "\<exists>Q. quorum ids Q \<and> (\<forall>v \<in> Q. (\<forall>k. ?N v = Some k \<longrightarrow> t \<le> current_term k) \<and>
      (\<forall>q. holds ?H ?net ?el v q \<longrightarrow> snd q < t \<longrightarrow> kept ?H ?S ?el q (?S t) t))"
    using Q(1,2) by blast
qed

subsection \<open>Commit indexes\<close>

lemma commit_at_mono:
  assumes "commit_at ids H net el k t p" and "H \<subseteq> H'" and "el \<subseteq> el'" and "t \<le> t'" and "below H' p p'"
  shows "commit_at ids H' (net \<union> new) el' k t' p'"
proof (cases "k = 0")
  case False
  then obtain r q where r: "fst r = k" "below H r p" "below H r q" "committed ids H net el q" "snd q \<le> t"
    using assms(1) unfolding commit_at_def by blast
  have "below H' r p'" by (rule below_trans [OF assms(5) below_mono [OF r(2) assms(2)]])
  moreover have "below H' r q" by (rule below_mono [OF r(3) assms(2)])
  moreover have "committed ids H' (net \<union> new) el' q" by (rule committed_mono [OF r(4) assms(2,3)])
  moreover have "snd q \<le> t'" using r(5) assms(4) by simp
  ultimately show ?thesis using r(1) unfolding commit_at_def by blast
qed (simp add: commit_at_def)

lemma commit_at_self: "committed ids H net el q \<Longrightarrow> below H q p \<Longrightarrow> snd q \<le> t \<Longrightarrow> commit_at ids H net el (fst q) t p"
  unfolding commit_at_def by blast

lemma commit_at_fst: "commit_at ids H net el k t p \<Longrightarrow> k \<le> fst p"
  using below_fst unfolding commit_at_def by fastforce

lemma commits_okD:
  assumes "commit_inv ids H S N net el"
  shows "N i = Some n \<Longrightarrow> commit_at ids H net el (commit_index n) (current_term n) (tip n)"
    and "(s, to, AppendEntries req) \<in> net \<Longrightarrow>
      commit_at ids H net el (ae_leader_commit req) (ae_term req) (request_end req)"
  using commit_invD(12) [OF assms] unfolding commits_ok_def by blast+

text \<open>A committed proposal is in the base of every later term.\<close>

lemma committed_base:
  assumes "commit_inv ids H S N net el" and "finite ids" and "committed ids H net el q" and "led el t" and "snd q < t"
  shows "below H q (S t)"
proof -
  obtain j where j: "(t, j) \<in> el" using assms(4) unfolding led_def by blast
  note inv = commit_invD [OF assms(1)]
  show ?thesis by (rule leader_complete [OF inv(3,10) assms(2,3) j assms(5)])
qed

text \<open>A follower: what it knows as committed is not cut off, and what the leader tells it is in its log.\<close>

lemma follower_commit:
  assumes "clean_in rng ids H S N net el i ev n n' outs"
    and "ev = Received s (AppendEntries req)" and "current_term n \<le> ae_term req"
    and "tip n' = (if below H (request_end req) (tip n) then tip n else request_end req)"
  shows "commit_at ids H net el (commit_index n) (ae_term req) (tip n')"
    and "commit_at ids H net el (ae_leader_commit req) (ae_term req) (tip n')"
proof -
  let ?p = "request_end req" and ?t = "ae_term req"
  note c = clean_inD [OF assms(1)]
  note inv = commit_invD [OF c(1)]
  have net: "(s, i, AppendEntries req) \<in> net" using event_packet c(7) assms(2) by blast
  note r = request_okD [OF c(1) net]
  have p: "below H ?p (tip n')" using assms(4) by simp
  have id: "net \<union> {} = net" by simp
  show "commit_at ids H net el (ae_leader_commit req) ?t (tip n')"
    using commit_at_mono [OF commits_okD(2) [OF c(1) net] order_refl order_refl order_refl p, of "{}"] by simp
  show "commit_at ids H net el (commit_index n) ?t (tip n')"
  proof (cases "commit_index n = 0 \<or> below H ?p (tip n)")
    case True
    then show ?thesis
    proof
      assume b: "below H ?p (tip n)"
      then have "below H (tip n) (tip n')" using assms(4) by simp
      from commit_at_mono [OF commits_okD(1) [OF c(1,6)] order_refl order_refl assms(3) this, of "{}"]
      show ?thesis by simp
    qed (simp add: commit_at_def)
  next
    case False
    then obtain a q where a: "fst a = commit_index n" "below H a (tip n)" "below H a q" "committed ids H net el q"
        "snd q \<le> current_term n"
      using commits_okD(1) [OF c(1,6)] unfolding commit_at_def by blast
    have q: "proposed H q" using a(4) unfolding committed_def by blast
    have t: "snd q \<le> ?t" using a(5) assms(3) by simp
    have "below H a ?p"
      by (rule not_cut_off [OF inv(3) r(1) q t committed_base [OF c(1,11) a(4) r(2)] a(3,2)]) (use False in blast)+
    then have "below H a (tip n')" using p below_trans by blast
    then show ?thesis using a t unfolding commit_at_def by blast
  qed
qed

text \<open>An index with a majority of match indexes, in the term of the leader, is committed.\<close>

lemma candidate_committed:
  assumes "commit_inv ids H S N net el" and "N i = Some n" and "role n = Leader" and "commit_candidate k x"
    and "k = n\<lparr>leader_match_index := ms\<rparr>" and "hm_ok ms"
    and "\<And>v y. hm_get ms v = Some y \<Longrightarrow> v \<in> ids \<and> (v = i \<or> y \<le> commit_index n \<or> acked net v (current_term n) y)"
  shows "committed ids H net el (x, current_term n)" and "below H (x, current_term n) (tip n)"
    and "commit_index n < x"
proof -
  note inv = commit_invD [OF assms(1)]
  have ok: "nodes_ok ids N" using inv(1) unfolding election_inv_def by blast
  note ni = nodes_okD [OF ok assms(2)]
  have fin: "finite ids" using ok unfolding nodes_ok_def by blast
  have "term_at k = term_at n" by (rule term_at_cong) (simp_all add: assms(5))
  then have x: "commit_index n < x" "term_at n x = Some (current_term n)" "majority n \<le> replicated_count k x"
    using assms(4) by (simp_all add: commit_candidate_def assms(5) majority_def)
  show "commit_index n < x" by (rule x(1))
  show b: "below H (x, current_term n) (tip n)"
    by (rule term_at_below [OF history_invD(5) [OF inv(2) assms(2)] x(2)])
  have led: "(current_term n, i) \<in> el" by (rule elected_of_leader [OF inv(1) assms(2,3)])
  then have "led el (current_term n)" unfolding led_def by blast
  then have "0 < current_term n" using history_treeD(5) [OF inv(3)] by fastforce
  then have p: "proposed H (x, current_term n)"
    using pt_proposed pt_below [OF b history_treeD(2) [OF inv(3)] step_pt [OF assms(1,2)]] by simp
  define Q where "Q = {v. \<exists>y. hm_get ms v = Some y \<and> x \<le> y}"
  have "replicated_count k x = card Q"
    using count_values_eq_card [OF assms(6)] by (simp add: replicated_count_def assms(5) Q_def)
  moreover have "Q \<subseteq> ids" using assms(7) unfolding Q_def by blast
  ultimately have "quorum ids Q" using majority_quorum [of n ids i Q] ni fin x(3) by simp
  moreover have "holds H net el v (x, current_term n)" if v: "v \<in> Q" for v
  proof -
    obtain y where y: "hm_get ms v = Some y" "x \<le> y" using v unfolding Q_def by blast
    then show ?thesis using assms(7) [OF y(1)] x(1) p led unfolding holds_def by fastforce
  qed
  ultimately show "committed ids H net el (x, current_term n)" using p unfolding committed_def by blast
qed

lemma counting_match:
  assumes "clean_in rng ids H S N net el i ev n n' outs" and "role n = Leader"
    and "ev = Received s (AppendEntriesResponse resp)" and "aer_success resp" and "aer_term resp = current_term n"
    and "hm_get (hm_insert (aer_from resp) (aer_match_index resp) (leader_match_index n)) v = Some y"
  shows "v \<in> ids \<and> (v = i \<or> y \<le> commit_index n \<or> acked net v (current_term n) y)"
proof (cases "v = aer_from resp")
  case False
  note c = clean_inD [OF assms(1)]
  show ?thesis using commit_invD(11) [OF c(1)] c(6) assms(2,6) False unfolding matches_ok_def by simp
next
  case True
  note c = clean_inD [OF assms(1)]
  have net: "(s, i, AppendEntriesResponse resp) \<in> net" using event_packet c(7) assms(3) by blast
  then have "packet_ok ids el (s, i, AppendEntriesResponse resp)"
    using commit_invD(1) [OF c(1)] unfolding election_inv_def by blast
  then have "s = v" "s \<in> ids" using True by (simp_all add: packet_ok_def)
  moreover have "acked net s (current_term n) y" using net assms(4-6) True unfolding acked_def by auto
  ultimately show ?thesis by blast
qed

lemma role_matches: "node_inv n \<Longrightarrow> hm_ok (leader_match_index n)"
  by (simp add: node_inv_def role_ok_def)

lemma counted_committed:
  assumes "clean_in rng ids H S N net el i ev n n' outs" and "role n = Leader"
    and "ev = Received s (AppendEntriesResponse resp)" and "aer_success resp" and "aer_term resp = current_term n"
    and "k = n\<lparr>leader_match_index := hm_insert (aer_from resp) (aer_match_index resp) (leader_match_index n)\<rparr>"
    and "commit_candidate k x"
  shows "committed ids H net el (x, current_term n)" and "below H (x, current_term n) (tip n)"
    and "commit_index n < x"
proof -
  note c = clean_inD [OF assms(1)]
  have "hm_ok (hm_insert (aer_from resp) (aer_match_index resp) (leader_match_index n))"
    using role_matches [OF c(12)] by simp
  from candidate_committed [OF c(1,6) assms(2,7,6) this counting_match [OF assms(1-5)]]
  show "committed ids H net el (x, current_term n)" "below H (x, current_term n) (tip n)" "commit_index n < x" by blast+
qed

text \<open>A leader without peers commits what it proposes.\<close>

lemma alone_committed:
  assumes "clean_in rng ids H S N net el i ev n n' outs" and "proposal ev n = Some v" and "role n = Leader"
    and "current_term n' = current_term n" and "tip n' = (Suc (log_end n), current_term n)" and "majority n = 1"
  shows "committed ids (propose_history ev n H) new (el \<union> elected_now i n') (tip n')"
proof -
  note c = clean_inD [OF assms(1)]
  note inv = commit_invD [OF c(1)]
  have "nodes_ok ids N" using inv(1) unfolding election_inv_def by blast
  note ni = nodes_okD [OF this c(6)]
  have q: "quorum ids {i}" using majority_quorum [of n ids i "{i}"] ni c(11) assms(6) by simp
  have p: "proposed (propose_history ev n H) (tip n')"
    unfolding assms(5) proposed_def propose_history_def assms(2) by auto
  have "(snd (tip n'), i) \<in> el" using elected_of_leader [OF inv(1) c(6) assms(3)] unfolding assms(5) by simp
  then have "holds (propose_history ev n H) new (el \<union> elected_now i n') i (tip n')" using p unfolding holds_def by blast
  then show ?thesis using q p unfolding committed_def by blast
qed

lemma step_commit_index:
  assumes "clean_in rng ids H S N net el i ev n n' outs"
  shows "commit_at ids (propose_history ev n H) (net \<union> packets_from i outs) (el \<union> elected_now i n')
    (commit_index n') (current_term n') (tip n')"
proof -
  let ?H = "propose_history ev n H" and ?el = "el \<union> elected_now i n'" and ?net = "net \<union> packets_from i outs"
  note c = clean_inD [OF assms]
  note x = extendsD [OF step_extends [OF assms]]
  have el: "el \<subseteq> ?el" by blast
  have self: "below ?H (tip n') (tip n')" by simp
  have keep: "commit_at ids ?H ?net ?el (commit_index n) (current_term n') p" if "below ?H (tip n) p" for p
    by (rule commit_at_mono [OF commits_okD(1) [OF c(1,6)] x(1) el c(8) that])
  show ?thesis
    using c(5)
  proof cases
    case (following s req)
    note f = follower_commit [OF assms following(1,2,6)]
    have "commit_at ids H net el (commit_index n') (current_term n') (tip n')"
      using following(7)
    proof
      assume "commit_index n < ae_leader_commit req \<and>
        commit_index n' = max (snapshot_last_included_index n) (min (ae_leader_commit req) (log_end n'))"
      moreover have "ae_leader_commit req \<le> log_end n'" using commit_at_fst [OF f(2)] by simp
      moreover have "snapshot_last_included_index n \<le> commit_index n" using node_inv_snapshot_le [OF c(12)] by simp
      ultimately have "commit_index n' = ae_leader_commit req" by simp
      then show ?thesis using f(2) following(3) by simp
    qed (use f(1) following(3) in simp)
    then show ?thesis by (rule commit_at_mono [OF _ x(1) el order_refl self])
  next
    case (counting s resp k)
    from counting(10) show ?thesis
    proof
      assume "commit_candidate k (commit_index n')"
      note a = counted_committed [OF assms counting(3,1,2,5,8) this]
      have "commit_at ids H net el (commit_index n') (current_term n') (tip n')"
        using commit_at_self [OF a(1,2)] counting(6,7) by simp
      then show ?thesis by (rule commit_at_mono [OF _ x(1) el order_refl self])
    qed (use keep [of "tip n'"] counting(7) in simp)
  next
    case (appending v)
    have "(Suc (log_end n), current_term n, v, last_term n) \<in> ?H" using appending(1) by (simp add: propose_history_def)
    then have up': "below ?H (tip n) (tip n')" unfolding appending(5) by (intro up) (auto simp: tip_def)
    from appending(7) show ?thesis
    proof
      assume "majority n = 1 \<and> commit_index n' = log_end n'"
      then have "commit_index n' = fst (tip n')" "committed ids ?H ?net ?el (tip n')"
        using alone_committed [OF assms appending(1,2,4,5)] by simp_all
      moreover have "snd (tip n') \<le> current_term n'" using appending(4,5) by simp
      ultimately show ?thesis using commit_at_self [OF _ self] by simp
    qed (use keep [OF up'] in simp)
  qed (use keep [of "tip n'"] in simp_all)
qed

lemma step_commits:
  assumes "clean_in rng ids H S N net el i ev n n' outs"
  shows "commits_ok ids (propose_history ev n H) (N(i \<mapsto> n')) (net \<union> packets_from i outs) (el \<union> elected_now i n')"
  unfolding commits_ok_def
proof (intro conjI allI impI)
  let ?H = "propose_history ev n H" and ?el = "el \<union> elected_now i n'" and ?net = "net \<union> packets_from i outs"
  note c = clean_inD [OF assms]
  note x = extendsD [OF step_extends [OF assms]]
  have el: "el \<subseteq> ?el" by blast
  show "commit_at ids ?H ?net ?el (commit_index k) (current_term k) (tip k)" if "(N(i \<mapsto> n')) j = Some k" for j k
  proof (cases "j = i")
    case True
    then show ?thesis using that step_commit_index [OF assms] by simp
  next
    case False
    then have "N j = Some k" using that by simp
    from commit_at_mono [OF commits_okD(1) [OF c(1) this] x(1) el order_refl below_self] show ?thesis .
  qed
  show "commit_at ids ?H ?net ?el (ae_leader_commit req) (ae_term req) (request_end req)"
    if p: "(s, to, AppendEntries req) \<in> ?net" for s to req
  proof (cases "(s, to, AppendEntries req) \<in> net")
    case True
    from commit_at_mono [OF commits_okD(2) [OF c(1) this] x(1) el order_refl below_self] show ?thesis .
  next
    case False
    then have "(s, to, AppendEntries req) \<in> packets_from i outs" using p by blast
    note r = sent_request [OF assms this]
    show ?thesis unfolding r(2-4) by (rule step_commit_index [OF assms])
  qed
qed

lemma step_matches:
  assumes "clean_in rng ids H S N net el i ev n n' outs"
  shows "matches_ok ids (N(i \<mapsto> n')) (net \<union> packets_from i outs)"
  unfolding matches_ok_def
proof (intro allI impI)
  fix j k v y
  assume k: "(N(i \<mapsto> n')) j = Some k" "role k = Leader" and y: "hm_get (leader_match_index k) v = Some y"
  note c = clean_inD [OF assms]
  have old: "v \<in> ids \<and> (v = j \<or> y \<le> commit_index a \<or> acked net v (current_term a) y)"
    if "N j = Some a" "role a = Leader" "hm_get (leader_match_index a) v = Some y" for a
    using commit_invD(11) [OF c(1)] that unfolding matches_ok_def by blast
  have "v \<in> ids \<and> (v = j \<or> y \<le> commit_index k \<or> acked net v (current_term k) y)"
  proof (cases "j = i")
    case False
    then show ?thesis using old k y by simp
  next
    case True
    then have kn: "k = n'" using k(1) by simp
    have "nodes_ok ids N" using commit_invD(1) [OF c(1)] unfolding election_inv_def by blast
    note ni = nodes_okD [OF this c(6)]
    from c(5) show ?thesis
    proof cases
      case stays
      then show ?thesis using old [of n] c(6) k(2) y True kn by auto
    next
      case winning
      then show ?thesis using y kn True ni by auto
    next
      case (counting s resp q)
      have "hm_get (hm_insert (aer_from resp) (aer_match_index resp) (leader_match_index n)) v = Some y"
        using y counting(8,9) kn by simp
      note m = counting_match [OF assms counting(3,1,2,5) this]
      have "commit_index n \<le> commit_index n'"
        using counting(10) counted_committed(3) [OF assms counting(3,1,2,5,8)] by fastforce
      then show ?thesis using m counting(6) True kn by auto
    next
      case (appending w)
      show ?thesis
      proof (cases "v = i")
        case False
        then have m: "hm_get (leader_match_index n) v = Some y" using y appending(6) ni kn by simp
        have "commit_index n \<le> log_end n" using commit_at_fst [OF commits_okD(1) [OF c(1,6)]] by simp
        moreover have "log_end n' = Suc (log_end n)" using appending(5) by (simp add: tip_def)
        ultimately have "commit_index n \<le> commit_index n'" using appending(7) by auto
        then show ?thesis using old [OF _ appending(2) m] c(6) appending(4) True kn by auto
      qed (use True ni in simp)
    qed (use k(2) kn in simp_all)
  qed
  then show "v \<in> ids \<and> (v = j \<or> y \<le> commit_index k \<or> acked (net \<union> packets_from i outs) v (current_term k) y)"
    using acked_mono by blast
qed

subsection \<open>The invariant is inductive\<close>

theorem commit_inv_step:
  assumes "clean_in rng ids H S N net el i ev n n' outs"
  shows "commit_inv ids (propose_history ev n H) (next_bases el n' S) (N(i \<mapsto> n'))
    (net \<union> packets_from i outs) (el \<union> elected_now i n')"
proof -
  note c = clean_inD [OF assms]
  note inv = commit_invD [OF c(1)]
  show ?thesis
    unfolding commit_inv_def
    using election_inv_step [OF inv(1) c(4)] history_inv_step [OF inv(1,2) replicated_logged [OF c(2)]]
      step_tree [OF assms] step_tips [OF assms] step_requests [OF assms] step_campaigns [OF assms] step_acks [OF assms]
      step_retained [OF assms] step_grants [OF assms] step_elected_by [OF assms] step_matches [OF assms]
      step_commits [OF assms] by blast
qed

end
