(* ===== verification/Commit_Cluster.thy ===== *)
theory Commit_Cluster
  imports Commit_Kept Recovery
begin

text \<open>
  What the invariant of committed entries gives, and its place in the cluster of \<open>Cluster\<close>: it holds from
  the start as long as the run is clean, across restarts as well. \<open>clean_run\<close> is executable, so that it
  can be checked of a concrete run.
\<close>

subsection \<open>Agreement and completeness\<close>

text \<open>Any two committed proposals are on one path.\<close>

lemma committed_linear:
  assumes "commit_inv ids H S N net el" and "finite ids" and "committed ids H net el p" and "committed ids H net el q"
    and "snd p \<le> snd q"
  shows "below H p q \<or> below H q p"
proof -
  note t = commit_invD(3) [OF assms(1)]
  have pq: "proposed H p" "proposed H q" using assms(3,4) unfolding committed_def by blast+
  have led: "led el (snd q)" using proposed_led [OF t, of "fst q" "snd q"] pq(2) by simp
  show ?thesis
  proof (cases "snd p < snd q")
    case True
    have "below H p (S (snd q))" by (rule committed_base [OF assms(1-3) led True])
    moreover have "below H (S (snd q)) q" using base_below [OF t, of "fst q" "snd q"] pq(2) by simp
    ultimately show ?thesis using below_trans by blast
  next
    case False
    then have s: "snd p = snd q" using assms(5) by simp
    have o: "of_term H S (snd q) p" "of_term H S (snd q) q" using pq s by (simp_all add: of_term_def)
    then show ?thesis using of_term_linear [OF t o] of_term_linear [OF t o(2,1)] by (meson le_cases)
  qed
qed

lemma commit_atE:
  assumes "commit_at ids H net el k t p" and "0 < k"
  obtains a q where "fst a = k" and "below H a p" and "below H a q" and "committed ids H net el q" and "snd q \<le> t"
proof -
  have "\<exists>a q. fst a = k \<and> below H a p \<and> below H a q \<and> committed ids H net el q \<and> snd q \<le> t"
    using assms unfolding commit_at_def by simp
  then show thesis by (elim exE conjE) (rule that)
qed

text \<open>Indexes up to which two nodes know their logs to be committed lie on one path.\<close>

lemma commit_path:
  assumes "commit_inv ids H S N net el" and "finite ids" and "commit_at ids H net el k t p"
    and "commit_at ids H net el l u q" and "0 < k" and "0 < l"
  obtains a b c where "fst a = k" and "below H a p" and "fst b = l" and "below H b q" and "below H a c" and "below H b c"
proof -
  obtain a x where a: "fst a = k" "below H a p" "below H a x" "committed ids H net el x" "snd x \<le> t"
    using commit_atE [OF assms(3,5)] .
  obtain b y where b: "fst b = l" "below H b q" "below H b y" "committed ids H net el y" "snd y \<le> u"
    using commit_atE [OF assms(4,6)] .
  have "below H x y \<or> below H y x"
    using committed_linear [OF assms(1,2) a(4) b(4)] committed_linear [OF assms(1,2) b(4) a(4)] by (meson le_cases)
  then show thesis using that [OF a(1,2) b(1,2)] a(3) b(3) below_trans by blast
qed

text \<open>An entry at or below a point of the log's path lies on the path to that point.\<close>

lemma entry_below_point:
  assumes "functional H" and "log_based H n" and "entry_at n k = Some e" and "below H a (tip n)" and "k \<le> fst a"
  shows "below H (k, le_term e) a"
  using below_comparable [OF assms(1,4) entry_below(1) [OF assms(2,3)]] assms(5) by simp

lemma commits_agree:
  assumes "commit_inv ids H S N net el" and "N i = Some n" and "N j = Some m" and "k \<le> commit_index n"
    and "k \<le> commit_index m" and "entry_at n k = Some e" and "entry_at m k = Some f"
  shows "e = f"
proof -
  note inv = commit_invD [OF assms(1)]
  have fin: "finite ids" using inv(1) unfolding election_inv_def nodes_ok_def by blast
  note func = history_treeD(1) [OF inv(3)]
  have b: "log_based H n" "log_based H m" using history_invD(5) [OF inv(2)] assms(2,3) by blast+
  have k: "0 < k" using assms(6) by (simp add: entry_at_Some_iff)
  obtain a b' c where p: "fst a = commit_index n" "below H a (tip n)" "fst b' = commit_index m" "below H b' (tip m)"
      "below H a c" "below H b' c"
    by (rule commit_path [OF assms(1) fin commits_okD(1) [OF assms(1,2)] commits_okD(1) [OF assms(1,3)]])
      (use k assms(4,5) in auto)
  have e: "below H (k, le_term e) c"
    by (rule below_trans [OF p(5) entry_below_point [OF func b(1) assms(6) p(2)]]) (use p(1) assms(4) in simp)
  have f: "below H (k, le_term f) c"
    by (rule below_trans [OF p(6) entry_below_point [OF func b(2) assms(7) p(4)]]) (use p(3) assms(5) in simp)
  have "below H (k, le_term e) (k, le_term f)" by (rule below_comparable [OF func f e]) simp
  from below_index [OF this] have "le_term e = le_term f" by simp
  then show ?thesis by (rule entry_of_point [OF func b assms(6,7)])
qed

text \<open>A leader has what a node of its term or an older one knows as committed.\<close>

lemma leader_has_committed:
  assumes "commit_inv ids H S N net el" and "N i = Some n" and "N j = Some l" and "role l = Leader"
    and "current_term n \<le> current_term l" and "k \<le> commit_index n" and "entry_at n k = Some e"
    and "snapshot_last_included_index l < k"
  shows "entry_at l k = Some e"
proof -
  note inv = commit_invD [OF assms(1)]
  have fin: "finite ids" using inv(1) unfolding election_inv_def nodes_ok_def by blast
  note t = inv(3)
  note l = tips_okD [OF assms(1,3)]
  have b: "log_based H n" "log_based H l" using history_invD(5) [OF inv(2)] assms(2,3) by blast+
  have k: "0 < commit_index n" using assms(6,7) by (auto simp: entry_at_Some_iff)
  obtain a q where a: "fst a = commit_index n" "below H a (tip n)" "below H a q" "committed ids H net el q"
      "snd q \<le> current_term n"
    using commit_atE [OF commits_okD(1) [OF assms(1,2)] k] .
  have pq: "proposed H q" using a(4) unfolding committed_def by blast
  have q: "below H q (tip l)"
  proof (cases "snd q < current_term l")
    case True
    have "below H q (S (current_term l))" by (rule committed_base [OF assms(1) fin a(4) l(5) [OF assms(4)] True])
    then show ?thesis using below_trans of_term_base [OF t l(4) [OF assms(4)]] by blast
  next
    case False
    then have s: "snd q = current_term l" using a(5) assms(5) by simp
    obtain c u where "(fst q, current_term l, c, u) \<in> H" using pq s unfolding proposed_def by auto
    then have "fst q \<le> log_end l" by (rule leaders_aheadD [OF history_invD(3) [OF inv(2)] assms(3,4)])
    then show ?thesis using of_term_above [OF t _ pq] l(4) [OF assms(4)] s by simp
  qed
  have p: "below H (k, le_term e) a"
    by (rule entry_below_point [OF history_treeD(1) [OF t] b(1) assms(7) a(2)]) (use a(1) assms(6) in simp)
  have e: "below H (k, le_term e) (tip l)"
    by (rule below_trans [OF q below_trans [OF a(3) p]])
  have "k \<le> log_end l" using below_fst [OF e] by simp
  then obtain f where f: "entry_at l k = Some f" using assms(8) by (auto simp: entry_at_def)
  have "below H (k, le_term e) (k, le_term f)"
    by (rule below_comparable [OF history_treeD(1) [OF t] entry_below(1) [OF b(2) f] e]) simp
  from below_index [OF this] have "le_term e = le_term f" by simp
  then show ?thesis using entry_of_point [OF history_treeD(1) [OF t] b assms(7) f] f by simp
qed

subsection \<open>A restart\<close>

text \<open>Nodes that are as they were, up to being followers now.\<close>

definition still :: "nodes \<Rightarrow> nodes \<Rightarrow> bool" where
  "still N N' \<longleftrightarrow> (\<forall>j k. N' j = Some k \<longrightarrow> (\<exists>b. N j = Some b \<and> tip b = tip k \<and> current_term b = current_term k \<and>
     commit_index b = commit_index k \<and> snapshot_point b = snapshot_point k \<and> (role k = Follower \<or> b = k)))"

lemma stillE:
  assumes "still N N'" and "N' j = Some k"
  obtains b where "N j = Some b" and "tip b = tip k" and "current_term b = current_term k"
    and "commit_index b = commit_index k" and "snapshot_point b = snapshot_point k" and "role k = Follower \<or> b = k"
  using assms unfolding still_def by blast

lemma still_term: "still N N' \<Longrightarrow> (\<And>b. N j = Some b \<Longrightarrow> t \<le> current_term b) \<Longrightarrow> N' j = Some k \<Longrightarrow> t \<le> current_term k"
  by (erule (1) stillE) simp

lemma still_tips:
  assumes "tips_ok H S N" and "still N N'"
  shows "tips_ok H S N'"
  unfolding tips_ok_def
proof (intro allI impI)
  fix j k
  assume "N' j = Some k"
  then obtain b where b: "N j = Some b" "tip b = tip k" "current_term b = current_term k"
      "commit_index b = commit_index k" "snapshot_point b = snapshot_point k" "role k = Follower \<or> b = k"
    by (rule stillE [OF assms(2)])
  have "last_term b = last_term k" using arg_cong [OF b(2), of snd] by simp
  moreover have "pt H (snapshot_point b) \<and> last_term b \<le> current_term b \<and>
      (role b = Candidate \<longrightarrow> last_term b < current_term b) \<and> (role b = Leader \<longrightarrow> of_term H S (current_term b) (tip b))"
    using assms(1) b(1) unfolding tips_ok_def by blast
  ultimately show "pt H (snapshot_point k) \<and> last_term k \<le> current_term k \<and>
      (role k = Candidate \<longrightarrow> last_term k < current_term k) \<and> (role k = Leader \<longrightarrow> of_term H S (current_term k) (tip k))"
    using b(3,5,6) by auto
qed

lemma still_campaigns:
  assumes "campaigns_ok N net" and "still N N'"
  shows "campaigns_ok N' net"
  unfolding campaigns_ok_def
proof (intro allI impI)
  fix s to req k
  assume p: "(s, to, RequestVote req) \<in> net" and "N' s = Some k"
  from this(2) obtain b where b: "N s = Some b" "tip b = tip k" "current_term b = current_term k"
      "commit_index b = commit_index k" "snapshot_point b = snapshot_point k" "role k = Follower \<or> b = k"
    by (rule stillE [OF assms(2)])
  have "rv_term req \<le> current_term b \<and> (rv_term req = current_term b \<longrightarrow> role b = Candidate \<longrightarrow> candidate_tip req = tip b)"
    using assms(1) p b(1) unfolding campaigns_ok_def by blast
  then show "rv_term req \<le> current_term k \<and>
      (rv_term req = current_term k \<longrightarrow> role k = Candidate \<longrightarrow> candidate_tip req = tip k)"
    using b(3,6) by auto
qed

lemma still_retained:
  assumes "retained H S N net el" and "still N N'"
  shows "retained H S N' net el"
  unfolding retained_def
proof (intro allI impI)
  fix v k q
  assume "N' v = Some k" and h: "holds H net el v q"
  then obtain b where b: "N v = Some b" "tip b = tip k" "current_term b = current_term k"
    using stillE [OF assms(2)] by metis
  show "below H q (tip k) \<or> passed H S el q (current_term k + 1)"
    using assms(1) b(1) h unfolding retained_def b(2,3) [symmetric] by blast
qed

lemma still_commits:
  assumes "commits_ok ids H N net el" and "still N N'"
  shows "commits_ok ids H N' net el"
  unfolding commits_ok_def
proof (intro conjI allI impI)
  fix j k
  assume "N' j = Some k"
  then obtain b where b: "N j = Some b" "tip b = tip k" "current_term b = current_term k" "commit_index b = commit_index k"
    using stillE [OF assms(2)] by metis
  have "commit_at ids H net el (commit_index b) (current_term b) (tip b)"
    using assms(1) b(1) unfolding commits_ok_def by blast
  then show "commit_at ids H net el (commit_index k) (current_term k) (tip k)" unfolding b(2-4) .
next
  fix s to req
  assume "(s, to, AppendEntries req) \<in> net"
  then show "commit_at ids H net el (ae_leader_commit req) (ae_term req) (request_end req)"
    using assms(1) unfolding commits_ok_def by blast
qed

lemma commit_inv_restart:
  assumes "commit_inv ids H S N net el" and "N i = Some n"
    and "election_inv ids (N(i \<mapsto> n')) net el" and "history_inv H (N(i \<mapsto> n')) net el"
    and "role n' = Follower" and "same_log n n'" and "current_term n' = current_term n" and "commit_index n' = commit_index n"
  shows "commit_inv ids H S (N(i \<mapsto> n')) net el"
proof -
  let ?N = "N(i \<mapsto> n')"
  note inv = commit_invD [OF assms(1)]
  have "tip n' = tip n" "snapshot_point n' = snapshot_point n" using same_log_tip [OF assms(6)] by blast+
  then have st: "still N ?N"
    using assms(2,5,7,8) by (auto simp: still_def)
  have "acks_ok H S ?N net el" using inv(7) still_term [OF st] unfolding acks_ok_def by blast
  moreover have "elected_by ids H S ?N net el" using inv(10) still_term [OF st] unfolding elected_by_def by meson
  moreover have "matches_ok ids ?N net" using inv(11) assms(5) unfolding matches_ok_def by auto
  ultimately show ?thesis
    using assms(3,4) inv(3,5,9) still_tips [OF inv(4) st] still_campaigns [OF inv(6) st] still_retained [OF inv(8) st]
      still_commits [OF inv(12) st]
    unfolding commit_inv_def by blast
qed

subsection \<open>Clean runs of a cluster\<close>

text \<open>A delivery is clean if it leaves the receiver clean; every other step is.\<close>

definition clean_step :: "cluster_event \<Rightarrow> ('s, 'm) cluster \<Rightarrow> ('s, 'm) cluster \<Rightarrow> bool" where
  "clean_step ev cl cl' =
     (case ev of
        Deliver k \<Rightarrow>
          (case cl_net cl ! k of (s, to, msg) \<Rightarrow>
             (case (cluster_nodes cl to, cluster_nodes cl' to) of
                (Some n, Some n') \<Rightarrow> clean_event (Received s msg) n n'
              | _ \<Rightarrow> True))
      | _ \<Rightarrow> True)"

fun clean_run ::
  "(outbox, 's, 'm) runner_env \<Rightarrow> 'm \<Rightarrow> cluster_event list \<Rightarrow> ('s, 'm) cluster \<Rightarrow> bool" where
  "clean_run E m0 [] cl = True"
| "clean_run E m0 (ev # evs) cl =
     (case cluster_step E m0 ev cl of
        None \<Rightarrow> True
      | Some cl' \<Rightarrow> clean_step ev cl cl' \<and> clean_run E m0 evs cl')"

lemma clean_step_cases:
  assumes "cluster_step E m0 ev cl = Some cl'" and "clean_step ev cl cl'"
  obtains (event) i e where "event_from (set (cl_net cl)) i e" and "node_event E i e cl = Some cl'"
      and "\<And>n n'. cluster_nodes cl i = Some n \<Longrightarrow> cluster_nodes cl' i = Some n' \<Longrightarrow> clean_event e n n'"
  | (again) i k where "ev = Restarts i k" and "restart_event E m0 i k cl = Some cl'"
proof (cases ev)
  case (Deliver k)
  then have k: "k < length (cl_net cl)" using assms(1) by (simp add: cluster_step_def split: if_splits)
  obtain s to msg where p: "cl_net cl ! k = (s, to, msg)" by (cases "cl_net cl ! k") auto
  then have "(s, to, msg) \<in> set (cl_net cl)" using k by (metis nth_mem)
  then have e: "event_from (set (cl_net cl)) to (Received s msg)" by (simp add: event_from_def)
  have n: "node_event E to (Received s msg) cl = Some cl'" using assms(1) Deliver k p by (simp add: cluster_step_def)
  show ?thesis by (rule event [OF e n]) (use assms(2) Deliver p in \<open>simp add: clean_step_def\<close>)
next
  case (Restarts i k)
  then show ?thesis using again assms(1) by (simp add: cluster_step_def)
next
  case (Ticks i)
  show ?thesis
    by (rule event [of i Ticked]) (use assms(1) Ticks in \<open>simp_all add: cluster_step_def event_from_def clean_event_def\<close>)
next
  case (Commands i cmd)
  show ?thesis
    by (rule event [of i "Commanded cmd"])
      (use assms(1) Commands in \<open>simp_all add: cluster_step_def event_from_def clean_event_def\<close>)
qed

definition committed_cluster :: "node_id set \<Rightarrow> history \<Rightarrow> bases \<Rightarrow> ('s, 'm) cluster \<Rightarrow> bool" where
  "committed_cluster ids H S cl \<longleftrightarrow> commit_inv ids H S (cluster_nodes cl) (set (cl_net cl)) (set (cl_elected cl))"

lemma cluster_node: "hm_get (cl_runners cl) i = Some r \<Longrightarrow> cluster_nodes cl i = Some (r_node r)"
  by (simp add: cluster_nodes_def)

lemma restart_eventE:
  assumes "restart_event E m0 i k cl = Some cl'"
  obtains r r' where "hm_get (cl_runners cl) i = Some r" and "cl' = after_event i r' cl"
    and "restart E k 0 (r_config r) [] (r_storage r) m0 = Some (r', Inr ())"
proof -
  obtain r r' res where rr: "hm_get (cl_runners cl) i = Some r"
      "restart E k 0 (r_config r) [] (r_storage r) m0 = Some (r', res)"
    and res: "(case res of Inr _ \<Rightarrow> Some (after_event i r' cl) | Inl _ \<Rightarrow> None) = Some cl'"
    using assms by (auto simp: restart_event_def bind_Some_iff)
  then have "restart E k 0 (r_config r) [] (r_storage r) m0 = Some (r', Inr ())" "cl' = after_event i r' cl"
    by (cases res; simp)+
  then show thesis using that [OF rr(1)] by blast
qed

context durable_runner begin

lemma node_event_clean:
  assumes E: "en_communication E = outbox_ops" "en_storage E = S" "gen_range_ok (en_rng E)"
    and inv: "cluster_inv good E ids cl" and ev: "event_from (set (cl_net cl)) i ev"
    and step: "node_event E i ev cl = Some cl'" and c: "committed_cluster ids H B cl"
    and clean: "\<And>n n'. cluster_nodes cl i = Some n \<Longrightarrow> cluster_nodes cl' i = Some n' \<Longrightarrow> clean_event ev n n'"
  obtains r r' n1 outs where "hm_get (cl_runners cl) i = Some r" and "cl' = after_event i r' cl"
    and "react (en_rng E) ev (r_node r) = Some (n1, outs)" and "handled E r (n1, outs) r'"
    and "clean_in (en_rng E) ids H B (cluster_nodes cl) (set (cl_net cl)) (set (cl_elected cl)) i ev
      (r_node r) (r_node r') outs"
    and "committed_cluster ids (propose_history ev (r_node r) H) (next_bases (set (cl_elected cl)) (r_node r') B) cl'"
proof -
  obtain r r' n1 outs where h: "hm_get (cl_runners cl) i = Some r" "cl' = after_event i r' cl"
      "react (en_rng E) ev (r_node r) = Some (n1, outs)" "handled E r (n1, outs) r'"
      "r_communication r' = outs" "runner_ok r'"
      "local_step (cluster_nodes cl) (set (cl_net cl)) i ev (r_node r) (r_node r') outs"
    using node_event_local [OF E inv ev step] .
  have s: "replicated_step (en_rng E) (cluster_nodes cl) (set (cl_net cl)) i ev (r_node r) (r_node r') outs"
    unfolding replicated_step_def using h(3,4,7) by (auto simp: handled_def)
  have "clean_event ev (r_node r) (r_node r')"
    using clean cluster_node [OF h(1)] unfolding h(2) cluster_nodes_after(1) by simp
  with s c have ci: "clean_in (en_rng E) ids H B (cluster_nodes cl) (set (cl_net cl)) (set (cl_elected cl)) i ev
      (r_node r) (r_node r') outs"
    unfolding clean_in_def committed_cluster_def by blast
  from commit_inv_step [OF this]
  have "committed_cluster ids (propose_history ev (r_node r) H) (next_bases (set (cl_elected cl)) (r_node r') B) cl'"
    unfolding committed_cluster_def h(2) cluster_nodes_after h(5) .
  then show thesis using that [OF h(1-4) ci] by blast
qed

text \<open>A restart gives back the commit index as well: it is inside the log.\<close>

lemma restart_event_same:
  assumes E: "en_communication E = outbox_ops" "en_storage E = S" "gen_range_ok (en_rng E)"
    and inv: "cluster_inv good E ids cl" and step: "restart_event E m0 i k cl = Some cl'"
    and c: "committed_cluster ids H B cl"
  obtains r r' where "hm_get (cl_runners cl) i = Some r" and "cl' = after_event i r' cl"
    and "restart E k 0 (r_config r) [] (r_storage r) m0 = Some (r', Inr ())"
    and "from_node (r_node r') b = from_node (r_node r) b" and "role (r_node r') = Follower"
    and "r_storage r' = r_storage r" and "r_communication r' = []"
proof -
  obtain r r' where r: "hm_get (cl_runners cl) i = Some r" "cl' = after_event i r' cl"
      "restart E k 0 (r_config r) [] (r_storage r) m0 = Some (r', Inr ())"
    using restart_eventE [OF step] .
  let ?n = "r_node r" and ?n' = "r_node r'"
  have ok: "runner_ok r" "backed E r" "config_u64 (r_config r)"
    using inv r(1) by (simp_all add: cluster_inv_def runners_ok_def)
  note b = restart_backed [OF r(3) ok(2,1) E(3) ok(3)]
  have out: "r_communication r' = []" using b(7) by (simp add: E(1) outbox_ops_def)
  have "commit_index ?n' \<le> log_end ?n'" by (rule restart_applied(1) [OF r(3)])
  moreover have "commit_index ?n \<le> log_end ?n"
    using commit_at_fst [OF commits_okD(1) [OF c [unfolded committed_cluster_def] cluster_node [OF r(1)]]] by simp
  moreover have "node_inv ?n'" "node_inv ?n" using b(5) ok(1) by (simp_all add: runner_ok_def)
  then have "snapshot_last_included_index ?n' \<le> commit_index ?n'" "snapshot_last_included_index ?n \<le> commit_index ?n"
    using node_inv_snapshot_le by blast+
  moreover have "max (snapshot_last_included_index ?n') (min (commit_index ?n') (log_end ?n')) =
      max (snapshot_last_included_index ?n) (min (commit_index ?n) (log_end ?n))"
    using b(1) node_view_fields(7) by metis
  ultimately have ci: "commit_index ?n' = commit_index ?n" by simp
  have "nid ?n' = nid ?n" "current_term ?n' = current_term ?n" "voted_for ?n' = voted_for ?n" "log ?n' = log ?n"
      "snapshot_last_included_index ?n' = snapshot_last_included_index ?n"
      "snapshot_last_included_term ?n' = snapshot_last_included_term ?n"
    using b(1) by (metis node_view_fields)+
  then have "from_node ?n' b = from_node ?n b" using ci by (simp add: from_node_def)
  then show thesis using that [OF r _ b(2,3) out] by blast
qed

lemma from_node_eq:
  assumes "from_node n' b = from_node n b"
  shows "same_log n n'" and "current_term n' = current_term n" and "commit_index n' = commit_index n" and "nid n' = nid n"
  using assms by (simp_all add: from_node_def same_log_def)

lemma restart_event_committed:
  assumes E: "en_communication E = outbox_ops" "en_storage E = S" "gen_range_ok (en_rng E)"
    and inv: "cluster_inv good E ids cl" and step: "restart_event E m0 i k cl = Some cl'"
    and c: "committed_cluster ids H B cl"
  shows "committed_cluster ids H B cl'"
proof -
  note C = commit_invD [OF c [unfolded committed_cluster_def]]
  obtain r r' where r: "hm_get (cl_runners cl) i = Some r" "cl' = after_event i r' cl"
      "restart E k 0 (r_config r) [] (r_storage r) m0 = Some (r', Inr ())"
      "from_node (r_node r') [] = from_node (r_node r) []" "role (r_node r') = Follower"
      "r_storage r' = r_storage r" "r_communication r' = []"
    using restart_event_same [OF E inv step c] .
  note same = from_node_eq [OF r(4)]
  have nodes: "cluster_nodes cl' = (cluster_nodes cl)(i \<mapsto> r_node r')" "set (cl_net cl') = set (cl_net cl)"
      "set (cl_elected cl') = set (cl_elected cl)"
    using r(5,7) unfolding r(2) cluster_nodes_after by (simp_all add: packets_from_def elected_now_def)
  have "cluster_inv good E ids cl'" by (rule restart_event_inv [OF E inv step])
  then have el: "election_inv ids ((cluster_nodes cl)(i \<mapsto> r_node r')) (set (cl_net cl)) (set (cl_elected cl))"
    by (simp add: cluster_inv_def nodes)
  have hi: "history_inv H ((cluster_nodes cl)(i \<mapsto> r_node r')) (set (cl_net cl)) (set (cl_elected cl))"
    by (rule history_inv_restart [OF C(2) cluster_node [OF r(1)] r(5) same(1)])
  show ?thesis
    unfolding committed_cluster_def nodes
    by (rule commit_inv_restart [OF c [unfolded committed_cluster_def] cluster_node [OF r(1)] el hi r(5) same(1-3)])
qed

lemma cluster_step_committed:
  assumes "en_communication E = outbox_ops" "en_storage E = S" "gen_range_ok (en_rng E)"
    and "cluster_inv good E ids cl" and "cluster_step E m0 ev cl = Some cl'" and "clean_step ev cl cl'"
    and "committed_cluster ids H B cl"
  shows "\<exists>H' B'. committed_cluster ids H' B' cl'"
  using assms(5,6)
proof (cases rule: clean_step_cases)
  case (event i e)
  from node_event_clean [OF assms(1-4) event(1,2) assms(7) event(3)] show ?thesis by blast
next
  case (again i k)
  then show ?thesis using restart_event_committed [OF assms(1-4) again(2) assms(7)] by blast
qed

lemma cluster_run_committed:
  assumes "en_communication E = outbox_ops" "en_storage E = S" "gen_range_ok (en_rng E)"
  shows "cluster_inv good E ids cl \<Longrightarrow> cluster_run E m0 evs cl = Some cl' \<Longrightarrow> clean_run E m0 evs cl \<Longrightarrow>
    committed_cluster ids H B cl \<Longrightarrow> \<exists>H' B'. committed_cluster ids H' B' cl'"
proof (induction evs arbitrary: cl H B)
  case (Cons ev evs)
  then obtain c where c: "cluster_step E m0 ev cl = Some c" "cluster_run E m0 evs c = Some cl'"
    by (auto simp: bind_Some_iff)
  then have k: "clean_step ev cl c" "clean_run E m0 evs c" using Cons.prems(3) by simp_all
  obtain H' B' where "committed_cluster ids H' B' c"
    using cluster_step_committed [OF assms Cons.prems(1) c(1) k(1) Cons.prems(4)] by blast
  then show ?case using Cons.IH cluster_step_inv [OF assms Cons.prems(1) c(1)] c(2) k(2) by blast
qed auto

lemma cluster_start_committed:
  assumes E: "en_communication E = outbox_ops" "en_storage E = S" "gen_range_ok (en_rng E)"
    and cfgs: "cluster_config_ok cfgs" and s0: "good s0" "\<forall>i. st_load S s0 i = None"
    and start: "cluster_start E s0 m0 cfgs = Some cl"
  shows "committed_cluster (cfg_id ` set cfgs) {} (\<lambda>t. (0, 0)) cl"
proof -
  obtain rs where rs: "start_all E s0 m0 cfgs = Some rs" and cl: "cl = \<lparr>cl_runners = rs, cl_net = [], cl_elected = []\<rparr>"
    using start by (auto simp: cluster_start_def)
  have node: "role n = Follower \<and> tip n = (0, 0) \<and> snapshot_point n = (0, 0) \<and> current_term n = 0 \<and> commit_index n = 0"
    if at: "cluster_nodes cl i = Some n" for i n
  proof -
    obtain r where r: "hm_get rs i = Some r" "n = r_node r" using at by (auto simp: cluster_nodes_def cl)
    obtain cfg where res: "restart E 0 0 cfg [] s0 m0 = Some (r, Inr ())" using start_all_get(2) [OF rs r(1)] by blast
    have "node_view n = fresh_view (cfg_id cfg)" "role n = Follower" using restart_fresh(1,2) [OF res] s0(2) E(2) r(2) by auto
    then have f: "log n = []" "snapshot_last_included_index n = 0" "snapshot_last_included_term n = 0"
        "current_term n = 0" "role n = Follower"
      using node_view_fields [of n] by (simp_all add: fresh_view_def)
    then have "log_end n = 0" by (simp add: log_end_def)
    then have "commit_index n = 0" using restart_applied(1) [OF res] r(2) by simp
    then show ?thesis using f by (simp add: tip_end end_point_def end_term_def snapshot_point_def)
  qed
  have last: "last_term n = 0" if "cluster_nodes cl i = Some n" for i n
    using node [OF that] by (auto simp: tip_def)
  have "cluster_inv good E (cfg_id ` set cfgs) cl" by (rule cluster_start_inv [OF E cfgs s0 start])
  then have "election_inv (cfg_id ` set cfgs) (cluster_nodes cl) {} {}" by (simp add: cluster_inv_def cl)
  moreover have "history_inv {} (cluster_nodes cl) {} {}"
    using cluster_start_logged [OF start E(2) s0(2)] by (simp add: logged_cluster_def cl)
  moreover have "history_tree {} (\<lambda>t. (0, 0)) {}"
    by (simp add: history_tree_def functional_def rooted_def terms_led_def led_def)
  moreover have "tips_ok {} (\<lambda>t. (0, 0)) (cluster_nodes cl)" using node last by (simp add: tips_ok_def)
  moreover have "commits_ok (cfg_id ` set cfgs) {} (cluster_nodes cl) {} {}"
    using node by (simp add: commits_ok_def commit_at_def)
  moreover have "matches_ok (cfg_id ` set cfgs) (cluster_nodes cl) {}" using node by (auto simp: matches_ok_def)
  ultimately show ?thesis
    by (simp add: committed_cluster_def commit_inv_def cl requests_ok_def campaigns_ok_def acks_ok_def acked_def
        retained_def holds_def proposed_def grants_ok_def granted_def elected_by_def)
qed

lemma cluster_reachable_committed:
  assumes "en_communication E = outbox_ops" "en_storage E = S" "gen_range_ok (en_rng E)"
    and "cluster_config_ok cfgs" and "good s0" "\<forall>i. st_load S s0 i = None"
    and "cluster_start E s0 m0 cfgs = Some cl0" and "cluster_run E m0 evs cl0 = Some cl" and "clean_run E m0 evs cl0"
  shows "\<exists>H B. committed_cluster (cfg_id ` set cfgs) H B cl"
  using cluster_run_committed [OF assms(1-3) cluster_start_inv [OF assms(1-7)] assms(8,9)
      cluster_start_committed [OF assms(1-7)]] .

end

end
