(* ===== verification/Restart.thy ===== *)
theory Restart
  imports Recovery Counter Key_Value
begin

text \<open>
  The state machine across a restart. A runner saves the snapshot of its machine as it is, with every
  committed command applied, but a restore sets \<open>last_applied\<close> back to the snapshot position and applies
  the committed commands of the log again. For any machine that restores its snapshots the machine
  after a restart is therefore the old one with those commands applied once more; for a machine whose
  commands may be replayed, such as the key-value store, that is the old machine.
\<close>

definition applied_commands :: "raft_node \<Rightarrow> str list" where
  "applied_commands n = map le_command (take (last_applied n - snapshot_last_included_index n) (log n))"

definition committed_commands :: "raft_node \<Rightarrow> str list" where
  "committed_commands n =
     map le_command (take (min (commit_index n) (log_end n) - snapshot_last_included_index n) (log n))"

text \<open>
  The machine is the result of the commands applied so far, the last of which are still in the log.
\<close>

definition machine_history :: "('c, 's, 'm) runner_env \<Rightarrow> 'm \<Rightarrow> ('c, 's, 'm) runner \<Rightarrow> bool" where
  "machine_history E m0 r \<longleftrightarrow>
     snapshot_last_included_index (r_node r) \<le> last_applied (r_node r) \<and>
     last_applied (r_node r) \<le> log_end (r_node r) \<and>
     (\<exists>pre. r_machine r = sm_run (sm_apply (en_machine E)) (pre @ applied_commands (r_node r)) m0)"

lemma take_unapplied_history:
  assumes "take_unapplied_entries n = Some (n', es)"
    and "snapshot_last_included_index n \<le> last_applied n" and "last_applied n \<le> log_end n"
  shows "applied_commands n' = applied_commands n @ map le_command es"
    and "snapshot_last_included_index n' \<le> last_applied n'" and "last_applied n' \<le> log_end n'"
    and "min (commit_index n') (log_end n') \<le> last_applied n'"
proof -
  have f: "apply_from n = last_applied n" using assms(2) by (simp add: apply_from_def)
  note n' = take_unapplied_entries_spec(3) [OF assms(1), unfolded f]
  show "snapshot_last_included_index n' \<le> last_applied n'" "last_applied n' \<le> log_end n'"
    "min (commit_index n') (log_end n') \<le> last_applied n'"
    using assms(2,3) unfolding n' by (simp_all add: apply_to_def)
  have lim: "log_end n < u64_limit" by (rule take_unapplied_Some [OF assms(1)])
  show "applied_commands n' = applied_commands n @ map le_command es"
  proof (cases "apply_to n \<le> last_applied n")
    case True
    then have "es = []" using assms(1) f lim by (simp add: take_unapplied_eq)
    then show ?thesis using True unfolding n' by (simp add: applied_commands_def max_def)
  next
    case False
    define a b where "a = last_applied n - snapshot_last_included_index n" and "b = apply_to n - last_applied n"
    have es: "es = take b (drop a (log n))" using assms(1) f lim False by (simp add: take_unapplied_eq a_def b_def)
    have "last_applied n' - snapshot_last_included_index n' = a + b"
      using False assms(2) unfolding n' by (simp add: a_def b_def)
    then show ?thesis unfolding applied_commands_def es using n' by (simp add: take_add a_def)
  qed
qed

lemma apply_committed_history:
  assumes "apply_committed_entries E r = Some r'" and "machine_history E m0 r"
  shows "machine_history E m0 r'"
    and "min (commit_index (r_node r')) (log_end (r_node r')) \<le> last_applied (r_node r')"
proof -
  obtain n es k where t: "take_unapplied_entries (r_node r) = Some (n, es)"
    and r': "r' = r\<lparr>r_node := n, r_applied_count := k,
           r_machine := sm_run (sm_apply (en_machine E)) (map le_command es) (r_machine r)\<rparr>"
    using apply_committed_effect [OF assms(1)] by blast
  obtain pre where pre: "r_machine r = sm_run (sm_apply (en_machine E)) (pre @ applied_commands (r_node r)) m0"
    and b: "snapshot_last_included_index (r_node r) \<le> last_applied (r_node r)" "last_applied (r_node r) \<le> log_end (r_node r)"
    using assms(2) by (auto simp: machine_history_def)
  note h = take_unapplied_history [OF t b]
  show "min (commit_index (r_node r')) (log_end (r_node r')) \<le> last_applied (r_node r')" using h(4) r' by simp
  have "r_machine r' = sm_run (sm_apply (en_machine E)) (pre @ applied_commands (r_node r')) m0"
    using pre h(1) r' by simp
  then show "machine_history E m0 r'" using h(2,3) r' by (auto simp: machine_history_def)
qed

text \<open>Compaction drops commands of the log only after they were applied.\<close>

lemma compact_history:
  assumes "compact_committed n = Some (n', b)" and "min (commit_index n) (log_end n) \<le> last_applied n"
    and "snapshot_last_included_index n \<le> last_applied n" and "last_applied n \<le> log_end n"
  shows "\<exists>pre. applied_commands n = pre @ applied_commands n'"
    and "snapshot_last_included_index n' \<le> last_applied n'" and "last_applied n' \<le> log_end n'"
    and "last_applied n' = last_applied n"
proof -
  show "\<exists>pre. applied_commands n = pre @ applied_commands n'"
  proof (cases b)
    case True
    define c where "c = commit_index n - snapshot_last_included_index n"
    have n': "n' = n\<lparr>log := drop c (log n), snapshot_last_included_index := commit_index n,
        snapshot_last_included_term := the (term_at n (commit_index n)), last_applied := last_applied n\<rparr>"
      and i: "snapshot_last_included_index n < commit_index n" "commit_index n \<le> last_applied n"
      using assms True by (auto simp: compact_committed_eq c_def max_def split: if_splits)
    have "last_applied n - snapshot_last_included_index n = c + (last_applied n - commit_index n)"
      using i by (simp add: c_def)
    then have "applied_commands n = map le_command (take c (log n)) @ applied_commands n'"
      unfolding n' by (simp add: applied_commands_def take_add)
    then show ?thesis by blast
  next
    case False
    then have "n' = n" using assms(1) by (auto simp: compact_committed_eq split: if_splits)
    then show ?thesis by simp
  qed
  show "snapshot_last_included_index n' \<le> last_applied n'" "last_applied n' \<le> log_end n'"
    "last_applied n' = last_applied n"
    using assms by (auto simp: compact_committed_eq log_end_def max_def split: if_splits)
qed

lemma persist_history:
  assumes "persist E r = Some r'" and "machine_history E m0 r"
    and "min (commit_index (r_node r)) (log_end (r_node r)) \<le> last_applied (r_node r)"
  shows "machine_history E m0 r'"
proof -
  obtain n where n: "n = r_node r \<or> (\<exists>b. compact_committed (r_node r) = Some (n, b))"
    and r': "r_node r' = n" "r_machine r' = r_machine r"
    using persist_effect [OF assms(1)] by auto
  obtain pre where pre: "r_machine r = sm_run (sm_apply (en_machine E)) (pre @ applied_commands (r_node r)) m0"
    and b: "snapshot_last_included_index (r_node r) \<le> last_applied (r_node r)" "last_applied (r_node r) \<le> log_end (r_node r)"
    using assms(2) by (auto simp: machine_history_def)
  from n show ?thesis
  proof
    assume "\<exists>b. compact_committed (r_node r) = Some (n, b)"
    then obtain x where c: "compact_committed (r_node r) = Some (n, x)" by blast
    note h = compact_history [OF c assms(3) b]
    obtain pre2 where "applied_commands (r_node r) = pre2 @ applied_commands n" using h(1) by blast
    then have "r_machine r' = sm_run (sm_apply (en_machine E)) ((pre @ pre2) @ applied_commands (r_node r')) m0"
      using pre r' by simp
    then show ?thesis using h(2,3) r' unfolding machine_history_def by blast
  qed (use assms(2) r' in \<open>simp add: machine_history_def\<close>)
qed

lemma settle_history:
  "settle E r = Some r' \<Longrightarrow> machine_history E m0 r \<Longrightarrow> machine_history E m0 r'"
  using apply_committed_history persist_history by (fastforce simp: settle_def bind_Some_iff)

subsection \<open>The machine after a restart\<close>

text \<open>A restore hands every committed command that is still in the log to the machine.\<close>

lemma restore_then_take:
  assumes "restore_from_storage t v (log q) (commit_index q) (snapshot_last_included_index q) it n0 = Some n"
    and "take_unapplied_entries n = Some (n', es)"
  shows "map le_command es = committed_commands q"
proof -
  define li where "li = snapshot_last_included_index q"
  have n: "log n = log q" "snapshot_last_included_index n = li" "last_applied n = li"
    "commit_index n = max li (min (commit_index q) (log_end q))" "log_end n = log_end q"
    using assms(1) by (auto simp: restore_from_storage_Some_iff li_def log_end_def)
  have f: "apply_from n = li" "apply_to n = max li (min (commit_index q) (log_end q))"
    using n by (simp_all add: apply_from_def apply_to_def log_end_def li_def)
  have lim: "log_end n < u64_limit" by (rule take_unapplied_Some [OF assms(2)])
  have "es = take (apply_to n - li) (log q)"
    using assms(2) lim n f by (cases "apply_to n \<le> apply_from n") (auto simp: take_unapplied_eq)
  moreover have "apply_to n - li = min (commit_index q) (log_end q) - li" by (simp add: f(2))
  ultimately show ?thesis by (simp add: committed_commands_def li_def)
qed

context state_machine begin

lemma restart_machine:
  assumes "restart E k now cfg c s m = Some (r, Inr ())"
    and "sm_apply (en_machine E) = ap" and "sm_restore (en_machine E) = rest"
    and "st_load (en_storage E) s (cfg_id cfg) = Some (from_node q (snap M))" and "good M"
  shows "r_machine r = sm_run ap (committed_commands q) M"
proof -
  obtain r0 where r0: "runner_new E k now cfg c s m = Some r0" "run_start E r0 = Some (r, Inr ())"
    using assms(1) by (auto simp: restart_def bind_Some_iff)
  note new = runner_new_Some [OF r0(1)]
  have l: "st_load (en_storage E) (r_storage r0) (cfg_id (r_config r0)) = Some (from_node q (snap M))"
    using assms(4) new by simp
  obtain n n2 es where n: "restore_from_storage (current_term q) (voted_for q) (log q) (commit_index q)
      (snapshot_last_included_index q) (snapshot_last_included_term q) (r_node r0) = Some n"
    and t: "take_unapplied_entries n = Some (n2, es)"
    and r: "r_machine r = sm_run ap (map le_command es) (fst (rest (r_machine r0) (snap M)))"
    using run_start_found [OF r0(2) l] assms(2,3) by (auto simp: from_node_def)
  show ?thesis using r restore_then_take [OF n t] by (simp add: restore_snapshot assms(5))
qed

end

context replayable_state_machine begin

lemma restart_same_machine:
  assumes "restart E k now cfg c s m = Some (r2, Inr ())"
    and "sm_apply (en_machine E) = ap" and "sm_restore (en_machine E) = rest"
    and "st_load (en_storage E) s (cfg_id cfg) = Some (from_node (r_node r) (snap (r_machine r)))"
    and "machine_history E m0 r" and "good m0"
    and "last_applied (r_node r) = min (commit_index (r_node r)) (log_end (r_node r))"
  shows "r_machine r2 = r_machine r"
proof -
  obtain pre where pre: "r_machine r = sm_run ap (pre @ applied_commands (r_node r)) m0"
    using assms(2,5) by (auto simp: machine_history_def)
  have c: "committed_commands (r_node r) = applied_commands (r_node r)"
    using assms(7) by (simp add: committed_commands_def applied_commands_def)
  have "good (r_machine r)" unfolding pre by (rule good_run [OF assms(6)])
  from restart_machine [OF assms(1-4) this] show ?thesis
    unfolding c pre using replay_suffix [OF assms(6), of "applied_commands (r_node r)" pre]
    by (simp del: sm_run_simps(3))
qed

end

end
