(* ===== verification/Traces.thy ===== *)
theory Traces
  imports Samples Commit_Cluster Codec Restart
begin

text \<open>
  Concrete runs of the model, evaluated by the simplifier: a three-node cluster over the in-memory
  storage, with a state machine that keeps the list of the commands it was given and has the default
  \<open>snapshot\<close> and \<open>restore\<close> of the trait. They are the inputs of the witnesses and of the statements
  that some states can be reached.
\<close>

subsection \<open>A concrete cluster\<close>

definition sample_config :: "node_id \<Rightarrow> node_id list \<Rightarrow> raft_config" where
  "sample_config i ps =
     \<lparr>cfg_id = i, cfg_addr = lit ''a'', cfg_peer_addrs = map (\<lambda>p. (p, lit ''b'')) ps,
      cfg_election_timeout_min_ticks = 2, cfg_election_timeout_max_ticks = 3,
      cfg_heartbeat_interval_ticks = 1, cfg_tick_ms = 100, cfg_log_compaction_threshold = 128,
      cfg_report_metrics_interval_ticks = 100\<rparr>"

definition sample_configs :: "raft_config list" where
  "sample_configs = [sample_config 1 [2, 3], sample_config 2 [1, 3], sample_config 3 [1, 2]]"

lemma sample_configs_ok: "cluster_config_ok sample_configs"
  by (auto simp: cluster_config_ok_def sample_configs_def sample_config_def config_ok_def config_u64_def
      hm_ok_def hm_keys_def u64_limit_def)

definition journal_ops :: "str list state_machine_ops" where
  "journal_ops = \<lparr>sm_apply = \<lambda>m c. m @ [c], sm_snapshot = default_snapshot, sm_restore = default_restore\<rparr>"

definition sample_env :: "(outbox, in_memory_storage, str list) runner_env" where
  "sample_env = cluster_env in_memory_ops journal_ops min_rng"

definition sample_run :: "cluster_event list \<Rightarrow> (in_memory_storage, str list) cluster option" where
  "sample_run evs =
     Option.bind (cluster_start sample_env in_memory_new [] sample_configs) (cluster_run sample_env [] evs)"

subsection \<open>Facts for evaluation\<close>

lemmas eval_runner = runner_step_def process_message_def on_request_vote_def answer_request_vote_def
  on_request_vote_response_def on_append_entries_def answer_append_entries_def
  on_append_entries_response_def on_tick_def process_command_def settle_def persist_def
  maybe_compact_log_def apply_committed_entries_def send_or_log_def outbound_to_def from_node_def
  runner_new_def node_of_config_def restart_def run_start_def restore_from_snapshot_def

lemmas eval_cluster = cluster_step_def node_event_def after_event_def restart_event_def cluster_start_def
  cluster_env_def outbox_ops_def in_memory_ops_def in_memory_load_def in_memory_save_def in_memory_new_def
  journal_ops_def default_snapshot_def default_restore_def

lemmas eval_sample = sample_run_def sample_env_def sample_configs_def sample_config_def
  eval_node eval_runner eval_cluster

lemmas eval_clean = clean_step_def clean_event_def cluster_nodes_def ae_consistent_def last_term_def log_end_def
  entry_at_def

subsection \<open>A run that elects a leader\<close>

lemma sample_election:
  "\<exists>cl0 cl. cluster_start sample_env in_memory_new [] sample_configs = Some cl0 \<and>
     cluster_run sample_env [] [Commands 1 ForceElection, Deliver 0, Deliver 2] cl0 = Some cl \<and>
     cl_elected cl = [(1, 1)]"
  by (simp add: eval_sample)

subsection \<open>A node without peers\<close>

lemma lone_campaigns:
  "\<exists>cl0 cl. cluster_start sample_env in_memory_new [] [sample_config 1 []] = Some cl0 \<and>
     cluster_run sample_env [] [Ticks 1, Ticks 1, Commands 1 ForceElection, Restarts 1 5, Commands 1 ForceElection,
       Commands 1 (Propose (lit ''a''))] cl0 = Some cl \<and>
     map (\<lambda>(i, r). (i, votes_received (r_node r))) (cl_runners cl) = [(1, {1})]"
  by (simp add: eval_sample restart_def runner_new_def node_of_config_def run_start_def)

subsection \<open>A run that replicates two entries\<close>

definition two_proposals :: "cluster_event list" where
  "two_proposals =
     [Commands 1 ForceElection, Deliver 0, Deliver 2, Commands 1 (Propose (lit ''a'')),
      Commands 1 (Propose (lit ''b'')), Deliver 7]"

lemma sample_replication:
  "\<exists>cl0 cl. cluster_start sample_env in_memory_new [] sample_configs = Some cl0 \<and>
     cluster_run sample_env [] two_proposals cl0 = Some cl \<and>
     map (\<lambda>(i, r). (i, log (r_node r), snapshot_last_included_index (r_node r))) (cl_runners cl) =
       [(1, [entry 1 ''a'', entry 1 ''b''], 0), (2, [entry 1 ''a'', entry 1 ''b''], 0), (3, [], 0)]"
  by (simp add: eval_sample two_proposals_def entry_def)

subsection \<open>A run that commits an entry held by one node only\<close>

text \<open>
  Node 1 leads term 1 and appends \<open>a\<close> and \<open>b\<close>, which reach nobody. Node 3 wins term 2 with an empty
  log. Node 1 answers its heartbeat, which ends at index 0, with \<open>match_index = 2\<close>, the length of its
  own log; node 3 then counts node 1 as holding its entry \<open>x\<close> at index 1 and commits it. Node 1 wins
  term 3 with the vote of node 2 and commits \<open>a\<close> at index 1.
\<close>

definition unsafe_events :: "cluster_event list" where
  "unsafe_events =
     [Commands 1 ForceElection, Deliver 0, Deliver 2,
      Commands 1 (Propose (lit ''a'')), Commands 1 (Propose (lit ''b'')),
      Commands 3 ForceElection, Commands 3 ForceElection, Deliver 12, Deliver 13, Deliver 14,
      Commands 3 (Propose (lit ''x'')), Deliver 16,
      Commands 1 ForceElection, Deliver 19, Deliver 21, Commands 1 (Propose (lit ''c'')),
      Deliver 24, Deliver 26, Deliver 27, Deliver 28, Deliver 29, Deliver 30]"

lemma unsafe_commit:
  "map_option (\<lambda>cl. map (\<lambda>(i, r). (i, commit_index (r_node r), r_machine r)) (cl_runners cl)) (sample_run unsafe_events) =
     Some [(1, 3, [lit ''a'', lit ''b'', lit ''c'']), (2, 0, []), (3, 1, [lit ''x''])]"
  by (simp add: eval_sample unsafe_events_def)

text \<open>The acknowledgement of that heartbeat is not clean: the log of node 1 ends behind it, in term 1.\<close>

lemma unsafe_not_clean:
  "\<exists>cl0. cluster_start sample_env in_memory_new [] sample_configs = Some cl0 \<and>
     \<not> clean_run sample_env [] unsafe_events cl0"
  by (simp add: eval_sample eval_clean unsafe_events_def)

subsection \<open>A clean run with two leaders\<close>

text \<open>
  Node 1 leads term 1 and commits \<open>a\<close> with node 2, which learns of it and wins term 2 with the vote of
  node 3, whose log is empty. Node 2 proposes \<open>b\<close>.
\<close>

definition hand_over :: "cluster_event list" where
  "hand_over =
     [Commands 1 ForceElection, Deliver 0, Deliver 2, Commands 1 (Propose (lit ''a'')), Deliver 5, Deliver 7,
      Ticks 1, Deliver 8, Commands 2 ForceElection, Deliver 12, Deliver 13, Commands 2 (Propose (lit ''b''))]"

lemma sample_hand_over:
  "\<exists>cl0 cl r q. cluster_start sample_env in_memory_new [] sample_configs = Some cl0 \<and>
     cluster_run sample_env [] hand_over cl0 = Some cl \<and> clean_run sample_env [] hand_over cl0 \<and>
     hm_get (cl_runners cl) 1 = Some r \<and> hm_get (cl_runners cl) 2 = Some q \<and>
     commit_index (r_node r) = 1 \<and> commit_index (r_node q) = 1 \<and>
     current_term (r_node r) = 1 \<and> current_term (r_node q) = 2 \<and> role (r_node q) = Leader \<and>
     snapshot_last_included_index (r_node q) = 0 \<and>
     entry_at (r_node r) 1 = Some (entry 1 ''a'') \<and> entry_at (r_node q) 1 = Some (entry 1 ''a'')"
  by (simp add: eval_sample eval_clean hand_over_def entry_def)

subsection \<open>A clean run with a restart\<close>

text \<open>
  Nodes 1 and 2 commit and apply a command, with any state machine; then node 2 stops and starts again.
\<close>

definition restarting :: "cluster_event list" where
  "restarting =
     [Commands 1 ForceElection, Deliver 0, Deliver 2, Commands 1 (Propose (lit ''set k v'')), Deliver 5, Deliver 7,
      Ticks 1, Deliver 8, Restarts 2 0]"

lemma sample_restarting:
  "\<exists>cl0 cl r q. cluster_start (cluster_env in_memory_ops M min_rng) in_memory_new m0 sample_configs = Some cl0 \<and>
     cluster_run (cluster_env in_memory_ops M min_rng) m0 restarting cl0 = Some cl \<and>
     clean_run (cluster_env in_memory_ops M min_rng) m0 restarting cl0 \<and>
     hm_get (cl_runners cl) 1 = Some r \<and> hm_get (cl_runners cl) 2 = Some q \<and>
     commit_index (r_node r) = 1 \<and> commit_index (r_node q) = 1 \<and> r_machine r = sm_apply M m0 (lit ''set k v'')"
  by (simp add: eval_sample eval_clean restarting_def case_prod_beta)

subsection \<open>A run in which a vote is answered but not saved\<close>

text \<open>
  The runner hands an answer to its transport before it saves the node. A process that stops in between
  has sent the answer and has the old node on its storage. \<open>crash_event\<close> is the delivery of packet \<open>k\<close>
  to a process that stops there and is started again.
\<close>

definition answer_packet ::
  "('c, 's, 'm) runner_env \<Rightarrow> node_id \<Rightarrow> raft_message \<Rightarrow> ('c, 's, 'm) runner \<Rightarrow> ('c, 's, 'm) runner option" where
  "answer_packet E sender msg r =
     (case msg of
        RequestVote req \<Rightarrow> answer_request_vote E sender req r
      | AppendEntries req \<Rightarrow> answer_append_entries E sender req r
      | _ \<Rightarrow> Some r)"

definition crash_event ::
  "(outbox, 's, 'm) runner_env \<Rightarrow> 'm \<Rightarrow> nat \<Rightarrow> ('s, 'm) cluster \<Rightarrow> ('s, 'm) cluster option" where
  "crash_event E m0 k cl =
     (if k < length (cl_net cl) then
        (case cl_net cl ! k of (s, to, msg) \<Rightarrow> do {
           r \<leftarrow> hm_get (cl_runners cl) to;
           r1 \<leftarrow> answer_packet E s msg r;
           (r2, res) \<leftarrow> restart E 0 0 (r_config r) [] (r_storage r1) m0;
           (case res of
              Inr _ \<Rightarrow> Some (after_event to (r2\<lparr>r_communication := r_communication r1\<rparr>) cl)
            | Inl _ \<Rightarrow> None)
         })
      else None)"

datatype faulty_event = Whole cluster_event | Crash nat

fun faulty_run ::
  "(outbox, 's, 'm) runner_env \<Rightarrow> 'm \<Rightarrow> faulty_event list \<Rightarrow> ('s, 'm) cluster \<Rightarrow> ('s, 'm) cluster option" where
  "faulty_run E m0 [] cl = Some cl"
| "faulty_run E m0 (Whole ev # evs) cl = Option.bind (cluster_step E m0 ev cl) (faulty_run E m0 evs)"
| "faulty_run E m0 (Crash k # evs) cl = Option.bind (crash_event E m0 k cl) (faulty_run E m0 evs)"

lemma faulty_run_whole: "faulty_run E m0 (map Whole evs) cl = cluster_run E m0 evs cl"
proof (induction evs arbitrary: cl)
  case (Cons ev evs)
  then show ?case by (cases "cluster_step E m0 ev cl") simp_all
qed simp

text \<open>
  Nodes 1 and 2 stand in term 1. Node 3 answers node 1, stops, starts again on its empty storage and
  answers node 2.
\<close>

definition double_vote :: "faulty_event list" where
  "double_vote =
     [Whole (Commands 1 ForceElection), Crash 1, Whole (Deliver 2),
      Whole (Commands 2 ForceElection), Whole (Deliver 6), Whole (Deliver 7)]"

lemma double_vote_run:
  "\<exists>cl0 cl. cluster_start sample_env in_memory_new [] sample_configs = Some cl0 \<and>
     faulty_run sample_env [] double_vote cl0 = Some cl \<and>
     map (\<lambda>(i, r). (i, role (r_node r), current_term (r_node r))) (cl_runners cl) =
       [(1, Leader, 1), (2, Leader, 1), (3, Follower, 1)] \<and>
     cl_elected cl = [(1, 2), (1, 1)]"
  by (simp add: eval_sample double_vote_def crash_event_def answer_packet_def)

end
