(* ===== verification/Transport_Properties.thy ===== *)
theory Transport_Properties
  imports Grpc Traces
begin

text \<open>
  The properties of the two transports: what arrives is what was sent, what happens when the inbound
  queue is full or an envelope is malformed, and that a runner empties its transport. Each is followed
  by a witness that applies it to a concrete transport.
\<close>

subsection \<open>Inputs of the witnesses\<close>

definition free_setup :: grpc_setup where
  "free_setup = \<lparr>gs_parse_address = \<lambda>a. Inr (), gs_spawn_thread = Inr (), gs_runtime = Inr ()\<rparr>"

definition tls_setup :: https_setup where
  "tls_setup =
     \<lparr>hs_provider_cell = None, hs_aws_lc_rs = True, hs_ring = True, hs_certificate = Inr (), hs_client = Inr ()\<rparr>"

definition grpc_env :: "(grpc_communication, in_memory_storage, str list) runner_env" where
  "grpc_env =
     \<lparr>en_communication = grpc_ops free_setup (\<lambda>endpoint e. Inr \<lparr>ta_accepted = True, ta_error = []\<rparr>),
      en_storage = in_memory_ops, en_machine = journal_ops, en_rng = min_rng\<rparr>"

definition https_env :: "(https_communication, in_memory_storage, str list) runner_env" where
  "https_env =
     \<lparr>en_communication = https_ops tls_setup (\<lambda>url m. Http_Status 200),
      en_storage = in_memory_ops, en_machine = journal_ops, en_rng = min_rng\<rparr>"

definition sample_vote :: raft_message where
  "sample_vote = RequestVote \<lparr>rv_term = 3, rv_candidate_id = 2, rv_last_log_index = 9, rv_last_log_term = 2\<rparr>"

definition vote_envelope :: transport_envelope where
  "vote_envelope = \<lparr>te_from = 2, te_to = 1, te_payload = Some (PRequestVote 3 2 9 2)\<rparr>"

definition full_channel :: "'a \<Rightarrow> 'a channel" where
  "full_channel x = \<lparr>ch_queue = replicate 256 x, ch_open = True\<rparr>"

definition grpc_runner :: "transport_envelope list \<Rightarrow> (grpc_communication, in_memory_storage, str list) runner" where
  "grpc_runner es =
     \<lparr>r_config = sample_config 1 [2, 3], r_node = follower,
      r_communication = \<lparr>gc_local_id = 1, gc_peer_endpoints = [(2, lit ''b'')],
                         gc_inbound = Some \<lparr>ch_queue = es, ch_open = True\<rparr>, gc_runtime = True\<rparr>,
      r_storage = in_memory_new, r_machine = [], r_inbound_count = 0, r_applied_count = 0,
      r_dropped_outbound = 0, r_last_report_at = 0\<rparr>"

subsection \<open>Round trips\<close>

text \<open>
  C29. The JSON format carries every message. Decoding the wire form of a message gives the sender and
  the message, with the \<open>from\<close> field of a response replaced by the sender of the envelope. Through the
  handler of the listener and \<open>poll\<close>: as long as the inbound queue has room, the messages posted to a
  node are polled in the order in which they arrived, after those already queued.
\<close>

theorem https_delivers:
  assumes "hc_inbound c = Some ch" and "ch_queue ch = []" and "hc_local_id c = to"
    and "handle_raft (message_to_wire s to m) ch = (ch1, st1)" and "handle_raft (message_to_wire s2 to m2) ch1 = (ch2, st2)"
    and "https_poll (c\<lparr>hc_inbound := Some ch2\<rparr>) = (c1, r1)" and "https_poll c1 = (c2, r2)"
  shows "r1 = Inr (Some \<lparr>im_from = s, im_message = with_sender s m\<rparr>) \<and>
    r2 = Inr (Some \<lparr>im_from = s2, im_message = with_sender s2 m2\<rparr>) \<and> c2 = c \<and>
    is_success st1 \<and> is_success st2"
proof -
  have "ch1 = ch\<lparr>ch_queue := [message_to_wire s to m]\<rparr>" "st1 = 200"
    using assms(2,4) by (auto simp: handle_raft_def try_send_def channel_bound_def)
  moreover from this have "ch2 = ch\<lparr>ch_queue := [message_to_wire s to m, message_to_wire s2 to m2]\<rparr>" "st2 = 200"
    using assms(5) by (auto simp: handle_raft_def try_send_def channel_bound_def)
  moreover have "ch\<lparr>ch_queue := []\<rparr> = ch" "c\<lparr>hc_inbound := Some ch\<rparr> = c" using assms(1,2) by simp_all
  ultimately show ?thesis
    using assms(6,7) by (auto simp: https_poll_def wire_round_trip is_success_def)
qed

theorem https_delivers_witness:
  "\<exists>ch1 st1 ch2 st2 c1 c2. handle_raft (message_to_wire 2 1 sample_vote) \<lparr>ch_queue = [], ch_open = True\<rparr> = (ch1, st1) \<and>
     handle_raft (message_to_wire 3 1 (RequestVoteResponse \<lparr>rvr_term = 4, rvr_vote_granted = True, rvr_from = 9\<rparr>)) ch1 = (ch2, st2) \<and>
     https_poll \<lparr>hc_local_id = 1, hc_peer_urls = [], hc_inbound = Some ch2, hc_client = True\<rparr> =
       (c1, Inr (Some \<lparr>im_from = 2, im_message = sample_vote\<rparr>)) \<and>
     https_poll c1 = (c2, Inr (Some \<lparr>im_from = 3, im_message =
       RequestVoteResponse \<lparr>rvr_term = 4, rvr_vote_granted = True, rvr_from = 3\<rparr>\<rparr>))"
proof -
  let ?ch = "\<lparr>ch_queue = [], ch_open = True\<rparr> :: wire_message channel"
  let ?c = "\<lparr>hc_local_id = 1, hc_peer_urls = [], hc_inbound = Some ?ch, hc_client = True\<rparr> :: https_communication"
  let ?m2 = "RequestVoteResponse \<lparr>rvr_term = 4, rvr_vote_granted = True, rvr_from = 9\<rparr>"
  obtain ch1 st1 where 1: "handle_raft (message_to_wire 2 1 sample_vote) ?ch = (ch1, st1)" by fastforce
  obtain ch2 st2 where 2: "handle_raft (message_to_wire 3 1 ?m2) ch1 = (ch2, st2)" by fastforce
  obtain c1 r1 where 3: "https_poll (?c\<lparr>hc_inbound := Some ch2\<rparr>) = (c1, r1)" by fastforce
  obtain c2 r2 where 4: "https_poll c1 = (c2, r2)" by fastforce
  from https_delivers [OF _ _ _ 1 2 3 4]
  have "r1 = Inr (Some \<lparr>im_from = 2, im_message = sample_vote\<rparr>)"
    "r2 = Inr (Some \<lparr>im_from = 3, im_message = RequestVoteResponse \<lparr>rvr_term = 4, rvr_vote_granted = True, rvr_from = 3\<rparr>\<rparr>)"
    by (simp_all add: with_sender_def sample_vote_def)
  then show ?thesis using 1 2 3 4 by auto
qed

text \<open>
  C30. The gRPC format carries every message whose indices fit into 64 bits and refuses the others:
  encoding succeeds exactly for those, whoever sends to whom, and then the envelope names sender and recipient and decodes to
  the message, with the \<open>from\<close> field of a response replaced by the sender. If the service of the
  recipient accepts such an envelope behind envelopes for other nodes only, the next poll returns it.
\<close>

theorem grpc_delivers:
  assumes "gc_inbound c = Some ch" and "\<forall>e \<in> set (ch_queue ch). te_to e \<noteq> gc_local_id c"
    and "encode_message s (gc_local_id c) m = Inr e" and "send_message e ch = (ch2, ack)" and "ta_accepted ack"
  shows "indices_fit m \<and> decode_envelope e = Inr \<lparr>im_from = s, im_message = with_sender s m\<rparr> \<and>
    grpc_poll (c\<lparr>gc_inbound := Some ch2\<rparr>) =
      (c\<lparr>gc_inbound := Some (ch\<lparr>ch_queue := []\<rparr>)\<rparr>, Inr (Some \<lparr>im_from = s, im_message = with_sender s m\<rparr>)) \<and>
    ((\<exists>e2. encode_message s2 to m2 = Inr e2) \<longleftrightarrow> indices_fit m2) \<and>
    (\<not> indices_fit m2 \<longrightarrow> (\<exists>err. encode_message s2 to m2 = Inl err))"
proof -
  note rt = grpc_round_trip [OF assms(3)]
  have fit: "indices_fit m" using assms(3) encode_message_ok by blast
  have ch2: "ch2 = ch\<lparr>ch_queue := ch_queue ch @ [e]\<rparr>"
    using assms(4,5) by (auto simp: send_message_def try_send_def split: if_splits)
  have "next_envelope i (es @ [x]) = (Some x, [])" if "\<forall>y \<in> set es. te_to y \<noteq> i" "te_to x = i" for i es x
    using that by (induction es) simp_all
  then have "next_envelope (gc_local_id c) (ch_queue ch2) = (Some e, [])" using assms(2) rt ch2 by simp
  moreover have "\<exists>err. encode_message s2 to m2 = Inl err" if "\<not> indices_fit m2"
    using that encode_message_ok [of s2 to m2] by (cases "encode_message s2 to m2") auto
  ultimately show ?thesis using fit rt ch2 encode_message_ok [of s2 to m2] by (simp add: grpc_poll_def)
qed

theorem grpc_delivers_witness:
  "\<exists>ch ack. send_message vote_envelope \<lparr>ch_queue = [vote_envelope\<lparr>te_to := 7\<rparr>], ch_open = True\<rparr> = (ch, ack) \<and>
     snd (grpc_poll \<lparr>gc_local_id = 1, gc_peer_endpoints = [], gc_inbound = Some ch, gc_runtime = True\<rparr>) =
       Inr (Some \<lparr>im_from = 2, im_message = sample_vote\<rparr>) \<and>
     (\<exists>e. encode_message 2 1 sample_vote = Inr e)"
proof -
  let ?ch = "\<lparr>ch_queue = [vote_envelope\<lparr>te_to := 7\<rparr>], ch_open = True\<rparr>"
  let ?c = "\<lparr>gc_local_id = 1, gc_peer_endpoints = [], gc_inbound = Some ?ch, gc_runtime = True\<rparr> :: grpc_communication"
  have e: "encode_message 2 (gc_local_id ?c) sample_vote = Inr vote_envelope"
    by (simp add: encode_message_def encode_payload_def sample_vote_def usize_to_u64_def u64_limit_def vote_envelope_def)
  obtain ch ack where s: "send_message vote_envelope ?ch = (ch, ack)" "ta_accepted ack"
    by (simp add: send_message_def try_send_def channel_bound_def)
  have q: "gc_inbound ?c = Some ?ch" "\<forall>e \<in> set (ch_queue ?ch). te_to e \<noteq> gc_local_id ?c" by simp_all
  show ?thesis using grpc_delivers [OF q e s, of 2 1 sample_vote] s(1) by (auto simp: with_sender_def sample_vote_def indices_fit_def u64_limit_def)
qed

subsection \<open>Errors\<close>

text \<open>
  C31. A full inbound queue. Both listeners drop the message. The gRPC service tells its caller, whose
  \<open>send\<close> then reports the message as dropped; the HTTPS handler answers 200, so that \<open>send\<close> reports a
  message as sent that nobody will ever poll.
\<close>

theorem full_queue:
  assumes "length (ch_queue wch) = channel_bound" and "hm_get (hc_peer_urls c) to = Some url" and "hc_client c"
    and "post url (message_to_wire (hc_local_id c) to m) =
           Http_Status (snd (handle_raft (message_to_wire (hc_local_id c) to m) wch))"
    and "length (ch_queue ech) = channel_bound" and "hm_get (gc_peer_endpoints g) to = Some endpoint" and "gc_runtime g"
    and "encode_message (gc_local_id g) to m = Inr e" and "rpc endpoint e = Inr (snd (send_message e ech))"
  shows "fst (handle_raft (message_to_wire (hc_local_id c) to m) wch) = wch \<and> https_send post to m c = (c, Sent) \<and>
    fst (send_message e ech) = ech \<and> (\<exists>reason. grpc_send rpc to m g = (g, Dropped reason))"
  using assms by (simp add: handle_raft_def try_send_def https_send_def is_success_def send_message_def grpc_send_def)

theorem full_queue_witness:
  "https_send (\<lambda>url m. Http_Status (snd (handle_raft m (full_channel m)))) 2 sample_vote
     \<lparr>hc_local_id = 1, hc_peer_urls = [(2, lit ''u'')], hc_inbound = None, hc_client = True\<rparr> =
   (\<lparr>hc_local_id = 1, hc_peer_urls = [(2, lit ''u'')], hc_inbound = None, hc_client = True\<rparr>, Sent)"
proof -
  let ?c = "\<lparr>hc_local_id = 1, hc_peer_urls = [(2, lit ''u'')], hc_inbound = None, hc_client = True\<rparr> :: https_communication"
  let ?g = "\<lparr>gc_local_id = 2, gc_peer_endpoints = [(2, lit ''u'')], gc_inbound = None, gc_runtime = True\<rparr> :: grpc_communication"
  have "encode_message (gc_local_id ?g) 2 sample_vote = Inr (vote_envelope\<lparr>te_to := 2\<rparr>)"
    by (simp add: encode_message_def encode_payload_def sample_vote_def usize_to_u64_def u64_limit_def vote_envelope_def)
  then show ?thesis
    using full_queue [of "full_channel (message_to_wire 1 2 sample_vote)" ?c 2 "lit ''u''"
        "\<lambda>url m. Http_Status (snd (handle_raft m (full_channel m)))" sample_vote
        "full_channel (vote_envelope\<lparr>te_to := 2\<rparr>)" ?g "lit ''u''" "vote_envelope\<lparr>te_to := 2\<rparr>"
        "\<lambda>x e. Inr (snd (send_message e (full_channel e)))"]
    by (simp add: full_channel_def channel_bound_def)
qed

text \<open>
  C32. One malformed envelope stops a runner. An envelope without a payload (or with an index that does
  not fit) that is addressed to the node makes \<open>poll\<close> fail, \<open>process_communication\<close> passes the error
  on, and the main loop ends with it, before it has looked at the command of that turn.
\<close>

theorem malformed_envelope_stops_runner:
  assumes "en_communication E = grpc_ops setup rpc" and "gc_inbound (r_communication r) = Some ch"
    and "next_envelope (gc_local_id (r_communication r)) (ch_queue ch) = (Some e, rest)"
    and "decode_envelope e = Inl err" and "now < next_tick"
  shows "\<exists>r2. run_turns E ((now, cmd, report_now) # inputs) next_tick r = Some (r2, next_tick, Failed err) \<and>
    r_node r2 = r_node r \<and> r_machine r2 = r_machine r"
proof -
  have "process_communication E r =
      Some (r\<lparr>r_communication := r_communication r\<lparr>gc_inbound := Some (ch\<lparr>ch_queue := rest\<rparr>)\<rparr>\<rparr>, Inl err)"
    using assms(1-4) by (subst process_communication.simps) (simp add: grpc_ops_def grpc_poll_def)
  then show ?thesis using assms(5) by (simp add: run_turn_def)
qed

theorem malformed_envelope_stops_runner_witness:
  "\<exists>r2. run_turns grpc_env [(0, Some Shutdown, 0)] 5 (grpc_runner [vote_envelope\<lparr>te_payload := None\<rparr>]) =
     Some (r2, 5, Failed (Other (lit ''missing gRPC payload'')))"
proof -
  let ?e = "vote_envelope\<lparr>te_payload := None\<rparr>"
  have e: "en_communication grpc_env = grpc_ops free_setup (\<lambda>endpoint e. Inr \<lparr>ta_accepted = True, ta_error = []\<rparr>)"
    by (simp add: grpc_env_def)
  have q: "gc_inbound (r_communication (grpc_runner [?e])) = Some \<lparr>ch_queue = [?e], ch_open = True\<rparr>"
    "next_envelope (gc_local_id (r_communication (grpc_runner [?e]))) (ch_queue \<lparr>ch_queue = [?e], ch_open = True\<rparr>) = (Some ?e, [])"
    "decode_envelope ?e = Inl (Other (lit ''missing gRPC payload''))"
    by (simp_all add: grpc_runner_def vote_envelope_def decode_envelope_def)
  show ?thesis
    using malformed_envelope_stops_runner [OF e q, of 0 5 "Some Shutdown" 0 "[]"] by (auto simp del: run_turns.simps)
qed

text \<open>
  C33. A listener that cannot listen stops the runner late. \<open>start\<close> does not wait for the thread of its
  listener: it reports success, and the thread may still fail to parse or to bind the address, or to keep
  on serving. That drops the sender of the inbound channel, and the next turn of the main loop (when no
  message is queued) ends the runner with \<open>Disconnected\<close>, over either transport; the cause is not passed on.
\<close>

theorem listener_failure_ends_runner:
  assumes "https_start setup address c0 = (c, Inr ())"
    and "https_thread_setup t address = Inl panic"
    and "en_communication E = https_ops setup post" and "r_communication r = https_arrive (Thread_Started t address) c"
    and "grpc_start gsetup address g0 = (g, Inr ())"
    and "event = Serve_Failed err \<or> event = Runtime_Built (Inl err)"
    and "en_communication H = grpc_ops gsetup rpc" and "r_communication q = grpc_arrive event g"
    and "now < next_tick"
  shows "run_turns E ((now, cmd, report_now) # inputs) next_tick r = Some (r, next_tick, Failed Disconnected) \<and>
    run_turns H ((now, cmd, report_now) # inputs) next_tick q = Some (q, next_tick, Failed Disconnected)"
proof
  have "hc_inbound (r_communication r) = Some \<lparr>ch_queue = [], ch_open = False\<rparr>"
    using assms(1,2,4) by (auto simp: https_start_def https_arrive_def https_listen_def split: sum.splits)
  then have "process_communication E r = Some (r, Inl Disconnected)"
    using assms(3) by (subst process_communication.simps) (simp add: https_ops_def https_poll_def)
  then show "run_turns E ((now, cmd, report_now) # inputs) next_tick r = Some (r, next_tick, Failed Disconnected)"
    using assms(9) by (simp add: run_turn_def)
  have "gc_inbound (r_communication q) = Some \<lparr>ch_queue = [], ch_open = False\<rparr>"
    using assms(5,6,8) by (auto simp: grpc_start_def grpc_spawn_listener_def grpc_arrive_def grpc_listen_def split: sum.splits)
  then have "process_communication H q = Some (q, Inl Disconnected)"
    using assms(7) by (subst process_communication.simps) (simp add: grpc_ops_def grpc_poll_def Let_def)
  then show "run_turns H ((now, cmd, report_now) # inputs) next_tick q = Some (q, next_tick, Failed Disconnected)"
    using assms(9) by (simp add: run_turn_def)
qed

theorem listener_failure_ends_runner_witness:
  "run_turns grpc_env [(0, Some Shutdown, 0)] 5 ((grpc_runner [])
       \<lparr>r_communication := grpc_arrive (Serve_Failed (lit ''address in use'')) (fst (grpc_start free_setup (lit ''a'') (grpc_new 1 [])))\<rparr>) =
     Some ((grpc_runner [])
       \<lparr>r_communication := grpc_arrive (Serve_Failed (lit ''address in use'')) (fst (grpc_start free_setup (lit ''a'') (grpc_new 1 [])))\<rparr>,
       5, Failed Disconnected)"
proof -
  let ?t = "\<lparr>ht_runtime = Inr (), ht_private_key = Inr (), ht_server_config = Inr (), ht_parse_address = \<lambda>a. Inr (),
    ht_bind = \<lambda>a. Inl (lit ''in use'')\<rparr>"
  obtain c where c: "https_start tls_setup (lit ''a'') (https_new 1 []) = (c, Inr ())"
    by (simp add: https_start_def tls_setup_def)
  have p: "\<exists>panic. https_thread_setup ?t (lit ''a'') = Inl panic" by (simp add: https_thread_setup_def)
  obtain g where g: "grpc_start free_setup (lit ''a'') (grpc_new 1 []) = (g, Inr ())"
    by (simp add: grpc_start_def grpc_spawn_listener_def free_setup_def)
  obtain r :: "(https_communication, in_memory_storage, str list) runner"
    where r: "r_communication r = https_arrive (Thread_Started ?t (lit ''a'')) c"
    by (metis runner.select_convs(3))
  obtain panic where "https_thread_setup ?t (lit ''a'') = Inl panic" using p by blast
  from listener_failure_ends_runner [OF c this _ r g, of https_env _ "Serve_Failed (lit ''address in use'')" "lit ''address in use''"
      grpc_env _ "(grpc_runner []) \<lparr>r_communication := grpc_arrive (Serve_Failed (lit ''address in use'')) g\<rparr>" 0 5 "Some Shutdown" 0 "[]"]
  show ?thesis using g by (simp add: https_env_def grpc_env_def del: run_turns.simps)
qed

subsection \<open>Emptying the transport\<close>

text \<open>
  C34. A runner empties its transport. Over the gRPC and over the HTTPS transport the loop of
  \<open>process_communication\<close> makes at most one more poll than there are messages in the inbound queue:
  handlers send, but no send adds to the node's own queue. So the loop ends, with the outcome of
  \<open>process_communication\<close>; it fails to produce one only when a handler panics.
\<close>

theorem communication_loop_ends:
  assumes "en_communication E = grpc_ops setup rpc" and "en_communication H = https_ops hsetup post"
  shows "poll_loop (Suc (grpc_pending (r_communication r))) E r = Some (process_communication E r) \<and>
    poll_loop (Suc (https_pending (r_communication q))) H q = Some (process_communication H q)"
proof
  show "poll_loop (Suc (grpc_pending (r_communication r))) E r = Some (process_communication E r)"
    by (rule grpc.process_communication_ends) (simp_all add: assms(1) grpc_ops_def)
  show "poll_loop (Suc (https_pending (r_communication q))) H q = Some (process_communication H q)"
    by (rule https.process_communication_ends) (simp_all add: assms(2) https_ops_def)
qed

theorem communication_loop_ends_witness:
  "poll_loop 2 grpc_env (grpc_runner [vote_envelope]) = Some (process_communication grpc_env (grpc_runner [vote_envelope]))"
  using communication_loop_ends [of grpc_env _ _ https_env _ _ "grpc_runner [vote_envelope]"]
  by (simp add: grpc_env_def https_env_def grpc_runner_def grpc_pending_def numeral_2_eq_2)

end
