(* ===== verification/Cli.thy ===== *)
theory Cli
  imports Runner
begin

text \<open>
  The commands typed at the example programs, \<open>parse_command\<close> of
  \<open>raftust-examples/src/bin/{grpc_counter,grpc_in_memory,https_file}.rs\<close> (the same function in each).
\<close>

definition parse_command :: "str \<Rightarrow> command option" where
  "parse_command input =
     (if eq_ignore_ascii_case input (lit ''quit'') \<or> eq_ignore_ascii_case input (lit ''exit'') then Some Shutdown
      else if eq_ignore_ascii_case input (lit ''status'') then Some Status
      else if eq_ignore_ascii_case input (lit ''election'') then Some ForceElection
      else case strip_prefix (lit ''propose '') input of
        Some v \<Rightarrow> Some (Propose v)
      | None \<Rightarrow> None)"

text \<open>A proposal reaches the log with the text that was typed, and no other input proposes anything.\<close>

lemma parse_command_propose:
  "(parse_command input = Some (Propose v)) = (input = lit ''propose '' @ v)"
proof
  assume "parse_command input = Some (Propose v)"
  then show "input = lit ''propose '' @ v"
    by (auto simp: parse_command_def strip_prefix_Some_iff split: if_splits option.splits)
next
  assume i: "input = lit ''propose '' @ v"
  then have "to_ascii_lower (hd input) = 112" "length input \<ge> 8"
    by (simp_all add: lit_def to_ascii_lower_def)
  moreover have "eq_ignore_ascii_case input w \<Longrightarrow> length input = length w" for w
    unfolding eq_ignore_ascii_case_def by (metis length_map)
  moreover have "eq_ignore_ascii_case input w \<Longrightarrow> w \<noteq> [] \<Longrightarrow> to_ascii_lower (hd input) = to_ascii_lower (hd w)" for w
    unfolding eq_ignore_ascii_case_def by (cases input; cases w) auto
  ultimately have "\<not> eq_ignore_ascii_case input (lit ''quit'')" "\<not> eq_ignore_ascii_case input (lit ''exit'')"
    "\<not> eq_ignore_ascii_case input (lit ''status'')" "\<not> eq_ignore_ascii_case input (lit ''election'')"
    by (fastforce simp: lit_def to_ascii_lower_def)+
  then show "parse_command input = Some (Propose v)" by (simp add: parse_command_def i)
qed

end
