(* ===== verification/Programs.thy ===== *)
theory Programs
  imports Cli Restart Https Grpc
begin

text \<open>
  The example programs, \<open>raftust-examples/src/bin/{grpc_counter,grpc_in_memory,https_file}.rs\<close>: each
  parses its command line, reads commands from the standard input, and connects a transport, a storage
  and a state machine to a runner. The lines of the standard input are a list, \<open>None\<close> for a line that
  cannot be read. The \<open>schedule\<close> says when the clock is read, what the listener has received before each
  turn of the loop, and in which turns a typed command has arrived. The log lines are left out.
\<close>

subsection \<open>The thread that reads commands\<close>

text \<open>What it sends: it stops after \<open>Shutdown\<close> and at a line that cannot be read; unknown lines are skipped.\<close>

fun read_commands :: "str option list \<Rightarrow> command list" where
  "read_commands [] = []"
| "read_commands (None # lines) = []"
| "read_commands (Some line # lines) =
     (case parse_command (trim line) of
        Some cmd \<Rightarrow> if cmd = Shutdown then [cmd] else cmd # read_commands lines
      | None \<Rightarrow> read_commands lines)"

text \<open>
  The commands at the other end of the channel: the turns of the loop, each with what the listener got
  before it, its two clock readings and whether the next command has arrived. After the last one
  \<open>try_recv\<close> returns nothing.
\<close>

fun receive ::
  "('a list \<times> instant \<times> bool \<times> instant) list \<Rightarrow> command list \<Rightarrow>
     ('a list \<times> instant \<times> command option \<times> instant) list" where
  "receive [] cmds = []"
| "receive ((ms, now, arrived, report_now) # turns) [] = (ms, now, None, report_now) # receive turns []"
| "receive ((ms, now, arrived, report_now) # turns) (c # cmds) =
     (if arrived then (ms, now, Some c, report_now) # receive turns cmds
      else (ms, now, None, report_now) # receive turns (c # cmds))"

record 'a schedule =
  sd_created :: instant
  sd_entered :: instant
  sd_turns :: "('a list \<times> instant \<times> bool \<times> instant) list"

subsection \<open>A program\<close>

text \<open>\<open>Runner::run\<close>: the start, then the turns of the loop, with the arrivals before each.\<close>

fun serve_turns ::
  "('c, 's, 'm) runner_env \<Rightarrow> ('a \<Rightarrow> 'c \<Rightarrow> 'c) \<Rightarrow> ('a list \<times> instant \<times> command option \<times> instant) list \<Rightarrow> instant \<Rightarrow>
     ('c, 's, 'm) runner \<Rightarrow> (('c, 's, 'm) runner \<times> instant \<times> turn_end) option" where
  "serve_turns E arrive [] next_tick r = Some (r, next_tick, Continue)"
| "serve_turns E arrive ((ms, now, cmd, report_now) # inputs) next_tick r = do {
     (r, next_tick, e) \<leftarrow>
       run_turn E now cmd report_now next_tick (r\<lparr>r_communication := fold arrive ms (r_communication r)\<rparr>);
     (case e of Continue \<Rightarrow> serve_turns E arrive inputs next_tick r | _ \<Rightarrow> Some (r, next_tick, e))
   }"

definition runner_run ::
  "('c, 's, 'm) runner_env \<Rightarrow> ('a \<Rightarrow> 'c \<Rightarrow> 'c) \<Rightarrow> instant \<Rightarrow> ('a list \<times> instant \<times> command option \<times> instant) list \<Rightarrow>
     ('c, 's, 'm) runner \<Rightarrow> (('c, 's, 'm) runner \<times> turn_end) option" where
  "runner_run E arrive entered inputs r = do {
     (r, res) \<leftarrow> run_start E r;
     (case res of
        Inl err \<Rightarrow> Some (r, Failed err)
      | Inr _ \<Rightarrow> do {
          (r, next_tick, e) \<leftarrow> serve_turns E arrive inputs (entered + from_millis (cfg_tick_ms (r_config r))) r;
          Some (r, e)
        })
   }"

text \<open>How a program stands: still running, exit status 0, or exit status 1 with the fatal message.\<close>

datatype program_end = Running | Success | Fatal str

definition program_end :: "turn_end \<Rightarrow> program_end" where
  "program_end e =
     (case e of Continue \<Rightarrow> Running | Finished \<Rightarrow> Success | Failed err \<Rightarrow> Fatal (communication_error_text err))"

text \<open>
  The common end of the three \<open>run\<close> functions. The result holds the runner, from which the disk of a
  later process is taken; there is none when the command line is refused.
\<close>

definition run_program ::
  "('c, 's, 'm) runner_env \<Rightarrow> ('a \<Rightarrow> 'c \<Rightarrow> 'c) \<Rightarrow> nat \<Rightarrow> 'a schedule \<Rightarrow> str option list \<Rightarrow> raft_config \<Rightarrow> 'c \<Rightarrow> 's \<Rightarrow> 'm \<Rightarrow>
     (('c, 's, 'm) runner option \<times> program_end) option" where
  "run_program E arrive k sd lines config communication storage machine = do {
     r \<leftarrow> runner_new E k (sd_created sd) config communication storage machine;
     (r, e) \<leftarrow> runner_run E arrive (sd_entered sd) (receive (sd_turns sd) (read_commands lines)) r;
     Some (Some r, program_end e)
   }"

subsection \<open>The three programs\<close>

definition grpc_counter_env ::
  "gen_range \<Rightarrow> grpc_setup \<Rightarrow> grpc_call \<Rightarrow> (grpc_communication, in_memory_storage, counter_state_machine) runner_env" where
  "grpc_counter_env rng setup rpc =
     \<lparr>en_communication = grpc_ops setup rpc, en_storage = in_memory_ops, en_machine = counter_ops, en_rng = rng\<rparr>"

definition grpc_counter_run ::
  "gen_range \<Rightarrow> nat \<Rightarrow> grpc_setup \<Rightarrow> grpc_call \<Rightarrow> str list \<Rightarrow> str option list \<Rightarrow> grpc_event schedule \<Rightarrow>
     ((grpc_communication, in_memory_storage, counter_state_machine) runner option \<times> program_end) option" where
  "grpc_counter_run rng k setup rpc args lines sd =
     (case parse_config args of
        Inl err \<Rightarrow> Some (None, Fatal err)
      | Inr config \<Rightarrow>
          run_program (grpc_counter_env rng setup rpc) grpc_arrive k sd lines config
            (grpc_new (cfg_id config) (cfg_peer_addrs config)) in_memory_new counter_new)"

definition grpc_in_memory_env ::
  "kv_json \<Rightarrow> gen_range \<Rightarrow> grpc_setup \<Rightarrow> grpc_call \<Rightarrow> (grpc_communication, in_memory_storage, kv_state_machine) runner_env" where
  "grpc_in_memory_env K rng setup rpc =
     \<lparr>en_communication = grpc_ops setup rpc, en_storage = in_memory_ops, en_machine = kv_ops K, en_rng = rng\<rparr>"

definition grpc_in_memory_run ::
  "kv_json \<Rightarrow> gen_range \<Rightarrow> nat \<Rightarrow> grpc_setup \<Rightarrow> grpc_call \<Rightarrow> str list \<Rightarrow> str option list \<Rightarrow> grpc_event schedule \<Rightarrow>
     ((grpc_communication, in_memory_storage, kv_state_machine) runner option \<times> program_end) option" where
  "grpc_in_memory_run K rng k setup rpc args lines sd =
     (case parse_config args of
        Inl err \<Rightarrow> Some (None, Fatal err)
      | Inr config \<Rightarrow>
          run_program (grpc_in_memory_env K rng setup rpc) grpc_arrive k sd lines config
            (grpc_new (cfg_id config) (cfg_peer_addrs config)) in_memory_new kv_new)"

text \<open>
  \<open>RAFTUST_STORAGE_DIR\<close> is \<open>root_var\<close>, as the components of the path. The disk outlives the process.
\<close>

definition storage_dir :: "path option \<Rightarrow> node_id \<Rightarrow> path" where
  "storage_dir root_var i =
     (case root_var of Some root \<Rightarrow> root | None \<Rightarrow> [lit ''.raftust-data'']) @ [lit ''node-'' @ u64_to_string i]"

definition node_storage :: "path option \<Rightarrow> raft_config \<Rightarrow> file_storage" where
  "node_storage root_var config = file_storage_new (storage_dir root_var (cfg_id config))"

record https_file_world =
  hw_json :: snapshot_json
  hw_kv_json :: kv_json
  hw_setup :: https_setup
  hw_post :: http_post
  hw_rng :: gen_range
  hw_root_var :: "path option"

definition https_file_env ::
  "https_file_world \<Rightarrow> (https_communication, file_storage \<times> disk, kv_state_machine) runner_env" where
  "https_file_env w =
     \<lparr>en_communication = https_ops (hw_setup w) (hw_post w), en_storage = file_ops (hw_json w),
      en_machine = kv_ops (hw_kv_json w), en_rng = hw_rng w\<rparr>"

definition https_file_run ::
  "https_file_world \<Rightarrow> nat \<Rightarrow> str list \<Rightarrow> str option list \<Rightarrow> https_event schedule \<Rightarrow> disk \<Rightarrow>
     ((https_communication, file_storage \<times> disk, kv_state_machine) runner option \<times> program_end) option" where
  "https_file_run w k args lines sd d =
     (case parse_config args of
        Inl err \<Rightarrow> Some (None, Fatal err)
      | Inr config \<Rightarrow>
          run_program (https_file_env w) https_arrive k sd lines config
            (https_new (cfg_id config) (cfg_peer_addrs config))
            (node_storage (hw_root_var w) config, d) kv_new)"

subsection \<open>What is read and received\<close>

text \<open>\<open>Shutdown\<close> is the last command sent, if it is sent.\<close>

lemma read_commands_shutdown: "Shutdown \<notin> set (butlast (read_commands lines))"
  by (induction lines rule: read_commands.induct) (auto split: option.splits)

lemma parse_quit: "parse_command (lit ''quit'') = Some Shutdown"
  by (simp add: parse_command_def eq_ignore_ascii_case_def)

text \<open>The commands that the loop receives are a prefix of those sent, in order.\<close>

lemma receive_prefix:
  "\<exists>rest. cmds = List.map_filter (\<lambda>(ms, now, c, report_now). c) (receive turns cmds) @ rest"
  by (induction turns cmds rule: receive.induct) (auto simp: List.map_filter_simps)

lemma receive_length [simp]: "length (receive turns cmds) = length turns"
  by (induction turns cmds rule: receive.induct) auto

subsection \<open>A program is a start and a run of the loop\<close>

lemma serve_turns_rule:
  assumes comm: "\<And>r c. P r \<Longrightarrow> P (r\<lparr>r_communication := c\<rparr>)"
    and step: "\<And>ev r r'. P r \<Longrightarrow> runner_step E ev r = Some r' \<Longrightarrow> P r'"
    and metrics: "\<And>r t. P r \<Longrightarrow>
      P (r\<lparr>r_inbound_count := 0, r_applied_count := 0, r_dropped_outbound := 0, r_last_report_at := t\<rparr>)"
  shows "serve_turns E arrive inputs next_tick r = Some (r', next_tick', e) \<Longrightarrow> P r \<Longrightarrow> P r'"
proof (induction inputs arbitrary: next_tick r)
  case (Cons i inputs)
  obtain ms now cmd report_now where i: "i = (ms, now, cmd, report_now)" by (cases i) auto
  let ?r = "r\<lparr>r_communication := fold arrive ms (r_communication r)\<rparr>"
  obtain r1 t1 e1 where t: "run_turn E now cmd report_now next_tick ?r = Some (r1, t1, e1)"
    and rest: "(case e1 of Continue \<Rightarrow> serve_turns E arrive inputs t1 r1 | _ \<Rightarrow> Some (r1, t1, e1)) = Some (r', next_tick', e)"
    using Cons.prems(1) i by (auto simp: bind_Some_iff)
  have "P r1" by (rule run_turn_rule [of _ _ _ _ _ _ _ _ _ P, OF t comm [OF Cons.prems(2)] comm step metrics])
  then show ?case using rest Cons.IH by (cases e1) auto
qed simp

lemma run_program_Some:
  assumes "run_program E arrive k sd lines cfg c s m = Some (o1, e)"
  obtains r0 res where "restart E k (sd_created sd) cfg c s m = Some (r0, res)"
    and "\<And>err. res = Inl err \<Longrightarrow> o1 = Some r0 \<and> e = Fatal (communication_error_text err)"
    and "res = Inr () \<Longrightarrow> \<exists>r next_tick x. o1 = Some r \<and> e = program_end x \<and>
      serve_turns E arrive (receive (sd_turns sd) (read_commands lines))
        (sd_entered sd + from_millis (cfg_tick_ms (r_config r0))) r0 = Some (r, next_tick, x)"
proof -
  obtain r1 r x where new: "runner_new E k (sd_created sd) cfg c s m = Some r1"
    and run: "runner_run E arrive (sd_entered sd) (receive (sd_turns sd) (read_commands lines)) r1 = Some (r, x)"
    and e: "o1 = Some r" "e = program_end x"
    using assms by (auto simp: run_program_def bind_Some_iff)
  obtain r0 res where start: "run_start E r1 = Some (r0, res)"
    using run by (auto simp: runner_run_def bind_Some_iff)
  have "restart E k (sd_created sd) cfg c s m = Some (r0, res)" using new start by (simp add: restart_def)
  then show thesis
  proof (rule that)
    show "o1 = Some r0 \<and> e = Fatal (communication_error_text err)" if "res = Inl err" for err
      using run start e that by (auto simp: runner_run_def program_end_def)
    show "\<exists>r next_tick x. o1 = Some r \<and> e = program_end x \<and>
        serve_turns E arrive (receive (sd_turns sd) (read_commands lines))
          (sd_entered sd + from_millis (cfg_tick_ms (r_config r0))) r0 = Some (r, next_tick, x)" if "res = Inr ()"
      using run start e that by (auto simp: runner_run_def bind_Some_iff)
  qed
qed

lemma run_program_start:
  assumes "restart E k (sd_created sd) cfg c s m = Some (r, Inr ())" and "sd_turns sd = []"
  shows "run_program E arrive k sd lines cfg c s m = Some (Some r, Running)"
  using assms by (auto simp: restart_def run_program_def runner_run_def bind_Some_iff program_end_def)

text \<open>What a program with a file storage keeps, whatever is typed and whatever arrives.\<close>

lemma serve_turns_backed:
  assumes "serve_turns E arrive inputs next_tick r = Some (r', next_tick', e)" and "en_storage E = file_ops J"
    and "gen_range_ok (en_rng E)" and "file_good J (r_storage r)" and "backed E r" and "runner_ok r"
  shows "backed E r'" and "runner_ok r'" and "r_config r' = r_config r" and "fst (r_storage r') = fst (r_storage r)"
proof -
  let ?P = "\<lambda>q. backed E q \<and> file_good J (r_storage q) \<and> runner_ok q \<and> r_config q = r_config r \<and>
    fst (r_storage q) = fst (r_storage r)"
  have "?P r'"
  proof (rule serve_turns_rule [where P = ?P, OF _ _ _ assms(1)])
    show "?P q'" if "?P q" "runner_step E ev q = Some q'" for ev q q'
    proof -
      have s: "saves E q q'" by (rule step_saves [OF that(2)])
      then have "fst (r_storage q') = fst (r_storage q)"
        using assms(2) by (auto simp: saves_def file_ops_def file_save_def Let_def)
      moreover have "runner_ok q'" using runner_step_ok [OF assms(3) _ that(2)] that(1) by blast
      ultimately show ?thesis
        using that(1) file_durable.saved_or_same(1,3) [OF assms(2) _ s] runner_step_config [OF that(2)] by simp
    qed
  qed (use assms(4-6) in \<open>simp_all add: runner_ok_def\<close>)
  then show "backed E r'" "runner_ok r'" "r_config r' = r_config r" "fst (r_storage r') = fst (r_storage r)" by blast+
qed

text \<open>The HTTPS transport starts when the three steps of its set-up succeed.\<close>

definition https_setup_ok :: "https_setup \<Rightarrow> bool" where
  "https_setup_ok st \<longleftrightarrow> (case hs_provider_cell st of Some r \<Rightarrow> r = Inr () | None \<Rightarrow> hs_aws_lc_rs st \<or> hs_ring st) \<and>
     hs_certificate st = Inr () \<and> hs_client st = Inr ()"

lemma https_start_ok: "https_setup_ok st \<Longrightarrow> snd (https_start st a c) = Inr ()"
  by (auto simp: https_setup_ok_def https_start_def ensure_rustls_provider_installed_def Let_def split: option.splits)

end
