(* ===== verification/Program_Properties.thy ===== *)
theory Program_Properties
  imports Programs Codec Samples
begin

text \<open>Properties of the example programs as a whole, from the command line to the disk.\<close>

subsection \<open>Inputs of the witnesses\<close>

definition pair_config :: raft_config where
  "pair_config =
     \<lparr>cfg_id = 1, cfg_addr = lit ''a'', cfg_peer_addrs = [(2, lit ''b'')],
      cfg_election_timeout_min_ticks = 10, cfg_election_timeout_max_ticks = 20,
      cfg_heartbeat_interval_ticks = 4, cfg_tick_ms = 100, cfg_log_compaction_threshold = 128,
      cfg_report_metrics_interval_ticks = 100\<rparr>"

lemma pair_config_ok: "config_ok pair_config" "config_u64 pair_config"
  by (simp_all add: pair_config_def config_ok_def config_u64_def hm_ok_def hm_keys_def u64_limit_def)

definition pair_world :: https_file_world where
  "pair_world =
     \<lparr>hw_json = number_json, hw_kv_json = number_kv_json,
      hw_setup = \<lparr>hs_provider_cell = None, hs_aws_lc_rs = True, hs_ring = True, hs_certificate = Inr (), hs_client = Inr ()\<rparr>,
      hw_post = \<lambda>url msg. Http_Status 200, hw_rng = min_rng, hw_root_var = None\<rparr>"

text \<open>A request of node 2 for a vote in term 5.\<close>

definition vote_request :: wire_message where
  "vote_request = \<lparr>wm_from = 2, wm_to = 1, wm_payload = WireRequestVote 5 2 0 0\<rparr>"

definition empty_disk :: disk where
  "empty_disk = \<lparr>fd_dirs = [[]], fd_files = [], fd_unreadable = [], fd_faults = []\<rparr>"

lemmas eval_program = runner_step_def on_tick_def process_command_def settle_def persist_def
  process_message_def on_request_vote_def answer_request_vote_def maybe_compact_log_def apply_committed_entries_def send_or_log_def outbound_to_def from_node_def
  runner_new_def node_of_config_def run_start_def kv_new_def

subsection \<open>The program with files\<close>

text \<open>
  C22. \<open>https_file\<close> recovers. Start the program with a valid command line on a disk that holds no
  snapshot for this node, or one that is its own, type any lines, let any messages arrive at its listener,
  and stop it after any turn of its loop, by a command, an error of the transport or from outside. Start it again
  with the same arguments on the disk that is left: it comes up as a follower with the term, the vote,
  the log and the snapshot position that it had.
\<close>

theorem https_file_recovers:
  assumes "parse_config args = Inr cfg" and "snapshot_json_ok (hw_json w)" and "gen_range_ok (hw_rng w)"
    and "https_setup_ok (hw_setup w)" and "disk_clean (node_storage (hw_root_var w) cfg) d"
    and "\<forall>x. file_load (hw_json w) (node_storage (hw_root_var w) cfg, d) (cfg_id cfg) = Some x \<longrightarrow> ss_node_id x = cfg_id cfg"
    and "https_file_run w k args lines sd d = Some (Some r, e)" and "log_end (r_node r) < u64_limit"
    and "sd_turns sd2 = []"
  shows "\<exists>r2. https_file_run w k2 args lines2 sd2 (snd (r_storage r)) = Some (Some r2, Running) \<and>
    role (r_node r2) = Follower \<and> current_term (r_node r2) = current_term (r_node r) \<and>
    voted_for (r_node r2) = voted_for (r_node r) \<and> log (r_node r2) = log (r_node r) \<and>
    snapshot_last_included_index (r_node r2) = snapshot_last_included_index (r_node r) \<and>
    snapshot_last_included_term (r_node r2) = snapshot_last_included_term (r_node r)"
proof -
  let ?E = "https_file_env w" and ?s = "node_storage (hw_root_var w) cfg" and ?c = "https_new (cfg_id cfg) (cfg_peer_addrs cfg)"
  have E: "en_storage ?E = file_ops (hw_json w)" "gen_range_ok (en_rng ?E)"
      "snd (co_start (en_communication ?E) (cfg_addr cfg) ?c) = Inr ()"
    using assms(3) https_start_ok [OF assms(4)] by (simp_all add: https_file_env_def https_ops_def)
  have c: "config_ok cfg" "config_u64 cfg" using parse_config_Inr [OF assms(1)] by simp_all
  have good: "file_good (hw_json w) (?s, d)" using assms(2,5) by (simp add: file_good_def)
  have run: "run_program ?E https_arrive k sd lines cfg ?c (?s, d) kv_new = Some (Some r, e)"
    using assms(7,1) by (simp add: https_file_run_def)
  obtain r0 res where 0: "restart ?E k (sd_created sd) cfg ?c (?s, d) kv_new = Some (r0, res)"
    and turns: "res = Inr () \<Longrightarrow> \<exists>r' next_tick x. Some r = Some r' \<and> e = program_end x \<and>
      serve_turns ?E https_arrive (receive (sd_turns sd) (read_commands lines))
        (sd_entered sd + from_millis (cfg_tick_ms (r_config r0))) r0 = Some (r', next_tick, x)"
    using run_program_Some [OF run] by metis
  have res: "res = Inr ()" using restart_started [OF 0] E(3) by simp
  then obtain next_tick x where t: "serve_turns ?E https_arrive (receive (sd_turns sd) (read_commands lines))
      (sd_entered sd + from_millis (cfg_tick_ms (r_config r0))) r0 = Some (r, next_tick, x)"
    using turns by blast
  have own: "ss_node_id y = cfg_id cfg" if "st_load (en_storage ?E) (?s, d) (cfg_id cfg) = Some y" for y
    using assms(6) that E(1) by (simp add: file_ops_def)
  note b0 = restart_makes_backed [OF 0 [unfolded res] E(2) c(2) own]
  note b = serve_turns_backed [OF t E(1,2) _ b0(1,2)]
  have g: "file_good (hw_json w) (r_storage r0)" using b0(4) good by simp
  have cfg: "r_config r = cfg" using b(3) [OF g] b0(3) by simp
  have dir: "r_storage r = (?s, snd (r_storage r))" using b(4) [OF g] b0(4) by (metis fst_conv prod.collapse)
  obtain r2 where r2: "restart ?E k2 (sd_created sd2) cfg ?c (r_storage r) kv_new = Some (r2, Inr ())"
    using restart_backed_total [OF b(1) [OF g] b(2) [OF g] _ assms(8), of ?c k2 "sd_created sd2" kv_new] c(1) E(3) cfg by auto
  have "https_file_run w k2 args lines2 sd2 (snd (r_storage r)) = Some (Some r2, Running)"
    using run_program_start [OF r2 assms(9)] dir assms(1) by (simp add: https_file_run_def)
  moreover have "node_view (r_node r2) = node_view (r_node r)" "role (r_node r2) = Follower"
    using restart_backed(1,2) [of ?E k2 "sd_created sd2" r ?c kv_new r2] r2 b(1,2) [OF g] c(2) E(2) cfg by simp_all
  ultimately show ?thesis by (metis node_view_fields)
qed

theorem https_file_recovers_witness:
  "\<exists>r r2. https_file_run pair_world 0 (config_args pair_config) [Some (lit ''election''), Some (lit ''quit'')]
       \<lparr>sd_created = 0, sd_entered = 0, sd_turns = [([], 5, True, 5), ([Http_Request (lit ''POST'') (lit ''/raft'') (Some vote_request)], 10, True, 10)]\<rparr> empty_disk = Some (Some r, Success) \<and>
     https_file_run pair_world 7 (config_args pair_config) [] \<lparr>sd_created = 20, sd_entered = 20, sd_turns = []\<rparr>
       (snd (r_storage r)) = Some (Some r2, Running) \<and>
     current_term (r_node r2) = 5 \<and> voted_for (r_node r2) = Some 2"
proof -
  have args: "parse_config (config_args pair_config) = Inr pair_config"
    by (rule parse_config_args [OF pair_config_ok])
  have disk: "disk_clean (node_storage (hw_root_var pair_world) pair_config) empty_disk"
    by (simp add: disk_clean_def empty_disk_def snapshot_path_def temp_snapshot_path_def node_storage_def storage_dir_def
        file_storage_new_def)
  have typed: "read_commands [Some (lit ''election''), Some (lit ''quit'')] = [ForceElection, Shutdown]"
    by (simp add: parse_command_def eq_ignore_ascii_case_def trim_def is_whitespace_def lit_def to_ascii_lower_def)
  have none: "file_load (hw_json pair_world) (node_storage (hw_root_var pair_world) pair_config, empty_disk)
      (cfg_id pair_config) = None"
    by (simp add: file_load_def load_snapshot_file_def fs_read_to_string_def empty_disk_def)
  let ?sd = "\<lparr>sd_created = 0, sd_entered = 0, sd_turns = [([], 5, True, 5), ([Http_Request (lit ''POST'') (lit ''/raft'') (Some vote_request)], 10, True, 10)]\<rparr>"
  let ?lines = "[Some (lit ''election''), Some (lit ''quit'')]"
  obtain r where p: "run_program (https_file_env pair_world) https_arrive 0 ?sd ?lines pair_config
      (https_new (cfg_id pair_config) (cfg_peer_addrs pair_config))
      (node_storage (hw_root_var pair_world) pair_config, empty_disk) kv_new = Some (Some r, Success)"
    and f: "current_term (r_node r) = 5" "voted_for (r_node r) = Some 2" "log_end (r_node r) < u64_limit"
    using none
    by (simp add: run_program_def runner_run_def typed pair_config_def https_file_env_def
        https_ops_def https_new_def https_start_def https_poll_def https_send_def pair_world_def file_ops_def
        run_turn_def process_communication.simps maybe_report_runtime_metrics_def from_millis_def program_end_def
        https_arrive_def https_listen_def https_route_def handle_raft_def try_send_def channel_bound_def vote_request_def wire_to_message_def
        eval_program eval_node log_end_def is_success_def del: read_commands.simps)
  then have r: "https_file_run pair_world 0 (config_args pair_config) ?lines ?sd empty_disk = Some (Some r, Success)"
    using args by (simp add: https_file_run_def)
  show ?thesis
    using https_file_recovers [of "config_args pair_config" pair_config pair_world empty_disk 0
        "[Some (lit ''election''), Some (lit ''quit'')]"
        "\<lparr>sd_created = 0, sd_entered = 0, sd_turns = [([], 5, True, 5), ([Http_Request (lit ''POST'') (lit ''/raft'') (Some vote_request)], 10, True, 10)]\<rparr>" r Success
        "\<lparr>sd_created = 20, sd_entered = 20, sd_turns = []\<rparr>" 7 "[]"]
      args disk none r f
    by (auto simp: pair_world_def number_json_ok min_rng_ok https_setup_ok_def)
qed

end
