(* ===== verification/Replicated.thy ===== *)
theory Replicated
  imports Commit_Cluster Restart
begin

text \<open>
  The cluster as one replicated state machine: in clean runs there is one list of commands, and the
  machine of every node has run a prefix of it, as long as its commit index. The commands of a log are
  those on the path of the history to its tip, so that compaction does not hide them.
\<close>

subsection \<open>The commands on the way to a point\<close>

inductive path :: "history \<Rightarrow> point \<Rightarrow> str list \<Rightarrow> bool" for H where
  root: "path H (0, 0) []"
| further: "path H (k, u) cs \<Longrightarrow> (Suc k, t, c, u) \<in> H \<Longrightarrow> path H (Suc k, t) (cs @ [c])"

inductive_cases path_SucE: "path H (Suc k, t) cs"

lemma path_mono: "path H p cs \<Longrightarrow> H \<subseteq> H' \<Longrightarrow> path H' p cs"
  by (induction rule: path.induct) (blast intro: path.intros)+

lemma path_length: "path H p cs \<Longrightarrow> length cs = fst p"
  by (induction rule: path.induct) simp_all

lemma path_unique:
  assumes "functional H"
  shows "path H p xs \<Longrightarrow> path H p ys \<Longrightarrow> xs = ys"
proof (induction arbitrary: ys rule: path.induct)
  case root
  then show ?case using path_length [of H "(0, 0)" ys] by simp
next
  case (further k u cs t c)
  from further.prems obtain u' c' cs' where h: "path H (k, u') cs'" "(Suc k, t, c', u') \<in> H" "ys = cs' @ [c']"
    by (rule path_SucE)
  then have "c' = c \<and> u' = u" using assms further.hyps(2) unfolding functional_def by blast
  then show ?case using further.IH h by blast
qed

lemma path_prefix:
  assumes "functional H"
  shows "below H a b \<Longrightarrow> path H a xs \<Longrightarrow> path H b ys \<Longrightarrow> \<exists>zs. ys = xs @ zs"
proof (induction arbitrary: ys rule: below.induct)
  case (self p)
  then have "ys = xs" using path_unique [OF assms] by blast
  then show ?case by simp
next
  case (up p k u t c)
  from up.prems(2) obtain u' c' cs' where h: "path H (k, u') cs'" "(Suc k, t, c', u') \<in> H" "ys = cs' @ [c']"
    by (rule path_SucE)
  then have "u' = u" using assms(1) up.hyps(2) unfolding functional_def by blast
  then obtain zs where "cs' = xs @ zs" using up.IH [OF up.prems(1)] h(1) by blast
  then show ?case using h(3) by simp
qed

lemma path_exists:
  assumes "rooted H"
  shows "pt H (k, t) \<Longrightarrow> \<exists>cs. path H (k, t) cs"
proof (induction k arbitrary: t)
  case 0
  then have "(0, t) = (0 :: nat, 0 :: term_no)" using proposed_index [OF assms] unfolding pt_def by fastforce
  then show ?case using path.root by auto
next
  case (Suc k)
  then obtain c u where h: "(Suc k, t, c, u) \<in> H" by (auto simp: pt_def proposed_def)
  then have "pt H (k, u)" using rootedD [OF assms] by fastforce
  then show ?case using Suc.IH further h by blast
qed

lemma root_below:
  assumes "rooted H" and "pt H p"
  shows "below H (0, 0) p"
proof -
  obtain u where u: "below H (0, u) p" using below_at [OF assms(1), of "fst p" "snd p" 0] assms(2) by auto
  have "pt H (0, u)" by (rule pt_below [OF u assms])
  then have "u = 0" using proposed_index [OF assms(1)] unfolding pt_def by fastforce
  then show ?thesis using u by simp
qed

lemma below_same_fst: "functional H \<Longrightarrow> below H a p \<Longrightarrow> below H b p \<Longrightarrow> fst a = fst b \<Longrightarrow> a = b"
  using below_comparable [of H a p b] below_index [of H b a] by auto

text \<open>Entries of a log that follow a point of its path.\<close>

lemma path_entries:
  assumes "functional H" and "log_based H n" and "below H a (tip n)" and "path H a cs"
  shows "(\<And>k. k < length es \<Longrightarrow> entry_at n (fst a + 1 + k) = Some (es ! k)) \<Longrightarrow>
    \<exists>b. fst b = fst a + length es \<and> below H b (tip n) \<and> path H b (cs @ map le_command es)"
proof (induction es rule: rev_induct)
  case Nil
  then show ?case using assms(3,4) by (intro exI [of _ a]) simp
next
  case (snoc e es)
  have "entry_at n (fst a + 1 + k) = Some (es ! k)" if "k < length es" for k
    using snoc.prems [of k] that by (simp add: nth_append)
  then obtain b where b: "fst b = fst a + length es" "below H b (tip n)" "path H b (cs @ map le_command es)"
    using snoc.IH by blast
  have e: "entry_at n (Suc (fst b)) = Some e" using snoc.prems [of "length es"] b(1) by simp
  obtain u where u: "term_at n (fst b) = Some u" "(Suc (fst b), le_term e, le_command e, u) \<in> H"
    using entry_at_history [OF assms(2) e] by auto
  have "b = (fst b, u)" by (rule below_same_fst [OF assms(1) b(2) term_at_below [OF assms(2) u(1)]]) simp
  then have "path H (Suc (fst b), le_term e) ((cs @ map le_command es) @ [le_command e])"
    using further b(3) u(2) by metis
  moreover have "below H (Suc (fst b), le_term e) (tip n)" by (rule entry_below(1) [OF assms(2) e])
  ultimately show ?case using b(1) by (intro exI [of _ "(Suc (fst b), le_term e)"]) simp
qed

subsection \<open>What is committed stays\<close>

lemma step_keeps_root:
  assumes "clean_in rng ids H S N net el i ev n n' outs" and "below H a (tip n)" and "fst a = 0"
  shows "below (propose_history ev n H) a (tip n')"
proof -
  note c = clean_inD [OF assms(1)]
  note r = history_treeD(2) [OF commit_invD(3) [OF c(1)]] and r' = history_treeD(2) [OF step_tree [OF assms(1)]]
  have "pt H a" by (rule pt_below [OF assms(2) r step_pt [OF c(1,6)]])
  then have "a = (0, 0)" using proposed_index [OF r] assms(3) unfolding pt_def by fastforce
  then show ?thesis
    using root_below [OF r'] step_snapshot(2) [OF commit_invD(1,2) [OF c(1)] c(2) tips_okD(1) [OF c(1,6)] r'] by simp
qed

lemma step_keeps_committed:
  assumes "clean_in rng ids H S N net el i ev n n' outs" and "below H a (tip n)" and "fst a \<le> commit_index n"
  shows "below (propose_history ev n H) a (tip n')"
proof (cases "commit_index n = 0")
  case True
  then show ?thesis using step_keeps_root [OF assms(1,2)] assms(3) by simp
next
  case False
  note c = clean_inD [OF assms(1)]
  note inv = commit_invD [OF c(1)]
  have m: "below (propose_history ev n H) a (tip n)" by (rule below_mono [OF assms(2) propose_history_mono])
  show ?thesis
    using c(5)
  proof cases
    case (following s req)
    let ?p = "request_end req"
    have net: "(s, i, AppendEntries req) \<in> net" using event_packet c(7) following(1) by blast
    note r = request_okD [OF c(1) net]
    show ?thesis
    proof (cases "below H ?p (tip n)")
      case True
      then show ?thesis using m following(6) by simp
    next
      case cut: False
      obtain b q where b: "fst b = commit_index n" "below H b (tip n)" "below H b q" "committed ids H net el q"
          "snd q \<le> current_term n"
        using commit_atE [OF commits_okD(1) [OF c(1,6)]] False by blast
      have "below H a b" by (rule below_comparable [OF history_treeD(1) [OF inv(3)] b(2) assms(2)]) (use b(1) assms(3) in simp)
      then have aq: "below H a q" using below_trans [OF b(3)] by blast
      have q: "proposed H q" using b(4) unfolding committed_def by blast
      have t: "snd q \<le> ae_term req" using b(5) following(2) by simp
      have "below H a ?p"
        by (rule not_cut_off [OF inv(3) r(1) q t committed_base [OF c(1,11) b(4) r(2)] aq assms(2) cut])
      then show ?thesis using below_mono [OF _ propose_history_mono] following(6) cut by simp
    qed
  next
    case (appending v)
    then have "(Suc (log_end n), current_term n, v, last_term n) \<in> propose_history ev n H"
      by (simp add: propose_history_def)
    then show ?thesis unfolding appending(5) by (rule up [OF m [unfolded tip_def]])
  qed (use m in simp_all)
qed

lemma step_commit_mono:
  assumes "clean_in rng ids H S N net el i ev n n' outs"
  shows "commit_index n \<le> commit_index n'"
proof -
  note c = clean_inD [OF assms]
  have le: "commit_index n \<le> log_end n" using commit_at_fst [OF commits_okD(1) [OF c(1,6)]] by simp
  show ?thesis
    using c(5)
  proof cases
    case (following s req)
    have "ae_leader_commit req \<le> log_end n'"
      using commit_at_fst [OF follower_commit(2) [OF assms following(1,2,6)]] by simp
    then show ?thesis using following(7) by auto
  next
    case (counting s resp k)
    then show ?thesis using counted_committed(3) [OF assms counting(3,1,2,5,8)] by fastforce
  next
    case (appending v)
    have "log_end n' = Suc (log_end n)" using appending(5) by (simp add: tip_def)
    then show ?thesis using appending(7) le by auto
  qed simp_all
qed

lemma node_commit_le: "commit_inv ids H S N net el \<Longrightarrow> N i = Some n \<Longrightarrow> commit_index n \<le> log_end n"
  using commit_at_fst [OF commits_okD(1)] by simp

lemma react_applied:
  assumes "react rng ev n = Some (m, outs)"
  shows "last_applied m = last_applied n" and "snapshot_last_included_index m = snapshot_last_included_index n"
proof -
  have tick: "last_applied b = last_applied a" if "tick rng a = Some (b, ms)" for a b ms
    using that by (cases rule: tick_cases) (auto simp: start_election_Some_iff)
  show "last_applied m = last_applied n"
  proof (cases ev)
    case (Received s msg)
    show ?thesis
    proof (cases msg)
      case (RequestVote req)
      then show ?thesis using assms Received
        by (auto simp: react_def react_message_def dest!: handle_request_vote_effect)
    next
      case (RequestVoteResponse resp)
      then obtain k b where k: "handle_request_vote_response rng resp n = Some (k, b)"
          "m = k \<or> (\<exists>ms. tick rng k = Some (m, ms))"
        using assms Received by (auto simp: react_def react_message_def bind_Some_iff split: if_splits)
      have "last_applied k = last_applied n" using handle_request_vote_response_effect [OF k(1)] by blast
      then show ?thesis using k(2) tick by auto
    next
      case (AppendEntries req)
      then obtain r where "handle_append_entries rng req n = Some (m, r)"
        using assms Received by (auto simp: react_def react_message_def)
      then show ?thesis
        by (cases rule: handle_append_entries_cases) (auto dest!: ae_step_down_effect ae_accept_effect)
    next
      case (AppendEntriesResponse resp)
      then show ?thesis using assms Received
        by (auto simp: react_def react_message_def become_follower_Some_iff dest!: handle_append_entries_response_effect)
    qed (use assms Received in \<open>auto simp: react_def react_message_def\<close>)
  next
    case Ticked
    then show ?thesis using assms tick by (auto simp: react_def)
  next
    case (Commanded cmd)
    then show ?thesis using assms
      by (cases cmd) (auto simp: react_def start_election_Some_iff dest!: propose_command_effect)
  qed
  show "snapshot_last_included_index m = snapshot_last_included_index n"
    using react_log [OF assms] by cases (simp_all add: same_log_def)
qed

subsection \<open>The machine of a node\<close>

text \<open>Everything committed is applied, and the machine has run the commands on the way there.\<close>

definition replicated :: "history \<Rightarrow> ('m \<Rightarrow> str \<Rightarrow> 'm) \<Rightarrow> 'm \<Rightarrow> raft_node \<Rightarrow> 'm \<Rightarrow> bool" where
  "replicated H ap m0 n m \<longleftrightarrow> last_applied n = commit_index n \<and>
     (\<exists>a cs. fst a = commit_index n \<and> below H a (tip n) \<and> path H a cs \<and> m = sm_run ap cs m0)"

lemma replicatedE:
  assumes "replicated H ap m0 n m"
  obtains a cs where "last_applied n = commit_index n" and "fst a = commit_index n" and "below H a (tip n)"
    and "path H a cs" and "m = sm_run ap cs m0"
  using assms unfolding replicated_def by blast

lemma replicatedI:
  "last_applied n = commit_index n \<Longrightarrow> fst a = commit_index n \<Longrightarrow> below H a (tip n) \<Longrightarrow> path H a cs \<Longrightarrow>
     replicated H ap m0 n (sm_run ap cs m0)"
  unfolding replicated_def by blast

lemma replicated_mono:
  assumes "replicated H ap m0 n m" and "H \<subseteq> H'"
  shows "replicated H' ap m0 n m"
proof -
  obtain a cs where a: "last_applied n = commit_index n" "fst a = commit_index n" "below H a (tip n)"
      "path H a cs" "m = sm_run ap cs m0"
    using replicatedE [OF assms(1)] .
  show ?thesis unfolding a(5) by (rule replicatedI [OF a(1,2) below_mono [OF a(3) assms(2)] path_mono [OF a(4) assms(2)]])
qed

text \<open>A handler that applies gives the machine the commands between the old commit index and the new one.\<close>

lemma handled_replicated:
  assumes c: "clean_in rng ids H S N net el i ev (r_node r) (r_node r') outs"
    and m: "react rng ev (r_node r) = Some (m, outs)" and h: "handled E r (m, outs) r'"
    and old: "replicated H (sm_apply (en_machine E)) m0 (r_node r) (r_machine r)"
  shows "replicated (propose_history ev (r_node r) H) (sm_apply (en_machine E)) m0 (r_node r') (r_machine r')"
proof -
  let ?n = "r_node r" and ?n' = "r_node r'" and ?H = "propose_history ev (r_node r) H" and ?ap = "sm_apply (en_machine E)"
  note C = clean_inD [OF c]
  note inv = commit_inv_step [OF c]
  obtain a cs where a: "last_applied ?n = commit_index ?n" "fst a = commit_index ?n" "below H a (tip ?n)"
      "path H a cs" "r_machine r = sm_run ?ap cs m0"
    using replicatedE [OF old] .
  have cut: "cut_log m ?n'" "commit_index m = commit_index ?n'" and ap: "applies E r m r'"
    using h by (simp_all add: handled_def same_progress_def)
  have tip: "tip m = tip ?n'" "log_end m = log_end ?n'" using cut_log_tip(1) [OF cut(1)] cut_log_end [OF cut(1)] by simp_all
  have a': "below ?H a (tip m)" "path ?H a cs"
    using step_keeps_committed [OF c a(3)] a(2) tip(1) path_mono [OF a(4) propose_history_mono] by simp_all
  have l: "last_applied m = commit_index ?n" "snapshot_last_included_index m \<le> commit_index ?n"
    using react_applied [OF m] a(1) node_inv_snapshot_le [OF C(12)] by simp_all
  have mono: "commit_index ?n \<le> commit_index m" using step_commit_mono [OF c] cut(2) by simp
  have le: "commit_index m \<le> log_end m"
    using node_commit_le [OF inv, of i ?n'] cut(2) tip(2) by simp
  from ap show ?thesis
    unfolding applies_def
  proof (elim disjE exE conjE)
    fix n2 es
    assume t: "take_unapplied_entries m = Some (n2, es)" and i: "applied_index (last_applied n2) m ?n'"
      and r': "r_machine r' = sm_run ?ap (map le_command es) (r_machine r)"
    note u = take_unapplied_entries_spec [OF t]
    have f: "apply_from m = fst a" "apply_to m = commit_index m"
      using l le a(2) by (simp_all add: apply_from_def apply_to_def)
    have req: "request_based H req" if "ev = Received s (AppendEntries req)" for s req
      using request_okD(4) [OF C(1)] event_packet C(7) that by blast
    have b: "log_based ?H m"
      by (rule log_step_based [OF react_log [OF m] history_invD(5) [OF commit_invD(2) [OF C(1)] C(6)] req])
    have fun_H: "functional ?H" by (rule history_treeD(1) [OF step_tree [OF c]])
    have "entry_at m (fst a + 1 + k) = Some (es ! k)" if "k < length es" for k using u(2) [OF that] f(1) by simp
    from path_entries [OF fun_H b a' this] obtain b' where b': "fst b' = fst a + length es" "below ?H b' (tip m)"
        "path ?H b' (cs @ map le_command es)" by blast
    have len: "fst b' = commit_index ?n'" using b'(1) u(1) f a(2) mono cut(2) by simp
    have la: "last_applied ?n' = commit_index ?n'"
      using i u(3) f a(2) mono cut(2) by (auto simp: applied_index_def)
    have "r_machine r' = sm_run ?ap (cs @ map le_command es) m0" using r' a(5) by simp
    then show ?thesis using replicatedI [OF la len b'(2) [unfolded tip(1)] b'(3)] by simp
  next
    assume s: "commit_index m = commit_index ?n" "applied_index (last_applied m) m ?n'" "r_machine r' = r_machine r"
    have la: "last_applied ?n' = commit_index ?n'" using s(1,2) l(1) cut(2) by (auto simp: applied_index_def)
    have fa: "fst a = commit_index ?n'" using a(2) s(1) cut(2) by simp
    show ?thesis using replicatedI [OF la fa a'(1) [unfolded tip(1)] a'(2)] s(3) a(5) by simp
  qed
qed

text \<open>The commands that the log still holds come last.\<close>

lemma replicated_history:
  assumes "commit_inv ids H S N net el" and "N i = Some (r_node r)"
    and "replicated H (sm_apply (en_machine E)) m0 (r_node r) (r_machine r)" and "node_inv (r_node r)"
  shows "machine_history E m0 r"
proof -
  let ?n = "r_node r"
  let ?s = "snapshot_last_included_index ?n"
  note inv = commit_invD [OF assms(1)]
  note fun_H = history_treeD(1) [OF inv(3)]
  obtain a cs where a: "last_applied ?n = commit_index ?n" "fst a = commit_index ?n" "below H a (tip ?n)"
      "path H a cs" "r_machine r = sm_run (sm_apply (en_machine E)) cs m0"
    using replicatedE [OF assms(3)] .
  have le: "?s \<le> commit_index ?n" "commit_index ?n \<le> log_end ?n"
    using node_inv_snapshot_le [OF assms(4)] node_commit_le [OF assms(1,2)] by simp_all
  have b: "log_based H ?n" by (rule history_invD(5) [OF inv(2) assms(2)])
  obtain pre where pre: "path H (snapshot_point ?n) pre"
    using path_exists [OF history_treeD(2) [OF inv(3)]] tips_okD(1) [OF assms(1,2)] unfolding snapshot_point_def by blast
  have s: "below H (snapshot_point ?n) (tip ?n)"
    unfolding snapshot_point_def by (rule term_at_below [OF b]) (simp add: term_at_def)
  define es where "es = take (commit_index ?n - ?s) (log ?n)"
  have len: "length es = commit_index ?n - ?s" using le(2) by (simp add: es_def log_end_def)
  have "entry_at ?n (fst (snapshot_point ?n) + 1 + k) = Some (es ! k)" if "k < length es" for k
    using that len le by (simp add: entry_at_log snapshot_point_def es_def log_end_def)
  from path_entries [OF fun_H b s pre this] obtain b' where b': "fst b' = fst (snapshot_point ?n) + length es"
      "below H b' (tip ?n)" "path H b' (pre @ map le_command es)" by blast
  have "b' = a"
    by (rule below_same_fst [OF fun_H b'(2) a(3)]) (use b'(1) a(2) len le(1) in \<open>simp add: snapshot_point_def\<close>)
  then have "cs = pre @ applied_commands ?n"
    using path_unique [OF fun_H a(4)] b'(3) a(1) by (simp add: applied_commands_def es_def)
  then show ?thesis using a(1,5) le unfolding machine_history_def by auto
qed

subsection \<open>The cluster\<close>

text \<open>The storage of a runner holds its node with the snapshot of its machine, or nothing was saved yet.\<close>

definition exact :: "('c, 's, 'm) runner_env \<Rightarrow> 'm \<Rightarrow> ('c, 's, 'm) runner \<Rightarrow> bool" where
  "exact E m0 r \<longleftrightarrow>
     (\<forall>x. st_load (en_storage E) (r_storage r) (nid (r_node r)) = Some x \<longrightarrow>
        x = from_node (r_node r) (sm_snapshot (en_machine E) (r_machine r))) \<and>
     (st_load (en_storage E) (r_storage r) (nid (r_node r)) = None \<longrightarrow> r_machine r = m0)"

definition replicated_cluster ::
  "(outbox, 's, 'm) runner_env \<Rightarrow> 'm \<Rightarrow> history \<Rightarrow> ('s, 'm) cluster \<Rightarrow> bool" where
  "replicated_cluster E m0 H cl \<longleftrightarrow>
     (\<forall>i r. hm_get (cl_runners cl) i = Some r \<longrightarrow> exact E m0 r \<and>
        replicated H (sm_apply (en_machine E)) m0 (r_node r) (r_machine r))"

lemma exact_outbox [simp]: "exact E m0 (r\<lparr>r_communication := c\<rparr>) = exact E m0 r"
  by (simp add: exact_def)

lemma replicated_cluster_after:
  assumes "replicated_cluster E m0 H cl" and "H \<subseteq> H'" and "exact E m0 r'"
    and "replicated H' (sm_apply (en_machine E)) m0 (r_node r') (r_machine r')"
  shows "replicated_cluster E m0 H' (after_event i r' cl)"
  unfolding replicated_cluster_def
proof (intro allI impI)
  fix j r
  assume "hm_get (cl_runners (after_event i r' cl)) j = Some r"
  moreover have "hm_get (cl_runners (after_event i r' cl)) j =
      (if j = i then Some (r'\<lparr>r_communication := []\<rparr>) else hm_get (cl_runners cl) j)"
    by (simp add: after_event_def)
  ultimately consider "r = r'\<lparr>r_communication := []\<rparr>" | "hm_get (cl_runners cl) j = Some r"
    by (cases "j = i") simp_all
  then show "exact E m0 r \<and> replicated H' (sm_apply (en_machine E)) m0 (r_node r) (r_machine r)"
  proof cases
    case 2
    then have o: "exact E m0 r" "replicated H (sm_apply (en_machine E)) m0 (r_node r) (r_machine r)"
      using assms(1) unfolding replicated_cluster_def by blast+
    show ?thesis using o(1) replicated_mono [OF o(2) assms(2)] by blast
  next
    case 1
    have "exact E m0 r" unfolding 1 exact_outbox by (rule assms(3))
    moreover have "r_node r = r_node r'" "r_machine r = r_machine r'" unfolding 1 by simp_all
    ultimately show ?thesis using assms(4) by simp
  qed
qed

text \<open>A machine whose commands may be replayed is the same after a restart.\<close>

definition replayable :: "'m state_machine_ops \<Rightarrow> 'm \<Rightarrow> bool" where
  "replayable M m0 \<longleftrightarrow>
     (\<exists>gm. replayable_state_machine (sm_apply M) (sm_snapshot M) (sm_restore M) gm \<and> gm m0)"

lemma restart_machine_same:
  assumes "restart E k now (r_config r) c (r_storage r) m0 = Some (r', Inr ())"
    and "replayable (en_machine E) m0" and "exact E m0 r" and "cfg_id (r_config r) = nid (r_node r)"
    and "machine_history E m0 r" and "last_applied (r_node r) = commit_index (r_node r)"
    and "commit_index (r_node r) \<le> log_end (r_node r)"
  shows "r_machine r' = r_machine r"
proof (cases "st_load (en_storage E) (r_storage r) (nid (r_node r))")
  case None
  then show ?thesis using restart_applied(3) [OF assms(1)] assms(3,4) by (simp add: exact_def)
next
  case (Some x)
  obtain gm where gm: "replayable_state_machine (sm_apply (en_machine E)) (sm_snapshot (en_machine E))
      (sm_restore (en_machine E)) gm" "gm m0"
    using assms(2) unfolding replayable_def by blast
  have l: "st_load (en_storage E) (r_storage r) (cfg_id (r_config r)) =
      Some (from_node (r_node r) (sm_snapshot (en_machine E) (r_machine r)))"
    using Some assms(3,4) by (simp add: exact_def)
  show ?thesis
    by (rule replayable_state_machine.restart_same_machine [OF gm(1) assms(1) refl refl l assms(5) gm(2)])
      (use assms(6,7) in simp)
qed

context durable_runner begin

lemma exact_handled:
  assumes "en_storage E = S" and "good (r_storage r)" and "handled E r out r'" and "exact E m0 r"
  shows "exact E m0 r'"
proof -
  have "r_storage r' = st_save S (from_node (r_node r') (sm_snapshot (en_machine E) (r_machine r'))) (r_storage r) \<or>
      r_storage r' = r_storage r \<and> r_node r' = r_node r \<and> r_machine r' = r_machine r"
    using assms(1,3) unfolding handled_def by blast
  then show ?thesis
  proof
    assume s: "r_storage r' = st_save S (from_node (r_node r') (sm_snapshot (en_machine E) (r_machine r'))) (r_storage r)"
    have "st_load S (r_storage r') (nid (r_node r')) =
        Some (from_node (r_node r') (sm_snapshot (en_machine E) (r_machine r')))"
      using load_save [OF assms(2), of "from_node (r_node r') (sm_snapshot (en_machine E) (r_machine r'))"] s
      by (simp add: from_node_def)
    then show ?thesis by (simp add: exact_def assms(1))
  qed (use assms(4) in \<open>simp add: exact_def\<close>)
qed

lemma restart_event_replicated:
  assumes E: "en_communication E = outbox_ops" "en_storage E = S" "gen_range_ok (en_rng E)"
    and inv: "cluster_inv good E ids cl" and step: "restart_event E m0 i k cl = Some cl'"
    and c: "committed_cluster ids H B cl" and rep: "replicated_cluster E m0 H cl" and re: "replayable (en_machine E) m0"
  shows "replicated_cluster E m0 H cl'"
proof -
  note ci = c [unfolded committed_cluster_def]
  obtain r where r0: "hm_get (cl_runners cl) i = Some r" using restart_eventE [OF step] by blast
  let ?b = "sm_snapshot (en_machine E) (r_machine r)"
  obtain r1 r' where r1: "hm_get (cl_runners cl) i = Some r1" "cl' = after_event i r' cl"
      "restart E k 0 (r_config r1) [] (r_storage r1) m0 = Some (r', Inr ())"
      "from_node (r_node r') ?b = from_node (r_node r1) ?b" "role (r_node r') = Follower"
      "r_storage r' = r_storage r1" "r_communication r' = []"
    using restart_event_same [OF E inv step c] .
  have same_r: "r1 = r" using r0 r1(1) by simp
  note r = r1 [unfolded same_r]
  note same = from_node_eq [OF r(4)]
  have ok: "runner_ok r" using inv r0 by (simp add: cluster_inv_def runners_ok_def)
  then have id: "cfg_id (r_config r) = nid (r_node r)" "node_inv (r_node r)" by (simp_all add: runner_ok_def)
  have x: "exact E m0 r" and rp: "replicated H (sm_apply (en_machine E)) m0 (r_node r) (r_machine r)"
    using rep r0 unfolding replicated_cluster_def by blast+
  obtain a cs where a: "last_applied (r_node r) = commit_index (r_node r)" "fst a = commit_index (r_node r)"
      "below H a (tip (r_node r))" "path H a cs" "r_machine r = sm_run (sm_apply (en_machine E)) cs m0"
    using replicatedE [OF rp] .
  have m: "r_machine r' = r_machine r"
    by (rule restart_machine_same [OF r(3) re x id(1) replicated_history [OF ci cluster_node [OF r0] rp id(2)] a(1)
          node_commit_le [OF ci cluster_node [OF r0]]])
  have tip: "tip (r_node r') = tip (r_node r)" using same_log_tip [OF same(1)] by blast
  have "replicated H (sm_apply (en_machine E)) m0 (r_node r') (sm_run (sm_apply (en_machine E)) cs m0)"
    by (rule replicatedI [of _ a]) (use restart_applied(2) [OF r(3)] a(2-4) same(3) tip in simp_all)
  then have rp': "replicated H (sm_apply (en_machine E)) m0 (r_node r') (r_machine r')" using m a(5) by simp
  have "exact E m0 r'" using x r(4,6) same(4) m by (simp add: exact_def)
  from replicated_cluster_after [OF rep order_refl this rp'] show ?thesis unfolding r(2) .
qed

lemma cluster_step_replicated:
  assumes E: "en_communication E = outbox_ops" "en_storage E = S" "gen_range_ok (en_rng E)"
    and inv: "cluster_inv good E ids cl" and step: "cluster_step E m0 ev cl = Some cl'" "clean_step ev cl cl'"
    and c: "committed_cluster ids H B cl" and rep: "replicated_cluster E m0 H cl"
    and re: "(\<exists>i k. ev = Restarts i k) \<longrightarrow> replayable (en_machine E) m0"
  shows "\<exists>H' B'. committed_cluster ids H' B' cl' \<and> replicated_cluster E m0 H' cl'"
  using step
proof (cases rule: clean_step_cases)
  case (event i e)
  obtain r r' n1 outs where h: "hm_get (cl_runners cl) i = Some r" "cl' = after_event i r' cl"
      "react (en_rng E) e (r_node r) = Some (n1, outs)" "handled E r (n1, outs) r'"
      "clean_in (en_rng E) ids H B (cluster_nodes cl) (set (cl_net cl)) (set (cl_elected cl)) i e
        (r_node r) (r_node r') outs"
      "committed_cluster ids (propose_history e (r_node r) H) (next_bases (set (cl_elected cl)) (r_node r') B) cl'"
    using node_event_clean [OF E inv event(1,2) c event(3)] .
  have old: "exact E m0 r" "replicated H (sm_apply (en_machine E)) m0 (r_node r) (r_machine r)"
    using rep h(1) unfolding replicated_cluster_def by blast+
  have "good (r_storage r)" using inv h(1) by (simp add: cluster_inv_def runners_ok_def)
  note x = exact_handled [OF E(2) this h(4) old(1)]
  have "replicated_cluster E m0 (propose_history e (r_node r) H) cl'"
    unfolding h(2)
    by (rule replicated_cluster_after [OF rep propose_history_mono x handled_replicated [OF h(5,3,4) old(2)]])
  then show ?thesis using h(6) by blast
next
  case (again i k)
  then show ?thesis
    using restart_event_committed [OF E inv again(2) c] restart_event_replicated [OF E inv again(2) c rep] re by blast
qed

lemma cluster_run_replicated:
  assumes E: "en_communication E = outbox_ops" "en_storage E = S" "gen_range_ok (en_rng E)"
  shows "cluster_inv good E ids cl \<Longrightarrow> cluster_run E m0 evs cl = Some cl' \<Longrightarrow> clean_run E m0 evs cl \<Longrightarrow>
    committed_cluster ids H B cl \<Longrightarrow> replicated_cluster E m0 H cl \<Longrightarrow>
    (\<exists>i k. Restarts i k \<in> set evs) \<longrightarrow> replayable (en_machine E) m0 \<Longrightarrow>
    \<exists>H' B'. committed_cluster ids H' B' cl' \<and> replicated_cluster E m0 H' cl'"
proof (induction evs arbitrary: cl H B)
  case (Cons ev evs)
  then obtain c where c: "cluster_step E m0 ev cl = Some c" "cluster_run E m0 evs c = Some cl'"
    by (auto simp: bind_Some_iff)
  then have k: "clean_step ev cl c" "clean_run E m0 evs c" using Cons.prems(3) by simp_all
  have re: "(\<exists>i k. ev = Restarts i k) \<longrightarrow> replayable (en_machine E) m0"
    "(\<exists>i k. Restarts i k \<in> set evs) \<longrightarrow> replayable (en_machine E) m0"
    using Cons.prems(6) by auto
  obtain H' B' where "committed_cluster ids H' B' c" "replicated_cluster E m0 H' c"
    using cluster_step_replicated [OF E Cons.prems(1) c(1) k(1) Cons.prems(4,5) re(1)] by blast
  then show ?case using Cons.IH cluster_step_inv [OF E Cons.prems(1) c(1)] c(2) k(2) re(2) by blast
qed auto

lemma cluster_start_replicated:
  assumes E: "en_storage E = S" and s0: "\<forall>i. st_load S s0 i = None"
    and start: "cluster_start E s0 m0 cfgs = Some cl"
  shows "replicated_cluster E m0 {} cl"
  unfolding replicated_cluster_def
proof (intro allI impI)
  fix i r
  assume r: "hm_get (cl_runners cl) i = Some r"
  obtain rs where rs: "start_all E s0 m0 cfgs = Some rs" "cl_runners cl = rs"
    using start by (auto simp: cluster_start_def)
  then have "hm_get rs i = Some r" using r by simp
  then obtain cfg where res: "restart E 0 0 cfg [] s0 m0 = Some (r, Inr ())"
    using start_all_get(2) [OF rs(1)] by blast
  have none: "st_load (en_storage E) s0 (cfg_id cfg) = None" using s0 E by simp
  note f = restart_fresh [OF res none] and a = restart_applied [OF res]
  have v: "log (r_node r) = []" "snapshot_last_included_index (r_node r) = 0" "snapshot_last_included_term (r_node r) = 0"
    using f(1) node_view_fields [of "r_node r"] by (simp_all add: fresh_view_def)
  then have "log_end (r_node r) = 0" "tip (r_node r) = (0, 0)"
    by (simp_all add: log_end_def tip_end end_point_def end_term_def)
  then have c: "last_applied (r_node r) = commit_index (r_node r)" "fst (0 :: nat, 0 :: term_no) = commit_index (r_node r)"
      "below {} (0, 0) (tip (r_node r))"
    using a(1,2) by simp_all
  have "exact E m0 r" using f(3) s0 E a(3) [OF none] by (simp add: exact_def)
  then show "exact E m0 r \<and> replicated {} (sm_apply (en_machine E)) m0 (r_node r) (r_machine r)"
    using replicatedI [OF c path.root] a(3) [OF none] by simp
qed

lemma cluster_reachable_replicated:
  assumes "en_communication E = outbox_ops" "en_storage E = S" "gen_range_ok (en_rng E)"
    and "cluster_config_ok cfgs" and "good s0" "\<forall>i. st_load S s0 i = None"
    and "cluster_start E s0 m0 cfgs = Some cl0" and "cluster_run E m0 evs cl0 = Some cl" and "clean_run E m0 evs cl0"
    and "(\<exists>i k. Restarts i k \<in> set evs) \<longrightarrow> replayable (en_machine E) m0"
  shows "\<exists>H B. committed_cluster (cfg_id ` set cfgs) H B cl \<and> replicated_cluster E m0 H cl"
  using cluster_run_replicated [OF assms(1-3) cluster_start_inv [OF assms(1-7)] assms(8,9)
      cluster_start_committed [OF assms(1-7)] cluster_start_replicated [OF assms(2,6,7)] assms(10)] .

end

subsection \<open>One list of commands\<close>

lemma replicated_prefix:
  assumes "commit_inv ids H S N net el" and "N i = Some n" and "N j = Some l" and "replicated H ap m0 n m"
    and "commit_index n \<le> commit_index l" and "fst b = commit_index l" and "below H b (tip l)" and "path H b cs"
  shows "m = sm_run ap (take (commit_index n) cs) m0"
proof -
  obtain a xs where a: "last_applied n = commit_index n" "fst a = commit_index n" "below H a (tip n)"
      "path H a xs" "m = sm_run ap xs m0"
    using replicatedE [OF assms(4)] .
  have len: "length xs = commit_index n" using path_length [OF a(4)] a(2) by simp
  note inv = commit_invD [OF assms(1)]
  note fun_H = history_treeD(1) [OF inv(3)]
  have fin: "finite ids" using inv(1) unfolding election_inv_def nodes_ok_def by blast
  have "xs = take (commit_index n) cs"
  proof (cases "commit_index n = 0")
    case False
    then have pos: "0 < commit_index n" "0 < commit_index l" using assms(5) by simp_all
    obtain a' b' c where p: "fst a' = commit_index n" "below H a' (tip n)" "fst b' = commit_index l"
        "below H b' (tip l)" "below H a' c" "below H b' c"
      using commit_path [OF assms(1) fin commits_okD(1) [OF assms(1,2)] commits_okD(1) [OF assms(1,3)] pos] .
    have "a' = a" "b' = b"
      using below_same_fst [OF fun_H p(2) a(3)] below_same_fst [OF fun_H p(4) assms(7)] p(1,3) a(2) assms(6) by simp_all
    then have "below H a b" using below_comparable [OF fun_H p(6,5)] p(1,3) assms(5) by simp
    then obtain zs where "cs = xs @ zs" using path_prefix [OF fun_H _ a(4) assms(8)] by blast
    then show ?thesis using len by simp
  qed (use len in simp)
  then show ?thesis using a(5) by simp
qed

lemma one_command_list:
  assumes "committed_cluster ids H B cl" and "replicated_cluster E m0 H cl"
  shows "\<exists>cs. \<forall>i r. hm_get (cl_runners cl) i = Some r \<longrightarrow>
    last_applied (r_node r) = commit_index (r_node r) \<and> commit_index (r_node r) \<le> length cs \<and>
    r_machine r = sm_run (sm_apply (en_machine E)) (take (commit_index (r_node r)) cs) m0"
proof (cases "\<exists>i r. hm_get (cl_runners cl) i = Some r")
  case True
  note inv = assms(1) [unfolded committed_cluster_def]
  define A where "A = ran (hm_get (cl_runners cl))"
  have "finite A" unfolding A_def by (rule finite_ran) (simp add: hm_get_dom)
  moreover have "A \<noteq> {}" using True unfolding A_def ran_def by blast
  ultimately have "\<exists>q \<in> A. \<forall>r \<in> A. commit_index (r_node r) \<le> commit_index (r_node q)"
    using Max_in [of "(\<lambda>r. commit_index (r_node r)) ` A"] Max_ge [of "(\<lambda>r. commit_index (r_node r)) ` A"] by fastforce
  then obtain q where q: "q \<in> A" "\<And>r. r \<in> A \<Longrightarrow> commit_index (r_node r) \<le> commit_index (r_node q)" by blast
  then obtain j where j: "hm_get (cl_runners cl) j = Some q" unfolding A_def ran_def by blast
  have rep: "replicated H (sm_apply (en_machine E)) m0 (r_node r) (r_machine r)"
    if "hm_get (cl_runners cl) i = Some r" for i r
    using assms(2) that unfolding replicated_cluster_def by blast
  obtain b cs where b: "last_applied (r_node q) = commit_index (r_node q)" "fst b = commit_index (r_node q)"
      "below H b (tip (r_node q))" "path H b cs" "r_machine q = sm_run (sm_apply (en_machine E)) cs m0"
    using replicatedE [OF rep [OF j]] .
  have len: "length cs = commit_index (r_node q)" using path_length [OF b(4)] b(2) by simp
  show ?thesis
  proof (rule exI [of _ cs], intro allI impI)
    fix i r
    assume r: "hm_get (cl_runners cl) i = Some r"
    then have le: "commit_index (r_node r) \<le> commit_index (r_node q)" using q(2) unfolding A_def ran_def by blast
    have "last_applied (r_node r) = commit_index (r_node r)" using replicatedE [OF rep [OF r]] by blast
    then show "last_applied (r_node r) = commit_index (r_node r) \<and> commit_index (r_node r) \<le> length cs \<and>
        r_machine r = sm_run (sm_apply (en_machine E)) (take (commit_index (r_node r)) cs) m0"
      using replicated_prefix [OF inv cluster_node [OF r] cluster_node [OF j] rep [OF r] le b(2-4)] le len by simp
  qed
qed simp

end
