(* ===== verification/Lone_Node.thy ===== *)
theory Lone_Node
  imports Cluster
begin

text \<open>
  A cluster of one node. The own vote of a candidate is a majority there, but only the handler of a vote
  response looks whether it is, and nobody sends one: the node campaigns for ever, sends nothing, refuses
  every proposal and keeps an empty log.
\<close>

subsection \<open>The node\<close>

lemma lone_tick:
  assumes "tick rng n = Some (n', ms)" and "peers n = []" and "role n \<noteq> Leader"
  shows "ms = [] \<and> role n' \<noteq> Leader \<and> log n' = log n"
  using assms by (cases rule: tick_cases) (auto simp: start_election_Some_iff)

lemma lone_react:
  assumes "react rng ev n = Some (n', outs)" and "peers n = []" and "role n \<noteq> Leader"
    and "\<nexists>s msg. ev = Received s msg"
  shows "outs = [] \<and> role n' \<noteq> Leader \<and> log n' = log n"
proof (cases ev)
  case Ticked
  then show ?thesis using assms(1-3) lone_tick by (fastforce simp: react_def)
next
  case (Commanded cmd)
  then show ?thesis using assms(1-3)
    by (cases cmd) (auto simp: react_def start_election_Some_iff propose_command_def)
qed (use assms(4) in blast)

text \<open>A proposal at a node that does not lead changes nothing and is refused.\<close>

lemma proposal_refused: "role n \<noteq> Leader \<Longrightarrow> propose_command v n = Some (n, None)"
  by (simp add: propose_command_def)

subsection \<open>The cluster\<close>

definition lonely :: "('s, 'm) cluster \<Rightarrow> bool" where
  "lonely cl \<longleftrightarrow> cl_net cl = [] \<and> cl_elected cl = [] \<and>
     (\<forall>i r. hm_get (cl_runners cl) i = Some r \<longrightarrow> role (r_node r) \<noteq> Leader \<and> log (r_node r) = [])"

lemma lonely_after:
  assumes "lonely cl" and "role (r_node r) \<noteq> Leader" and "log (r_node r) = []" and "r_communication r = []"
  shows "lonely (after_event i r cl)"
  using assms by (simp add: lonely_def after_event_def)

lemma lone_runner:
  assumes "cluster_inv good E {a} cl"
  shows "\<exists>r. hm_get (cl_runners cl) a = Some r \<and> peers (r_node r) = []"
proof -
  have ok: "nodes_ok {a} (cluster_nodes cl)" using assms by (simp add: cluster_inv_def election_inv_def)
  then have "a \<in> dom (cluster_nodes cl)" by (simp add: nodes_ok_def)
  then obtain n where n: "cluster_nodes cl a = Some n" by blast
  then have "set (peers n) = {a} - {a}" using nodes_okD [OF ok] by blast
  then show ?thesis using n by (auto simp: cluster_nodes_def)
qed

context durable_runner begin

lemma lonely_step:
  assumes E: "en_communication E = outbox_ops" "en_storage E = S" "gen_range_ok (en_rng E)"
    and inv: "cluster_inv good E {a} cl" and lone: "lonely cl" and step: "cluster_step E m0 ev cl = Some cl'"
  shows "lonely cl'"
proof (rule cluster_step_cases [OF step])
  fix i e
  assume ev: "event_from (set (cl_net cl)) i e" and s: "node_event E i e cl = Some cl'"
  obtain r r' n1 outs where r: "hm_get (cl_runners cl) i = Some r" and cl': "cl' = after_event i r' cl"
    and h: "react (en_rng E) e (r_node r) = Some (n1, outs)" "handled E r (n1, outs) r'"
    and o: "r_communication r' = outs"
    using node_event_local [OF E inv ev s] by metis
  have "cluster_nodes cl i = Some (r_node r)" using r by (simp add: cluster_nodes_def)
  then have "set (peers (r_node r)) = {a} - {i}" "i \<in> {a}"
    using inv nodes_okD unfolding cluster_inv_def election_inv_def by metis+
  then have p: "peers (r_node r) = []" by simp
  have l: "role (r_node r) \<noteq> Leader" "log (r_node r) = []" "\<nexists>s msg. e = Received s msg"
    using lone r ev by (auto simp: lonely_def event_from_def)
  from lone_react [OF h(1) p l(1,3)] l(2) have n1: "outs = []" "role n1 \<noteq> Leader" "log n1 = []" by simp_all
  then have "role (r_node r') \<noteq> Leader" "log (r_node r') = []"
    using h(2) by (auto simp: handled_def same_election_def cut_log_def)
  then show "lonely cl'" unfolding cl' using lonely_after [OF lone] o n1(1) by simp
next
  fix i k
  assume s: "restart_event E m0 i k cl = Some cl'"
  obtain r r' where r: "hm_get (cl_runners cl) i = Some r" and cl': "cl' = after_event i r' cl"
    and v: "node_view (r_node r') = node_view (r_node r)" "role (r_node r') = Follower" "r_communication r' = []"
    using restart_event_local [OF E(1,3) inv s] by metis
  have "log (r_node r') = log (r_node r)" using v(1) by (metis node_view_fields(4))
  moreover have "log (r_node r) = []" using lone r by (simp add: lonely_def)
  ultimately show "lonely cl'" unfolding cl' using lonely_after [OF lone] v(2,3) by simp
qed

lemma lonely_run:
  assumes E: "en_communication E = outbox_ops" "en_storage E = S" "gen_range_ok (en_rng E)"
  shows "cluster_inv good E {a} cl \<Longrightarrow> lonely cl \<Longrightarrow> cluster_run E m0 evs cl = Some cl' \<Longrightarrow> lonely cl'"
proof (induction evs arbitrary: cl)
  case (Cons ev evs)
  then obtain c where "cluster_step E m0 ev cl = Some c" "cluster_run E m0 evs c = Some cl'"
    by (auto simp: bind_Some_iff)
  then show ?case
    using Cons.IH cluster_step_inv [OF E Cons.prems(1)] lonely_step [OF E Cons.prems(1,2)] by blast
qed simp

lemma lonely_start:
  assumes E: "en_storage E = S" "\<forall>i. st_load S s0 i = None" and start: "cluster_start E s0 m0 cfgs = Some cl"
  shows "lonely cl"
proof -
  obtain rs where rs: "start_all E s0 m0 cfgs = Some rs" and cl: "cl = \<lparr>cl_runners = rs, cl_net = [], cl_elected = []\<rparr>"
    using start by (auto simp: cluster_start_def)
  have "role (r_node r) \<noteq> Leader \<and> log (r_node r) = []" if at: "hm_get rs i = Some r" for i r
  proof -
    obtain cfg where cfg: "restart E 0 0 cfg [] s0 m0 = Some (r, Inr ())"
      using start_all_get(2) [OF rs at] by blast
    have none: "st_load (en_storage E) s0 (cfg_id cfg) = None" using E by simp
    note f = restart_fresh [OF cfg none]
    have "log (r_node r) = []" using f(1) by (metis node_view_fields(4) fresh_view_def storage_snapshot.select_convs(4))
    then show ?thesis using f by simp
  qed
  then show ?thesis by (simp add: lonely_def cl)
qed

lemma lonely_reachable:
  assumes "en_communication E = outbox_ops" "en_storage E = S" "gen_range_ok (en_rng E)"
    and "cluster_config_ok [cfg]" and "good s0" "\<forall>i. st_load S s0 i = None"
    and "cluster_start E s0 m0 [cfg] = Some cl0" and "cluster_run E m0 evs cl0 = Some cl"
  shows "lonely cl"
proof -
  have "cluster_inv good E {cfg_id cfg} cl0" using cluster_start_inv [OF assms(1-7)] by simp
  then show ?thesis using lonely_run [OF assms(1-3) _ lonely_start [OF assms(2,6,7)] assms(8)] by blast
qed

end

end
