(* ===== verification/Unit_Tests.thy ===== *)
theory Unit_Tests
  imports Samples Counter Codec File_Storage Grpc
begin

text \<open>
  The unit tests of the repository, run on the model: each \<open>#[test]\<close> function is a definition of the
  same name with the calls of the test in their order and its assertions as a conjunction; a panic makes
  it false. What a test takes from outside (random numbers, the order of a hash map, JSON, a directory)
  stays a parameter, so that the test is proved for every such outside world that keeps its contract.
\<close>

subsection \<open>\<open>raftust-core/src/node.rs\<close>\<close>

definition passes :: "bool option \<Rightarrow> bool" where
  "passes t \<longleftrightarrow> t = Some True"

definition test_node :: "gen_range \<Rightarrow> nat \<Rightarrow> node_id \<Rightarrow> raft_node option" where
  "test_node rng k i = new_node rng k i (filter (\<lambda>peer. peer \<noteq> i) [1, 2, 3]) 3 3 1"

definition start_election_votes_for_self_and_sends_requests :: "gen_range \<Rightarrow> bool" where
  "start_election_votes_for_self_and_sends_requests rng = passes (do {
     n \<leftarrow> test_node rng 0 1;
     (n, messages) \<leftarrow> start_election rng n;
     Some (role n = Candidate \<and> current_term n = 1 \<and> voted_for n = Some 1 \<and> length messages = 2)
   })"

definition candidate_becomes_leader_after_majority_votes :: "gen_range \<Rightarrow> bool" where
  "candidate_becomes_leader_after_majority_votes rng = passes (do {
     n \<leftarrow> test_node rng 0 1;
     (n, _) \<leftarrow> start_election rng n;
     (n, elected) \<leftarrow> handle_request_vote_response rng \<lparr>rvr_term = 1, rvr_vote_granted = True, rvr_from = 2\<rparr> n;
     Some (elected \<and> role n = Leader)
   })"

definition request_vote_grants_if_log_is_up_to_date :: "gen_range \<Rightarrow> bool" where
  "request_vote_grants_if_log_is_up_to_date rng = passes (do {
     n \<leftarrow> test_node rng 0 2;
     (n, resp) \<leftarrow> handle_request_vote rng
       \<lparr>rv_term = 1, rv_candidate_id = 1, rv_last_log_index = 0, rv_last_log_term = 0\<rparr> n;
     Some (rvr_vote_granted resp \<and> voted_for n = Some 1 \<and> current_term n = 1)
   })"

definition request_vote_rejects_stale_log :: "gen_range \<Rightarrow> bool" where
  "request_vote_rejects_stale_log rng = passes (do {
     n \<leftarrow> test_node rng 0 2;
     let n = n\<lparr>log := log n @ [entry 2 ''x'']\<rparr>;
     (n, resp) \<leftarrow> handle_request_vote rng
       \<lparr>rv_term = 2, rv_candidate_id = 1, rv_last_log_index = 0, rv_last_log_term = 0\<rparr> n;
     Some (\<not> rvr_vote_granted resp)
   })"

definition append_entries_with_commit_advances_commit_index :: "gen_range \<Rightarrow> bool" where
  "append_entries_with_commit_advances_commit_index rng = passes (do {
     f \<leftarrow> test_node rng 0 2;
     (f, resp) \<leftarrow> handle_append_entries rng
       \<lparr>ae_term = 1, ae_leader_id = 1, ae_prev_log_index = 0, ae_prev_log_term = 0,
        ae_entries = [entry 1 ''set a 1''], ae_leader_commit = 1\<rparr> f;
     Some (aer_success resp \<and> length (log f) = 1 \<and> commit_index f = 1)
   })"

definition append_entries_rewrites_conflicting_suffix :: "gen_range \<Rightarrow> bool" where
  "append_entries_rewrites_conflicting_suffix rng = passes (do {
     f \<leftarrow> test_node rng 0 2;
     let f = f\<lparr>log := log f @ [entry 1 ''old1'']\<rparr>;
     let f = f\<lparr>log := log f @ [entry 2 ''old2'']\<rparr>;
     (f, resp) \<leftarrow> handle_append_entries rng
       \<lparr>ae_term = 3, ae_leader_id = 1, ae_prev_log_index = 1, ae_prev_log_term = 1,
        ae_entries = [entry 3 ''new2''], ae_leader_commit = 2\<rparr> f;
     second \<leftarrow> vec_index (log f) 1;
     Some (aer_success resp \<and> length (log f) = 2 \<and> le_term second = 3 \<and> le_command second = lit ''new2'')
   })"

text \<open>The leader of term 1 from which three tests start.\<close>

definition test_leader :: "gen_range \<Rightarrow> (raft_node \<times> bool) option" where
  "test_leader rng = do {
     n \<leftarrow> test_node rng 0 1;
     (n, _) \<leftarrow> start_election rng n;
     handle_request_vote_response rng \<lparr>rvr_term = 1, rvr_vote_granted = True, rvr_from = 2\<rparr> n
   }"

definition leader_retries_with_lower_next_index_after_reject :: "gen_range \<Rightarrow> bool" where
  "leader_retries_with_lower_next_index_after_reject rng = passes (do {
     (l, _) \<leftarrow> test_leader rng;
     let l = l\<lparr>log := log l @ [entry 1 ''cmd1'']\<rparr>;
     let l = l\<lparr>log := log l @ [entry 1 ''cmd2'']\<rparr>;
     let l = l\<lparr>leader_next_index := hm_insert 2 3 (leader_next_index l)\<rparr>;
     (l, outbound) \<leftarrow> handle_append_entries_response rng
       \<lparr>aer_term = 1, aer_success = False, aer_from = 2, aer_match_index = 0\<rparr> l;
     first \<leftarrow> vec_index outbound 0;
     Some (hm_get (leader_next_index l) 2 = Some 2 \<and> length outbound = 1 \<and>
       (case first of
          OutAppendEntries to message \<Rightarrow>
            to = 2 \<and> ae_prev_log_index message = 1 \<and> length (ae_entries message) = 1 \<and>
            map le_command (ae_entries message) = [lit ''cmd2'']
        | _ \<Rightarrow> False))
   })"

definition leader_commits_after_majority_ack :: "gen_range \<Rightarrow> bool" where
  "leader_commits_after_majority_ack rng = passes (do {
     (l, _) \<leftarrow> test_leader rng;
     let l = l\<lparr>log := log l @ [entry 1 ''cmd1'']\<rparr>;
     let l = l\<lparr>leader_match_index := hm_insert 3 0 (hm_insert 2 0 (hm_insert 1 1 (leader_match_index l)))\<rparr>;
     let l = l\<lparr>leader_next_index := hm_insert 3 2 (hm_insert 2 2 (leader_next_index l))\<rparr>;
     (l, outbound) \<leftarrow> handle_append_entries_response rng
       \<lparr>aer_term = 1, aer_success = True, aer_from = 2, aer_match_index = 1\<rparr> l;
     Some (outbound = [] \<and> commit_index l = 1)
   })"

definition commit_makes_entries_available_for_application :: "gen_range \<Rightarrow> bool" where
  "commit_makes_entries_available_for_application rng = passes (do {
     n \<leftarrow> test_node rng 0 1;
     let n = n\<lparr>log := log n @ [entry 1 ''a'']\<rparr>;
     let n = n\<lparr>log := log n @ [entry 1 ''b'']\<rparr>;
     n \<leftarrow> commit_to 2 n;
     (n, first) \<leftarrow> take_unapplied_entries n;
     (n, second) \<leftarrow> take_unapplied_entries n;
     Some (length first = 2 \<and> map le_command first = [lit ''a'', lit ''b''] \<and> second = [])
   })"

definition leader_proposal_sends_entry_to_followers :: "gen_range \<Rightarrow> bool" where
  "leader_proposal_sends_entry_to_followers rng = passes (do {
     (l, elected) \<leftarrow> test_leader rng;
     (l, proposed) \<leftarrow> propose_command (lit ''set k v'') l;
     outbound \<leftarrow> proposed;
     Some (elected \<and> length (log l) = 1 \<and> map le_command (log l) = [lit ''set k v''] \<and> length outbound = 2 \<and>
       list_all (\<lambda>msg. case msg of
           OutAppendEntries to message \<Rightarrow>
             (to = 2 \<or> to = 3) \<and> length (ae_entries message) = 1 \<and>
             map le_command (ae_entries message) = [lit ''set k v''] \<and> ae_prev_log_index message = 0
         | _ \<Rightarrow> False) outbound)
   })"

definition compaction_removes_committed_prefix_and_tracks_snapshot_point :: "gen_range \<Rightarrow> bool" where
  "compaction_removes_committed_prefix_and_tracks_snapshot_point rng = passes (do {
     n \<leftarrow> test_node rng 0 1;
     let n = n\<lparr>role := Leader, current_term := 2\<rparr>;
     (n, _) \<leftarrow> propose_command (lit ''set a 1'') n;
     (n, _) \<leftarrow> propose_command (lit ''set b 2'') n;
     (n, _) \<leftarrow> propose_command (lit ''set c 3'') n;
     n \<leftarrow> commit_to 2 n;
     (n, compacted) \<leftarrow> compact_committed n;
     (n', unapplied) \<leftarrow> take_unapplied_entries n;
     Some (compacted \<and> snapshot_last_included_index n = 2 \<and> snapshot_last_included_term n = 2 \<and>
       length (log n) = 1 \<and> commit_index n = 2 \<and> unapplied = [])
   })"

definition restore_from_storage_preserves_snapshot_offsets :: "gen_range \<Rightarrow> bool" where
  "restore_from_storage_preserves_snapshot_offsets rng = passes (do {
     n \<leftarrow> test_node rng 0 1;
     n \<leftarrow> restore_from_storage 4 (Some 2) [entry 4 ''set k v''] 6 5 3 n;
     Some (current_term n = 4 \<and> voted_for n = Some 2 \<and> snapshot_last_included_index n = 5 \<and>
       snapshot_last_included_term n = 3 \<and> commit_index n = 6 \<and> last_applied n = 5)
   })"

lemmas node_test_defs = passes_def test_node_def test_leader_def eval_node entry_def vec_index_def card_insert_if

lemmas elections_tested = start_election_votes_for_self_and_sends_requests_def
  candidate_becomes_leader_after_majority_votes_def request_vote_grants_if_log_is_up_to_date_def
  request_vote_rejects_stale_log_def

lemma election_tests:
  "start_election_votes_for_self_and_sends_requests rng" "candidate_becomes_leader_after_majority_votes rng"
  "request_vote_grants_if_log_is_up_to_date rng" "request_vote_rejects_stale_log rng"
  by (simp_all add: elections_tested node_test_defs)

lemma replication_tests:
  "append_entries_with_commit_advances_commit_index rng"
  "append_entries_rewrites_conflicting_suffix rng"
  "leader_retries_with_lower_next_index_after_reject rng"
  "leader_proposal_sends_entry_to_followers rng"
  apply (simp add: append_entries_with_commit_advances_commit_index_def node_test_defs)
  apply (simp add: append_entries_rewrites_conflicting_suffix_def node_test_defs)
  apply (simp add: leader_retries_with_lower_next_index_after_reject_def node_test_defs)
  apply (simp add: leader_proposal_sends_entry_to_followers_def node_test_defs)
  done

lemma commit_tests:
  "leader_commits_after_majority_ack rng"
  "commit_makes_entries_available_for_application rng"
  "compaction_removes_committed_prefix_and_tracks_snapshot_point rng"
  "restore_from_storage_preserves_snapshot_offsets rng"
  apply (simp add: leader_commits_after_majority_ack_def node_test_defs)
  apply (simp add: commit_makes_entries_available_for_application_def node_test_defs)
  apply (simp add: compaction_removes_committed_prefix_and_tracks_snapshot_point_def node_test_defs)
  apply (simp add: restore_from_storage_preserves_snapshot_offsets_def node_test_defs)
  done

subsection \<open>\<open>raftust-core-state-machine-counter/src/lib.rs\<close>\<close>

definition applies_basic_counter_commands :: bool where
  "applies_basic_counter_commands \<longleftrightarrow>
     (let sm = counter_new;
          sm = counter_apply sm (lit ''inc'');
          sm = counter_apply sm (lit ''add 4'');
          sm = counter_apply sm (lit ''dec'')
      in csm_value sm = 4 \<and> counter_describe sm = lit ''counter=4'')"

definition supports_set_and_reset :: bool where
  "supports_set_and_reset \<longleftrightarrow>
     (let sm = counter_new;
          sm = counter_apply sm (lit ''set 10'');
          sm = counter_apply sm (lit ''reset'')
      in csm_value sm = 0)"

definition ignores_invalid_commands :: bool where
  "ignores_invalid_commands \<longleftrightarrow>
     (let sm = counter_new;
          sm = counter_apply sm (lit ''add nope'');
          sm = counter_apply sm (lit ''something else'')
      in csm_value sm = 0)"

definition handles_whitespace_and_case_for_keywords :: bool where
  "handles_whitespace_and_case_for_keywords \<longleftrightarrow>
     (let sm = counter_new;
          sm = counter_apply sm (lit ''  INC  '');
          sm = counter_apply sm (lit ''  dec'');
          sm = counter_apply sm (lit ''  reset   '')
      in csm_value sm = 0 \<and> counter_describe sm = lit ''counter=0'')"

definition supports_negative_add_amounts :: bool where
  "supports_negative_add_amounts \<longleftrightarrow>
     (let sm = counter_new;
          sm = counter_apply sm (lit ''set 10'');
          sm = counter_apply sm (lit ''add -3'')
      in csm_value sm = 7)"

definition add_saturates_at_i64_bounds :: bool where
  "add_saturates_at_i64_bounds \<longleftrightarrow>
     (let sm = counter_new;
          sm = counter_apply sm (lit ''set '' @ i64_to_string i64_max);
          high = counter_apply sm (lit ''inc'');
          sm = counter_apply high (lit ''set '' @ i64_to_string i64_min);
          low = counter_apply sm (lit ''dec'')
      in csm_value high = i64_max \<and> csm_value low = i64_min)"

definition snapshot_roundtrip_restores_counter_value :: bool where
  "snapshot_roundtrip_restores_counter_value \<longleftrightarrow>
     (let original = counter_apply counter_new (lit ''set 42'') in
      case counter_restore counter_new (counter_snapshot original) of
        (restored, Inr _) \<Rightarrow> csm_value restored = 42
      | (_, Inl _) \<Rightarrow> False)"

definition restore_rejects_invalid_snapshot_bytes :: bool where
  "restore_rejects_invalid_snapshot_bytes \<longleftrightarrow>
     (case counter_restore counter_new (lit ''not-a-number'') of
        (_, Inl err) \<Rightarrow> str_contains (lit ''parse counter snapshot'') err
      | (_, Inr _) \<Rightarrow> False)"

lemmas string_defs = lit_def trim_def is_whitespace_def eq_ignore_ascii_case_def to_ascii_lower_def
  strip_prefix_def is_digit_def nat_digits.simps

lemmas counter_test_defs = counter_apply_def counter_parse_command_def counter_new_def counter_describe_def
  saturating_add_def parse_i64_def i64_min_def i64_max_def i64_to_string_def string_defs Let_def

lemma counter_tests:
  "applies_basic_counter_commands" "supports_set_and_reset" "ignores_invalid_commands"
  "handles_whitespace_and_case_for_keywords" "supports_negative_add_amounts"
  by (simp_all add: applies_basic_counter_commands_def supports_set_and_reset_def ignores_invalid_commands_def
      handles_whitespace_and_case_for_keywords_def supports_negative_add_amounts_def counter_test_defs)

lemma counter_bound_test: "add_saturates_at_i64_bounds"
  by (simp add: add_saturates_at_i64_bounds_def counter_test_defs)

lemma counter_snapshot_tests:
  "snapshot_roundtrip_restores_counter_value" "restore_rejects_invalid_snapshot_bytes"
  by (simp_all add: snapshot_roundtrip_restores_counter_value_def restore_rejects_invalid_snapshot_bytes_def
      counter_snapshot_def counter_restore_def into_bytes_def utf8_char_def counter_test_defs)

subsection \<open>\<open>raftust-core-state-machine-key-value/src/lib.rs\<close>\<close>

definition applies_set_and_delete_commands :: "(nat \<Rightarrow> bool) \<Rightarrow> kv_iter \<Rightarrow> bool" where
  "applies_set_and_delete_commands shown iter \<longleftrightarrow>
     (let sm = kv_new;
          sm = kv_apply sm (lit ''set color blue'');
          sm = kv_apply sm (lit ''set size large'');
          sm = kv_apply sm (lit ''del color'')
      in kv_describe shown iter sm = lit ''{\"size\": \"large\"}'')"

definition set_supports_values_with_spaces :: "(nat \<Rightarrow> bool) \<Rightarrow> kv_iter \<Rightarrow> bool" where
  "set_supports_values_with_spaces shown iter \<longleftrightarrow>
     (let sm = kv_apply kv_new (lit ''set note hello world from raft'')
      in str_contains (lit ''\"note\": \"hello world from raft\"'') (kv_describe shown iter sm))"

definition invalid_commands_do_not_mutate_state :: "(nat \<Rightarrow> bool) \<Rightarrow> kv_iter \<Rightarrow> bool" where
  "invalid_commands_do_not_mutate_state shown iter \<longleftrightarrow>
     (let sm = kv_new;
          sm = kv_apply sm (lit ''set'');
          sm = kv_apply sm (lit ''set    '');
          sm = kv_apply sm (lit ''del'');
          sm = kv_apply sm (lit ''unknown command'')
      in kv_describe shown iter sm = lit ''{}'')"

definition delete_missing_key_is_a_noop :: "(nat \<Rightarrow> bool) \<Rightarrow> kv_iter \<Rightarrow> bool" where
  "delete_missing_key_is_a_noop shown iter \<longleftrightarrow>
     (let sm = kv_new;
          sm = kv_apply sm (lit ''set color blue'');
          sm = kv_apply sm (lit ''del missing'')
      in str_contains (lit ''\"color\": \"blue\"'') (kv_describe shown iter sm))"

definition snapshot_roundtrip_restores_state :: "kv_json \<Rightarrow> (nat \<Rightarrow> bool) \<Rightarrow> kv_iter \<Rightarrow> bool" where
  "snapshot_roundtrip_restores_state J shown iter \<longleftrightarrow>
     (let original = kv_apply (kv_apply kv_new (lit ''set color blue'')) (lit ''set size large'') in
      case kv_restore J kv_new (kv_snapshot J original) of
        (restored, Inr _) \<Rightarrow>
          str_contains (lit ''\"color\": \"blue\"'') (kv_describe shown iter restored) \<and>
          str_contains (lit ''\"size\": \"large\"'') (kv_describe shown iter restored)
      | (_, Inl _) \<Rightarrow> False)"

lemma kv_commands_parsed:
  "kv_parse_command (lit ''set color blue'') = Some (SetKey (lit ''color'') (lit ''blue''))"
  "kv_parse_command (lit ''set size large'') = Some (SetKey (lit ''size'') (lit ''large''))"
  "kv_parse_command (lit ''set note hello world from raft'') = Some (SetKey (lit ''note'') (lit ''hello world from raft''))"
  "kv_parse_command (lit ''del color'') = Some (DeleteKey (lit ''color''))"
  "kv_parse_command (lit ''del missing'') = Some (DeleteKey (lit ''missing''))"
  "kv_parse_command (lit ''set'') = None" "kv_parse_command (lit ''set    '') = None"
  "kv_parse_command (lit ''del'') = None" "kv_parse_command (lit ''unknown command'') = None"
  by (simp_all add: kv_parse_command_def string_defs Let_def)

lemma lit_distinct: "lit ''color'' \<noteq> lit ''size''" "lit ''color'' \<noteq> lit ''missing''"
  by (simp_all add: lit_def)

lemma kv_iter_one: "kv_iter_ok iter \<Longrightarrow> iter [k \<mapsto> v] = [(k, v)]"
proof -
  assume "kv_iter_ok iter"
  moreover have "finite (dom [k \<mapsto> v])" by simp
  ultimately have d: "distinct (map fst (iter [k \<mapsto> v]))" "map_of (iter [k \<mapsto> v]) = [k \<mapsto> v]"
    unfolding kv_iter_ok_def by blast+
  have "fst ` set (iter [k \<mapsto> v]) = {k}" using d(2) by (metis dom_eq_singleton_conv dom_map_of_conv_image_fst)
  then have "length (iter [k \<mapsto> v]) = 1" using d(1) by (metis distinct_card is_singleton_altdef is_singletonI length_map set_map)
  then obtain k' v' where i: "iter [k \<mapsto> v] = [(k', v')]" by (metis One_nat_def length_0_conv length_Suc_conv surj_pair)
  then have "[k' \<mapsto> v'] = [k \<mapsto> v]" using d(2) by simp
  then show ?thesis using i by (metis (full_types) fun_upd_same option.inject option.distinct(1) fun_upd_other)
qed

lemma kv_iter_none: "kv_iter_ok iter \<Longrightarrow> iter Map.empty = []"
  unfolding kv_iter_ok_def by (metis dom_empty finite.emptyI map_of_eq_empty_iff)

lemmas kv_test_defs = kv_new_def kv_apply_def kv_commands_parsed lit_distinct Let_def

lemma kv_describe_has:
  assumes "kv_iter_ok iter" and "finite (dom m)" and "m (lit k) = Some (lit v)"
    and "debug_str shown (lit k) @ lit '': '' @ debug_str shown (lit v) = p"
  shows "str_contains p (kv_describe shown iter \<lparr>kv_map = m\<rparr>)"
  using kv_describe_contains [of iter "\<lparr>kv_map = m\<rparr>" "lit k" "lit v" shown] assms by simp

lemma kv_tests:
  assumes "kv_iter_ok iter"
  shows "applies_set_and_delete_commands shown iter" "set_supports_values_with_spaces shown iter"
    "invalid_commands_do_not_mutate_state shown iter" "delete_missing_key_is_a_noop shown iter"
proof -
  note printed = debug_str_def escape_debug_def lit_def
  let ?sm = "kv_apply (kv_apply (kv_apply kv_new (lit ''set color blue'')) (lit ''set size large'')) (lit ''del color'')"
  have "?sm = \<lparr>kv_map = [lit ''size'' \<mapsto> lit ''large'']\<rparr>"
    by (rule kv_eqI) (auto simp: kv_test_defs)
  moreover have "kv_describe shown iter \<lparr>kv_map = [lit ''size'' \<mapsto> lit ''large'']\<rparr> = lit ''{\"size\": \"large\"}''"
    using kv_iter_one [OF assms, of "lit ''size''" "lit ''large''"]
    by (simp add: kv_describe_def del: fun_upd_apply) (simp add: printed)
  ultimately show "applies_set_and_delete_commands shown iter"
    by (simp only: applies_set_and_delete_commands_def Let_def)
  show "set_supports_values_with_spaces shown iter"
    unfolding set_supports_values_with_spaces_def
    by (simp add: kv_test_defs) (rule kv_describe_has [OF assms, where k = "''note''" and v = "''hello world from raft''"]; simp add: printed)
  show "invalid_commands_do_not_mutate_state shown iter"
    using kv_iter_none [OF assms]
    by (simp add: invalid_commands_do_not_mutate_state_def kv_test_defs kv_describe_def) (simp add: printed)
  show "delete_missing_key_is_a_noop shown iter"
    unfolding delete_missing_key_is_a_noop_def
    by (simp add: kv_test_defs)
      (rule kv_describe_has [OF assms, where k = "''color''" and v = "''blue''"]; simp add: printed)
qed

lemma kv_snapshot_test:
  assumes "kv_iter_ok iter" and "kv_json_ok J"
  shows "snapshot_roundtrip_restores_state J shown iter"
proof -
  let ?m = "[lit ''color'' \<mapsto> lit ''blue'', lit ''size'' \<mapsto> lit ''large'']"
  have "kv_restore J kv_new (kv_snapshot J \<lparr>kv_map = ?m\<rparr>) = (\<lparr>kv_map = ?m\<rparr>, Inr ())"
    using assms(2) by (intro kv_restore_snapshot) (simp add: kv_ok_def)
  moreover have "str_contains (lit ''\"color\": \"blue\"'') (kv_describe shown iter \<lparr>kv_map = ?m\<rparr>)"
    by (rule kv_describe_has [OF assms(1), where k = "''color''" and v = "''blue''"])
      (simp_all add: lit_distinct, simp_all add: debug_str_def escape_debug_def lit_def)
  moreover have "str_contains (lit ''\"size\": \"large\"'') (kv_describe shown iter \<lparr>kv_map = ?m\<rparr>)"
    by (rule kv_describe_has [OF assms(1), where k = "''size''" and v = "''large''"])
      (simp_all add: debug_str_def escape_debug_def lit_def)
  ultimately show ?thesis
    by (simp add: snapshot_roundtrip_restores_state_def kv_new_def kv_apply_def kv_commands_parsed)
qed

subsection \<open>The storages\<close>

definition sample_stored :: storage_snapshot where
  "sample_stored =
     \<lparr>ss_node_id = 1, ss_current_term = 3, ss_voted_for = Some 2,
      ss_log = [entry 1 ''set color blue'', entry 2 ''set size large''], ss_commit_index = 2,
      ss_last_included_index = 0, ss_last_included_term = 0, ss_state_machine_snapshot = lit ''kv-json''\<rparr>"

text \<open>The tests of the file storage run in a new directory; removing it at the end is left out.\<close>

definition fresh_dir :: "path \<Rightarrow> disk \<Rightarrow> bool" where
  "fresh_dir dir d \<longleftrightarrow> disk_clean (file_storage_new dir) d \<and> (\<forall>name. hm_get (fd_files d) (dir @ [name]) = None)"

definition save_and_load_roundtrip :: "snapshot_json \<Rightarrow> path \<Rightarrow> disk \<Rightarrow> bool" where
  "save_and_load_roundtrip J dir d \<longleftrightarrow>
     (let storage = file_save J sample_stored (file_storage_new dir, d) in
      case file_load J storage 1 of
        None \<Rightarrow> False
      | Some loaded \<Rightarrow>
          ss_node_id loaded = ss_node_id sample_stored \<and>
          ss_current_term loaded = ss_current_term sample_stored \<and>
          ss_voted_for loaded = ss_voted_for sample_stored \<and>
          ss_commit_index loaded = ss_commit_index sample_stored \<and>
          ss_last_included_index loaded = ss_last_included_index sample_stored \<and>
          ss_last_included_term loaded = ss_last_included_term sample_stored \<and>
          ss_state_machine_snapshot loaded = ss_state_machine_snapshot sample_stored \<and>
          length (ss_log loaded) = 2 \<and>
          map_option le_command (vec_index (ss_log loaded) 1) = Some (lit ''set size large''))"

definition load_returns_none_when_file_missing :: "snapshot_json \<Rightarrow> path \<Rightarrow> disk \<Rightarrow> bool" where
  "load_returns_none_when_file_missing J dir d \<longleftrightarrow> file_load J (file_storage_new dir, d) 42 = None"

lemma file_storage_tests:
  assumes "snapshot_json_ok J" and "fresh_dir dir d"
  shows "save_and_load_roundtrip J dir d" and "load_returns_none_when_file_missing J dir d"
proof -
  have "file_good J (file_storage_new dir, d)" using assms by (simp add: file_good_def fresh_dir_def)
  then have "file_load J (file_save J sample_stored (file_storage_new dir, d)) (ss_node_id sample_stored) = Some sample_stored"
    by (rule file_store.load_save)
  then show "save_and_load_roundtrip J dir d"
    by (simp add: save_and_load_roundtrip_def sample_stored_def vec_index_def entry_def)
  show "load_returns_none_when_file_missing J dir d"
    using assms(2) by (simp add: load_returns_none_when_file_missing_def fresh_dir_def file_load_def load_snapshot_file_def
        fs_read_to_string_def snapshot_path_def file_storage_new_def)
qed

definition test_snapshot :: "node_id \<Rightarrow> term_no \<Rightarrow> string \<Rightarrow> nat \<Rightarrow> storage_snapshot" where
  "test_snapshot i t command commit =
     \<lparr>ss_node_id = i, ss_current_term = t, ss_voted_for = None, ss_log = [entry t command], ss_commit_index = commit,
      ss_last_included_index = 0, ss_last_included_term = 0, ss_state_machine_snapshot = []\<rparr>"

definition load_returns_none_for_unknown_node :: bool where
  "load_returns_none_for_unknown_node \<longleftrightarrow> in_memory_load in_memory_new 42 = None"

definition save_then_load_round_trips_snapshot :: bool where
  "save_then_load_round_trips_snapshot \<longleftrightarrow>
     (let original = test_snapshot 1 3 ''set key value'' 1;
          storage = in_memory_save original in_memory_new in
      case in_memory_load storage 1 of
        None \<Rightarrow> False
      | Some loaded \<Rightarrow>
          ss_node_id loaded = ss_node_id original \<and> ss_current_term loaded = ss_current_term original \<and>
          ss_voted_for loaded = ss_voted_for original \<and> ss_log loaded = ss_log original \<and>
          ss_commit_index loaded = ss_commit_index original \<and>
          ss_last_included_index loaded = ss_last_included_index original \<and>
          ss_last_included_term loaded = ss_last_included_term original \<and>
          ss_state_machine_snapshot loaded = ss_state_machine_snapshot original)"

definition save_overwrites_existing_snapshot_for_same_node :: bool where
  "save_overwrites_existing_snapshot_for_same_node \<longleftrightarrow>
     (let storage = in_memory_new;
          storage = in_memory_save (test_snapshot 7 1 ''set a 1'' 0) storage;
          storage = in_memory_save (test_snapshot 7 2 ''set a 2'' 1) storage in
      case in_memory_load storage 7 of
        None \<Rightarrow> False
      | Some loaded \<Rightarrow>
          ss_current_term loaded = 2 \<and> ss_commit_index loaded = 1 \<and>
          map_option le_command (vec_index (ss_log loaded) 0) = Some (lit ''set a 2''))"

lemma in_memory_tests:
  "load_returns_none_for_unknown_node" "save_then_load_round_trips_snapshot"
  "save_overwrites_existing_snapshot_for_same_node"
  by (simp_all add: load_returns_none_for_unknown_node_def save_then_load_round_trips_snapshot_def
      save_overwrites_existing_snapshot_for_same_node_def in_memory_load_def in_memory_save_def in_memory_new_def
      test_snapshot_def vec_index_def entry_def)

subsection \<open>\<open>raftust-core-comm-grpc/src/lib.rs\<close>\<close>

definition request_response_round_trip_preserves_sender :: bool where
  "request_response_round_trip_preserves_sender \<longleftrightarrow>
     (case and_then (encode_message 3 1
         (AppendEntriesResponse \<lparr>aer_term = 7, aer_success = True, aer_from = 99, aer_match_index = 42\<rparr>)) decode_envelope of
        Inr inbound \<Rightarrow>
          (case im_message inbound of
             AppendEntriesResponse response \<Rightarrow>
               aer_from response = 3 \<and> aer_match_index response = 42 \<and> aer_success response
           | _ \<Rightarrow> False)
      | Inl _ \<Rightarrow> False)"

definition snapshot_response_round_trip_preserves_sender :: bool where
  "snapshot_response_round_trip_preserves_sender \<longleftrightarrow>
     (case and_then (encode_message 5 2
         (InstallSnapshotResponse \<lparr>isr_term = 11, isr_from = 21, isr_success = False\<rparr>)) decode_envelope of
        Inr inbound \<Rightarrow>
          (case im_message inbound of
             InstallSnapshotResponse response \<Rightarrow> isr_from response = 5 \<and> \<not> isr_success response
           | _ \<Rightarrow> False)
      | Inl _ \<Rightarrow> False)"

lemma grpc_tests:
  "request_response_round_trip_preserves_sender" "snapshot_response_round_trip_preserves_sender"
  by (simp_all add: request_response_round_trip_preserves_sender_def snapshot_response_round_trip_preserves_sender_def
      encode_message_def encode_payload_def decode_envelope_def decode_payload_def usize_to_u64_def u64_to_usize_def
      u64_limit_def)

end
