(* ===== verification/Spec2Isabelle.thy ===== *)
theory Spec2Isabelle
  imports Node_Properties Store_Properties Transport_Properties Program_Properties Log_Matching Traces Replicated Lone_Node Unit_Tests
begin

text \<open>
  A model of raftust, a Raft implementation in Rust, and what it does. The program is a library: the
  consensus node (\<open>raftust-core/src/node.rs\<close>) is a state machine without I/O; the runner
  (\<open>runner.rs\<close>) owns it together with a transport, a storage and a state machine, each behind a trait;
  the other crates are two transports (gRPC and HTTPS), two storages (in memory and files) and two state
  machines (a counter and a key-value store). The example programs connect them to the command line.

  \<^bold>\<open>Conventions.\<close> A struct is a record, an enum a datatype, a method a function from the receiver to the
  receiver it leaves and the result. An outer \<open>option\<close> is a possible panic: \<open>None\<close> for an addition that
  overflows \<open>u64\<close> or \<open>usize\<close> (64 bits, checked arithmetic as in a debug build), a failed \<open>assert!\<close>, a
  reversed \<open>clamp\<close>, a slice out of range, an empty random range. \<open>Result\<close> is a sum, the error on the
  left. Integers are natural numbers with \<open>uadd\<close> for the checked addition; the counter's \<open>i64\<close> is an
  \<open>int\<close> with saturation. Strings are lists of code points and bytes lists of numbers. A \<open>HashMap\<close> is an
  association list with distinct keys where its order can be seen, a map where it cannot. What is not in
  the repository is a parameter: the random numbers (\<open>gen_range\<close>; the field \<open>rng_draws\<close> counts the timeouts chosen, with a fixed
  timeout as well, where the code draws no number),
  \<open>serde_json\<close> (\<open>snapshot_json\<close>, \<open>kv_json\<close>, with the law that what was written is read back), the
  network calls of the transports (\<open>rpc\<close>, \<open>post\<close>) and the steps of their start that can fail.

  \<^bold>\<open>Theories.\<close>
  \<^item> \<open>Prelude\<close>: checked arithmetic, slices, association lists. \<open>Types\<close>: \<open>types.rs\<close> and the messages of
    \<open>communication.rs\<close>. \<open>Rust_Str\<close>: what the code uses of the standard library's strings (trimming,
    prefixes, splitting, parsing and printing of integers, UTF-8, \<open>{:?}\<close>).
  \<^item> \<open>Node\<close>: the state and every operation of \<open>RaftNode\<close>, in the order and with the guards of the source.
    \<open>Node_Log\<close>: positions, terms and entries of a compacted log, and \<open>reconcile\<close>, the log the Raft paper
    asks for, as the specification of the loop in \<open>handle_append_entries\<close>. \<open>Node_Inv\<close>: the invariant
    \<open>node_inv\<close>, kept by every operation, and rules that split the handlers into their cases.
    \<open>Node_Votes\<close>, \<open>Node_Replication\<close>, \<open>Node_Apply\<close>: terms and votes; logs, heartbeats and commitment;
    application, compaction and the absence of panics. \<open>Samples\<close>: concrete nodes for the witnesses.
  \<^item> \<open>State_Machine\<close>, \<open>Counter\<close>, \<open>Key_Value\<close>: the trait with its contract as the locales
    \<open>state_machine\<close> and \<open>replayable_state_machine\<close>, and the two machines, which interpret them.
  \<^item> \<open>Storage\<close>, \<open>File_Storage\<close>: the trait with its contract as the locale \<open>storage_strategy\<close>, the
    in-memory storage, and the file storage on a disk whose calls may fail one by one.
  \<^item> \<open>Config\<close>: the command line. \<open>Cli\<close>: the commands typed at the example programs. \<open>Programs\<close>: the three
    programs, from the command line through the thread that reads commands to the runner, each with its
    transport, storage and state machine.
  \<^item> \<open>Runner\<close>: the event loop, one definition per message, command and step. \<open>Runner_Inv\<close>: \<open>react\<close>, the
    reaction of the node alone, and that each handler implements it. \<open>Runner_Loop\<close>: invariants of the
    loop. \<open>Durability\<close>: the storage always holds the node (locale \<open>durable_runner\<close>, interpreted on both
    storages). \<open>Recovery\<close>: a restart gives it back. \<open>Restart\<close>: the state machine across a restart.
  \<^item> \<open>Election\<close>, \<open>Election_Safety\<close>, \<open>Cluster\<close>: what an event does to terms, votes and roles as an
    inductive relation; the inductive invariant behind one leader per term; runners on a network that
    loses, repeats, delays and reorders packets, with restarts. \<open>Log_History\<close>, \<open>Log_Matching\<close>: what an
    event does to a log, logs and requests as chains of proposals, and the invariant behind the
    matching of logs in that cluster.
  \<^item> \<open>History_Tree\<close>, \<open>Replica_Step\<close>, \<open>Commit_Inv\<close>, \<open>Commit_Step\<close>, \<open>Commit_Safety\<close>, \<open>Commit_Kept\<close>,
    \<open>Commit_Cluster\<close>: the proposals of a cluster as a tree in which a log is a path to its tip; what an
    event does to tips, commit indexes and match indexes; committed proposals, and that no later leader
    lacks one; the inductive invariant that carries this through clean runs (\<open>clean_run\<close>, executable), and
    its place in the cluster. \<open>Replicated\<close>: the machines of the nodes run one list of commands.
    \<open>Lone_Node\<close>: a cluster of one node, which never has a leader. \<open>Traces\<close>: runs of a concrete cluster.
  \<^item> \<open>Transport\<close>, \<open>Wire\<close>, \<open>Https\<close>, \<open>Grpc\<close>: the loop that empties a transport (locale
    \<open>queued_transport\<close>, interpreted on both), the wire formats and the two transports with their listeners.
  \<^item> \<open>Node_Properties\<close>, \<open>Store_Properties\<close>, \<open>Transport_Properties\<close>, \<open>Program_Properties\<close> and this theory
    hold the properties, numbered C1, C2 and so on, each with a witness where it has a hypothesis. \<open>Codec\<close> has concrete
    codecs for the witnesses that need a \<open>serde_json\<close>. \<open>Unit_Tests\<close>: the unit tests of
    the repository, run on the model as a check of its definitions against the code.

  \<^bold>\<open>The safety argument of Raft.\<close> Of its five properties three hold of this program: election safety,
  leader append-only and log matching. Leader completeness and state machine safety fail, by the way
  followers acknowledge entries: \<open>state_machines_diverge\<close> is a run that breaks both. They hold as long
  as every acknowledgement is clean (\<open>leader_completeness\<close>, \<open>committed_entries_agree\<close>), and then the
  cluster refines a single state machine (\<open>one_replicated_machine\<close>): the only obstacle
  is that a follower reports the end of its own log instead of the end of the request. The run that
  diverges is not clean (\<open>unsafe_not_clean\<close>).

  \<^bold>\<open>Bounds and fuel.\<close> The loop of \<open>process_communication\<close> is a partial function; \<open>poll_loop\<close> counts its
  polls, and one more than there are queued messages is enough. The main loop takes its inputs (clock
  readings, commands and, in \<open>Programs\<close>, what the listener received before the turn) as a list. No other
  definition has fuel. What arrives while a turn empties the queue counts as arrived before the turn.

  \<^bold>\<open>Not modelled.\<close> Log lines and the text of \<open>status\<close>; the sleep between turns; TLS, HTTP and
  gRPC servers and clients and the tokio runtimes, of which only the results of the calls matter; the
  build script; reading standard input and environment variables. An event of \<open>Cluster\<close> is a whole
  handler: a stop between the answer and the save is the subject of \<open>vote_answered_before_saved\<close> and
  of \<open>faulty_run\<close> in \<open>Traces\<close>, where it breaks election safety.
\<close>

subsection \<open>Inputs of the witnesses\<close>

text \<open>A runner over the in-memory storage whose transport never fails to start.\<close>

definition solo_env :: "'m state_machine_ops \<Rightarrow> (outbox, in_memory_storage, 'm) runner_env" where
  "solo_env M = cluster_env in_memory_ops M min_rng"

definition solo_runner :: "raft_node \<Rightarrow> 'm \<Rightarrow> in_memory_storage \<Rightarrow> (outbox, in_memory_storage, 'm) runner" where
  "solo_runner n m s =
     \<lparr>r_config = sample_config 1 [2, 3], r_node = n, r_communication = [], r_storage = s, r_machine = m,
      r_inbound_count = 0, r_applied_count = 0, r_dropped_outbound = 0, r_last_report_at = 0\<rparr>"

definition saved :: "raft_node \<Rightarrow> bytes \<Rightarrow> in_memory_storage" where
  "saved n b = in_memory_save (from_node n b) in_memory_new"

definition one_write :: raft_node where
  "one_write = follower\<lparr>log := [\<lparr>le_term = 1, le_command = lit ''set k v''\<rparr>], commit_index := 1, last_applied := 1\<rparr>"

definition two_incs :: raft_node where
  "two_incs = follower\<lparr>log := replicate 2 \<lparr>le_term = 1, le_command = lit ''inc''\<rparr>, commit_index := 2, last_applied := 2\<rparr>"

lemma small_nodes:
  "nid one_write = 1" "log_end one_write < u64_limit" "nid two_incs = 1" "log_end two_incs < u64_limit"
  by (simp_all add: one_write_def two_incs_def follower_def log_end_def u64_limit_def)

lemma sample_config_ok: "config_ok (sample_config 1 [2, 3])" "config_u64 (sample_config 1 [2, 3])"
  by (simp_all add: sample_config_def config_ok_def config_u64_def hm_ok_def hm_keys_def u64_limit_def)

lemma in_memory_new_ok: "in_memory_ok in_memory_new" "\<forall>i. st_load in_memory_ops in_memory_new i = None"
  by (simp_all add: in_memory_ok_def in_memory_new_def in_memory_load_def in_memory_ops_def hm_ok_def)

lemma saved_good: "in_memory_ok (saved n b)"
  unfolding saved_def by (rule in_memory_save_ok [OF in_memory_new_ok(1)])

lemma saved_load: "st_load (en_storage (solo_env M)) (saved n b) (nid n) = Some (from_node n b)"
  by (simp add: saved_def solo_env_def cluster_env_def in_memory_ops_def in_memory_load_save)

lemma solo_env_fields [simp]:
  "en_communication (solo_env M) = outbox_ops" "en_storage (solo_env M) = in_memory_ops"
  "en_machine (solo_env M) = M" "en_rng (solo_env M) = min_rng"
  by (simp_all add: solo_env_def cluster_env_def)

lemma solo_runner_ok: "nid n = 1 \<Longrightarrow> peers n = [2, 3] \<Longrightarrow> node_inv n \<Longrightarrow> runner_ok (solo_runner n m s)"
  by (simp add: runner_ok_def solo_runner_def sample_config_def hm_keys_def)

lemma solo_runner_durable: "durable (solo_env M) (solo_runner n m (saved n b))"
  using saved_load [of M n b] by (simp add: durable_def solo_runner_def)

lemma solo_restart:
  assumes "nid n = 1" and "log_end n < u64_limit"
  shows "\<exists>r. restart (solo_env M) k now (sample_config 1 [2, 3]) [] (saved n b) m = Some (r, Inr ())"
proof (rule restart_total [OF sample_config_ok(1)])
  show "st_load (en_storage (solo_env M)) (saved n b) (cfg_id (sample_config 1 [2, 3])) = Some (from_node n b)"
    using saved_load [of M n b] assms(1) by (simp add: sample_config_def)
qed (use assms(2) in \<open>simp_all add: from_node_def log_end_def outbox_ops_def\<close>)

lemma samples_fields [simp]:
  "nid follower = 1" "nid leader = 1" "nid candidate = 1" "peers follower = [2, 3]" "peers leader = [2, 3]"
  "peers candidate = [2, 3]" "log_end follower = 3" "log_end leader = 3" "log_end candidate = 3"
  "voted_for follower = None" "current_term follower = 2"
  by (simp_all add: follower_def leader_def candidate_def log_end_def)

subsection \<open>Elections\<close>

text \<open>
  C1. Election safety. Start a cluster of nodes on empty storages, with configurations that name each
  other, and let anything happen: messages are lost, repeated, delayed and reordered, timers fire,
  commands come, nodes stop and start again on what they saved. Then no two nodes ever lead the same
  term, and every node that leads now is on record as the leader of its term.
\<close>

theorem election_safety:
  assumes "durable_runner S good" and "gen_range_ok rng" and "cluster_config_ok cfgs"
    and "good s0" and "\<forall>i. st_load S s0 i = None"
    and "cluster_start (cluster_env S M rng) s0 m0 cfgs = Some cl0"
    and "cluster_run (cluster_env S M rng) m0 evs cl0 = Some cl"
  shows "(\<forall>t i j. (t, i) \<in> set (cl_elected cl) \<longrightarrow> (t, j) \<in> set (cl_elected cl) \<longrightarrow> i = j) \<and>
    (\<forall>i r. hm_get (cl_runners cl) i = Some r \<longrightarrow> role (r_node r) = Leader \<longrightarrow>
       (current_term (r_node r), i) \<in> set (cl_elected cl))"
proof -
  have "cluster_inv good (cluster_env S M rng) (cfg_id ` set cfgs) cl"
    using durable_runner.cluster_reachable_inv [OF assms(1) _ _ _ assms(3-7)] assms(2) by (simp add: cluster_env_def)
  then have "one_leader (set (cl_elected cl))" "leaders_elected (cluster_nodes cl) (set (cl_elected cl))"
    by (simp_all add: cluster_inv_def election_inv_def)
  then show ?thesis unfolding one_leader_def leaders_elected_def cluster_nodes_def by auto
qed

theorem election_safety_witness:
  "\<exists>cl0 cl. cluster_start sample_env in_memory_new [] sample_configs = Some cl0 \<and>
     cluster_run sample_env [] [Commands 1 ForceElection, Deliver 0, Deliver 2] cl0 = Some cl \<and>
     (1, 1) \<in> set (cl_elected cl) \<and> (1, 2) \<notin> set (cl_elected cl)"
proof -
  obtain cl0 cl where h: "cluster_start sample_env in_memory_new [] sample_configs = Some cl0"
    "cluster_run sample_env [] [Commands 1 ForceElection, Deliver 0, Deliver 2] cl0 = Some cl" "cl_elected cl = [(1, 1)]"
    using sample_election by blast
  note safe = election_safety [OF in_memory_durable.durable_runner_axioms min_rng_ok sample_configs_ok in_memory_new_ok
      h(1,2) [unfolded sample_env_def], THEN conjunct1, rule_format]
  have e: "(1, 1) \<in> set (cl_elected cl)" using h(3) by simp
  then have "(1, 2) \<notin> set (cl_elected cl)" using safe [of 1 1 2] by auto
  then show ?thesis using h(1,2) e by blast
qed

text \<open>
  C2. Log matching. In the same clusters, whatever happens: when two nodes have an entry of the same term
  at the same index, they have the same entry there and at every lower index that both logs still hold.
  Compaction, restarts and packets of deposed leaders do not break it.
\<close>

theorem log_matching:
  assumes "durable_runner S good" and "gen_range_ok rng" and "cluster_config_ok cfgs"
    and "good s0" and "\<forall>i. st_load S s0 i = None"
    and "cluster_start (cluster_env S M rng) s0 m0 cfgs = Some cl0"
    and "cluster_run (cluster_env S M rng) m0 evs cl0 = Some cl"
    and "hm_get (cl_runners cl) i = Some r" and "hm_get (cl_runners cl) j = Some q"
    and "entry_at (r_node r) k = Some e" and "entry_at (r_node q) k = Some f" and "le_term e = le_term f"
  shows "\<forall>l \<le> k. \<forall>x y. entry_at (r_node r) l = Some x \<longrightarrow> entry_at (r_node q) l = Some y \<longrightarrow> x = y"
proof -
  obtain H where "logged_cluster H cl"
    using durable_runner.cluster_reachable_logged [OF assms(1) _ _ _ assms(3-7)] assms(2) by (auto simp: cluster_env_def)
  then have "functional H" "log_based H (r_node r)" "log_based H (r_node q)" using logged_clusterD assms(8,9) by blast+
  from chains_match [OF this assms(10-12)] show ?thesis by blast
qed

theorem log_matching_witness:
  "\<exists>cl0 cl r q. cluster_start sample_env in_memory_new [] sample_configs = Some cl0 \<and>
     cluster_run sample_env [] two_proposals cl0 = Some cl \<and>
     hm_get (cl_runners cl) 1 = Some r \<and> hm_get (cl_runners cl) 2 = Some q \<and>
     entry_at (r_node r) 2 = entry_at (r_node q) 2 \<and>
     (\<exists>x y. entry_at (r_node r) 1 = Some x \<and> entry_at (r_node q) 1 = Some y \<and> x = y)"
proof -
  obtain cl0 cl where h: "cluster_start sample_env in_memory_new [] sample_configs = Some cl0"
    "cluster_run sample_env [] two_proposals cl0 = Some cl"
    "map (\<lambda>(i, r). (i, log (r_node r), snapshot_last_included_index (r_node r))) (cl_runners cl) =
       [(1, [entry 1 ''a'', entry 1 ''b''], 0), (2, [entry 1 ''a'', entry 1 ''b''], 0), (3, [], 0)]"
    using sample_replication by (elim exE conjE) (rule that)
  then obtain r q p where rs: "cl_runners cl = [(1, r), (2, q), (3, p)]"
    and l: "log (r_node r) = [entry 1 ''a'', entry 1 ''b'']" "log (r_node q) = [entry 1 ''a'', entry 1 ''b'']"
      "snapshot_last_included_index (r_node r) = 0" "snapshot_last_included_index (r_node q) = 0"
    by (auto simp: map_eq_Cons_conv)
  have g: "hm_get (cl_runners cl) 1 = Some r" "hm_get (cl_runners cl) 2 = Some q" by (simp_all add: rs)
  have e: "entry_at (r_node r) 2 = Some (entry 1 ''b'')" "entry_at (r_node q) 2 = Some (entry 1 ''b'')"
    "entry_at (r_node r) 1 = Some (entry 1 ''a'')" "entry_at (r_node q) 1 = Some (entry 1 ''a'')"
    by (simp_all add: entry_at_log l)
  have "\<forall>l \<le> 2. \<forall>x y. entry_at (r_node r) l = Some x \<longrightarrow> entry_at (r_node q) l = Some y \<longrightarrow> x = y"
    by (rule log_matching [OF in_memory_durable.durable_runner_axioms min_rng_ok sample_configs_ok in_memory_new_ok
        h(1,2) [unfolded sample_env_def] g e(1,2) refl])
  then have "\<exists>x y. entry_at (r_node r) 1 = Some x \<and> entry_at (r_node q) 1 = Some y \<and> x = y" using e(3,4) by simp
  then show ?thesis
    using h(1,2) g e(1,2) by - (rule exI [of _ cl0], rule exI [of _ cl], rule exI [of _ r], rule exI [of _ q], simp)
qed

text \<open>
  C3. Agreement on committed entries. In the same clusters, in runs in which every acknowledgement of a
  follower is clean (the log it acknowledges ends where the request ends, or in the term of the
  request): any two nodes, whatever their terms, have the same entry at every index that both count as
  committed and still hold. Messages may be lost, repeated, delayed and reordered and nodes may stop
  and start again; without clean acknowledgements it fails, in the run of \<open>state_machines_diverge\<close>.
\<close>

theorem committed_entries_agree:
  assumes "durable_runner S good" and "gen_range_ok rng" and "cluster_config_ok cfgs"
    and "good s0" and "\<forall>i. st_load S s0 i = None"
    and "cluster_start (cluster_env S M rng) s0 m0 cfgs = Some cl0"
    and "cluster_run (cluster_env S M rng) m0 evs cl0 = Some cl" and "clean_run (cluster_env S M rng) m0 evs cl0"
    and "hm_get (cl_runners cl) i = Some r" and "hm_get (cl_runners cl) j = Some q"
    and "k \<le> commit_index (r_node r)" and "k \<le> commit_index (r_node q)"
    and "entry_at (r_node r) k = Some e" and "entry_at (r_node q) k = Some f"
  shows "e = f"
proof -
  obtain H B where "committed_cluster (cfg_id ` set cfgs) H B cl"
    using durable_runner.cluster_reachable_committed [OF assms(1) _ _ _ assms(3-8)] assms(2)
    by (auto simp: cluster_env_def)
  from commits_agree [OF this [unfolded committed_cluster_def] cluster_node [OF assms(9)] cluster_node [OF assms(10)]
      assms(11-14)] show ?thesis .
qed

theorem committed_entries_agree_witness:
  "\<exists>cl0 cl r q e f. cluster_start sample_env in_memory_new [] sample_configs = Some cl0 \<and>
     cluster_run sample_env [] hand_over cl0 = Some cl \<and> clean_run sample_env [] hand_over cl0 \<and>
     hm_get (cl_runners cl) 1 = Some r \<and> hm_get (cl_runners cl) 2 = Some q \<and>
     commit_index (r_node r) = 1 \<and> commit_index (r_node q) = 1 \<and>
     entry_at (r_node r) 1 = Some e \<and> entry_at (r_node q) 1 = Some f \<and> e = f"
proof -
  obtain cl0 cl r q where h: "cluster_start sample_env in_memory_new [] sample_configs = Some cl0"
      "cluster_run sample_env [] hand_over cl0 = Some cl" "clean_run sample_env [] hand_over cl0"
      "hm_get (cl_runners cl) 1 = Some r" "hm_get (cl_runners cl) 2 = Some q"
      "commit_index (r_node r) = 1" "commit_index (r_node q) = 1"
      "entry_at (r_node r) 1 = Some (entry 1 ''a'')" "entry_at (r_node q) 1 = Some (entry 1 ''a'')"
    using sample_hand_over by (elim exE conjE) (rule that)
  obtain e f where ef: "entry_at (r_node r) 1 = Some e" "entry_at (r_node q) 1 = Some f" using h(8,9) by blast
  have "e = f"
    by (rule committed_entries_agree [OF in_memory_durable.durable_runner_axioms min_rng_ok sample_configs_ok
        in_memory_new_ok h(1-3) [unfolded sample_env_def] h(4,5) _ _ ef]) (simp_all add: h(6,7))
  then show ?thesis using h(1-7) ef by metis
qed

text \<open>
  C4. Leader completeness. In the same clean runs a leader holds, unless it has compacted it, every entry
  that a node of its own or an older term counts as committed.
\<close>

theorem leader_completeness:
  assumes "durable_runner S good" and "gen_range_ok rng" and "cluster_config_ok cfgs"
    and "good s0" and "\<forall>i. st_load S s0 i = None"
    and "cluster_start (cluster_env S M rng) s0 m0 cfgs = Some cl0"
    and "cluster_run (cluster_env S M rng) m0 evs cl0 = Some cl" and "clean_run (cluster_env S M rng) m0 evs cl0"
    and "hm_get (cl_runners cl) i = Some r" and "hm_get (cl_runners cl) j = Some q"
    and "role (r_node q) = Leader" and "current_term (r_node r) \<le> current_term (r_node q)"
    and "k \<le> commit_index (r_node r)" and "entry_at (r_node r) k = Some e"
    and "snapshot_last_included_index (r_node q) < k"
  shows "entry_at (r_node q) k = Some e"
proof -
  obtain H B where "committed_cluster (cfg_id ` set cfgs) H B cl"
    using durable_runner.cluster_reachable_committed [OF assms(1) _ _ _ assms(3-8)] assms(2)
    by (auto simp: cluster_env_def)
  from leader_has_committed [OF this [unfolded committed_cluster_def] cluster_node [OF assms(9)]
      cluster_node [OF assms(10)] assms(11-15)] show ?thesis .
qed

theorem leader_completeness_witness:
  "\<exists>cl0 cl r q. cluster_start sample_env in_memory_new [] sample_configs = Some cl0 \<and>
     cluster_run sample_env [] hand_over cl0 = Some cl \<and> clean_run sample_env [] hand_over cl0 \<and>
     hm_get (cl_runners cl) 1 = Some r \<and> hm_get (cl_runners cl) 2 = Some q \<and>
     current_term (r_node r) = 1 \<and> current_term (r_node q) = 2 \<and> role (r_node q) = Leader \<and>
     commit_index (r_node r) = 1 \<and> entry_at (r_node q) 1 = entry_at (r_node r) 1"
proof -
  obtain cl0 cl r q where h: "cluster_start sample_env in_memory_new [] sample_configs = Some cl0"
      "cluster_run sample_env [] hand_over cl0 = Some cl" "clean_run sample_env [] hand_over cl0"
      "hm_get (cl_runners cl) 1 = Some r" "hm_get (cl_runners cl) 2 = Some q"
      "commit_index (r_node r) = 1" "commit_index (r_node q) = 1"
      "current_term (r_node r) = 1" "current_term (r_node q) = 2" "role (r_node q) = Leader"
      "snapshot_last_included_index (r_node q) = 0"
      "entry_at (r_node r) 1 = Some (entry 1 ''a'')" "entry_at (r_node q) 1 = Some (entry 1 ''a'')"
    using sample_hand_over by (elim exE conjE) (rule that)
  have "entry_at (r_node q) 1 = Some (entry 1 ''a'')"
    by (rule leader_completeness [OF in_memory_durable.durable_runner_axioms min_rng_ok sample_configs_ok
        in_memory_new_ok h(1-3) [unfolded sample_env_def] h(4,5,10) _ _ h(12)]) (simp_all add: h(6,8,9,11))
  then show ?thesis using h(1-10) h(12) by metis
qed

text \<open>
  C5. The cluster is one replicated state machine. In the same clean runs there is a single list of
  commands such that, at every node, all that is committed is applied and the machine is the initial
  one after the first \<open>commit_index\<close> commands of the list, compacted or not. Restarts are allowed for
  machines whose commands may be replayed, such as the key-value store; for the counter \<open>counter_restart\<close>
  shows that it fails.
\<close>

theorem one_replicated_machine:
  assumes "durable_runner S good" and "gen_range_ok rng" and "cluster_config_ok cfgs"
    and "good s0" and "\<forall>i. st_load S s0 i = None"
    and "cluster_start (cluster_env S M rng) s0 m0 cfgs = Some cl0"
    and "cluster_run (cluster_env S M rng) m0 evs cl0 = Some cl" and "clean_run (cluster_env S M rng) m0 evs cl0"
    and "(\<exists>i k. Restarts i k \<in> set evs) \<longrightarrow> replayable M m0"
  shows "\<exists>cs. \<forall>i r. hm_get (cl_runners cl) i = Some r \<longrightarrow>
    last_applied (r_node r) = commit_index (r_node r) \<and> commit_index (r_node r) \<le> length cs \<and>
    r_machine r = sm_run (sm_apply M) (take (commit_index (r_node r)) cs) m0"
proof -
  have E: "en_communication (cluster_env S M rng) = outbox_ops" "en_storage (cluster_env S M rng) = S"
      "gen_range_ok (en_rng (cluster_env S M rng))" "en_machine (cluster_env S M rng) = M"
    using assms(2) by (simp_all add: cluster_env_def)
  obtain H B where "committed_cluster (cfg_id ` set cfgs) H B cl" "replicated_cluster (cluster_env S M rng) m0 H cl"
    using durable_runner.cluster_reachable_replicated [OF assms(1) E(1-3) assms(3-8)] assms(9) E(4) by auto
  from one_command_list [OF this] show ?thesis unfolding E(4) .
qed

lemma key_value_replayable: "kv_json_ok J \<Longrightarrow> replayable (kv_ops J) kv_new"
  unfolding replayable_def
  by (intro exI [of _ "kv_ok J"] conjI)
    (simp_all add: kv_ops_def kv.replayable_state_machine_axioms, simp add: kv_ok_def kv_new_def)

theorem one_replicated_machine_witness:
  "\<exists>cl0 cl r q. cluster_start (solo_env (kv_ops number_kv_json)) in_memory_new kv_new sample_configs = Some cl0 \<and>
     cluster_run (solo_env (kv_ops number_kv_json)) kv_new restarting cl0 = Some cl \<and>
     Restarts 2 0 \<in> set restarting \<and>
     hm_get (cl_runners cl) 1 = Some r \<and> hm_get (cl_runners cl) 2 = Some q \<and>
     r_machine r = kv_apply kv_new (lit ''set k v'') \<and> r_machine q = r_machine r"
proof -
  let ?M = "kv_ops number_kv_json"
  obtain cl0 cl r q where h: "cluster_start (cluster_env in_memory_ops ?M min_rng) in_memory_new kv_new sample_configs = Some cl0"
      "cluster_run (cluster_env in_memory_ops ?M min_rng) kv_new restarting cl0 = Some cl"
      "clean_run (cluster_env in_memory_ops ?M min_rng) kv_new restarting cl0"
      "hm_get (cl_runners cl) 1 = Some r" "hm_get (cl_runners cl) 2 = Some q"
      "commit_index (r_node r) = 1" "commit_index (r_node q) = 1" "r_machine r = sm_apply ?M kv_new (lit ''set k v'')"
    using sample_restarting [of ?M kv_new] by (elim exE conjE) (rule that)
  obtain cs where cs: "\<forall>i p. hm_get (cl_runners cl) i = Some p \<longrightarrow>
      last_applied (r_node p) = commit_index (r_node p) \<and> commit_index (r_node p) \<le> length cs \<and>
      r_machine p = sm_run (sm_apply ?M) (take (commit_index (r_node p)) cs) kv_new"
    using one_replicated_machine [OF in_memory_durable.durable_runner_axioms min_rng_ok sample_configs_ok
        in_memory_new_ok h(1-3)] key_value_replayable [OF number_kv_json_ok] by blast
  have "r_machine q = r_machine r" using cs h(4-7) by metis
  moreover have "r_machine r = kv_apply kv_new (lit ''set k v'')" using h(8) by (simp add: kv_ops_def)
  moreover have "Restarts 2 0 \<in> set restarting" by (simp add: restarting_def)
  ultimately show ?thesis using h(1,2,4,5) unfolding solo_env_def by blast
qed

text \<open>
  C6. A leader only appends. While a runner leads before and after an event, every entry of its log stays
  at its index until it is compacted; a proposal adds one entry of its term at the end, with the command
  proposed, and no other event changes the length.
\<close>

theorem leader_append_only:
  assumes "runner_step E ev r = Some r'" and "role (r_node r) = Leader" and "role (r_node r') = Leader"
  shows "log_end (r_node r') = log_end (r_node r) + (if \<exists>v. ev = Commanded (Propose v) then 1 else 0) \<and>
    (\<forall>i. snapshot_last_included_index (r_node r') < i \<longrightarrow> i \<le> log_end (r_node r) \<longrightarrow>
       entry_at (r_node r') i = entry_at (r_node r) i) \<and>
    (\<forall>v. ev = Commanded (Propose v) \<longrightarrow> snapshot_last_included_index (r_node r') \<le> log_end (r_node r) \<longrightarrow>
       entry_at (r_node r') (log_end (r_node r) + 1) =
         Some \<lparr>le_term = current_term (r_node r), le_command = v\<rparr>)"
proof (cases "installs_snapshot ev")
  case True
  then obtain sender req where ev: "ev = Received sender (InstallSnapshot req)"
    by (cases ev rule: installs_snapshot.cases) auto
  then obtain k where "on_install_snapshot E sender req (r\<lparr>r_inbound_count := k\<rparr>) = Some r'"
    using assms(1) process_message_installs by (fastforce simp: runner_step_def)
  from on_install_snapshot_effect [OF this] have "r_node r' = r_node r"
    using assms(3) by (auto simp: restore_from_storage_Some_iff)
  then show ?thesis using ev by simp
next
  case False
  obtain m outs where h: "react (en_rng E) ev (r_node r) = Some (m, outs)" "handled E r (m, outs) r'"
    using runner_step_reacts [OF assms(1) False] by (metis surj_pair)
  have m: "role m = Leader" "cut_log m (r_node r')"
    using h(2) assms(3) by (simp_all add: handled_def same_election_def)
  have "(proposal ev (r_node r) = None) = (\<nexists>v. ev = Commanded (Propose v))"
    using assms(2) by (auto simp: proposal_def split: runner_event.splits command.splits)
  then show ?thesis using leader_log [OF h(1) m] assms(2) by auto
qed

theorem leader_append_only_witness:
  "\<exists>r'. runner_step (solo_env journal_ops) (Commanded (Propose (lit ''d''))) (solo_runner leader [] in_memory_new) = Some r' \<and>
     entry_at (r_node r') 3 = entry_at leader 3 \<and>
     entry_at (r_node r') 4 = Some \<lparr>le_term = 2, le_command = lit ''d''\<rparr>"
proof -
  let ?r = "solo_runner leader ([] :: str list) in_memory_new"
  obtain r' where r': "runner_step (solo_env journal_ops) (Commanded (Propose (lit ''d''))) ?r = Some r'"
    "role (r_node r') = Leader" "snapshot_last_included_index (r_node r') < 3"
    by (simp add: solo_env_def solo_runner_def sample_config_def eval_runner eval_cluster eval_samples)
  have l: "r_node ?r = leader" "role leader = Leader" "current_term leader = 2"
    by (simp_all add: solo_runner_def leader_def follower_def)
  from leader_append_only [OF r'(1) _ r'(2)] r' l show ?thesis by simp
qed

text \<open>
  C23. No state machine safety. Three nodes can apply different commands at the same index: a run of
  this cluster, without any restart or lost vote, ends with node 1 having applied \<open>a, b, c\<close> and node
  3 having applied \<open>x\<close>, both with index 1 committed. A follower acknowledges the length of its own log
  instead of the last entry it was sent, and the leader counts entries that the follower never had.
\<close>

theorem state_machines_diverge:
  "\<exists>cl r1 r3. sample_run unsafe_events = Some cl \<and>
     hm_get (cl_runners cl) 1 = Some r1 \<and> hm_get (cl_runners cl) 3 = Some r3 \<and>
     1 \<le> commit_index (r_node r1) \<and> 1 \<le> commit_index (r_node r3) \<and>
     r_machine r1 = [lit ''a'', lit ''b'', lit ''c''] \<and> r_machine r3 = [lit ''x'']"
proof -
  obtain cl where cl: "sample_run unsafe_events = Some cl"
    and m: "map (\<lambda>(i, r). (i, commit_index (r_node r), r_machine r)) (cl_runners cl) =
      [(1, 3, [lit ''a'', lit ''b'', lit ''c'']), (2, 0, []), (3, 1, [lit ''x''])]"
    using unsafe_commit by (cases "sample_run unsafe_events") auto
  then obtain r1 r2 r3 where rs: "cl_runners cl = [(1, r1), (2, r2), (3, r3)]"
    "commit_index (r_node r1) = 3" "r_machine r1 = [lit ''a'', lit ''b'', lit ''c'']"
    "commit_index (r_node r3) = 1" "r_machine r3 = [lit ''x'']"
    by (auto simp: map_eq_Cons_conv)
  then show ?thesis using cl by (intro exI [of _ cl] exI [of _ r1] exI [of _ r3]) simp
qed

text \<open>
  C24. No election safety across a crash in the middle of a handler. The runner sends its answer before
  it saves the node. Take the cluster of C1 and let, besides its events, one process stop between the
  answer to a vote request and the save, and start again: it forgets the vote, grants another one in
  the same term, and two nodes lead term 1. Without such a stop the run is one of the cluster of C1.
\<close>

theorem crash_breaks_election_safety:
  "(\<exists>cl0 cl r1 r2. cluster_start sample_env in_memory_new [] sample_configs = Some cl0 \<and>
     faulty_run sample_env [] double_vote cl0 = Some cl \<and> length (filter (\<lambda>e. \<exists>k. e = Crash k) double_vote) = 1 \<and>
     hm_get (cl_runners cl) 1 = Some r1 \<and> hm_get (cl_runners cl) 2 = Some r2 \<and>
     role (r_node r1) = Leader \<and> role (r_node r2) = Leader \<and>
     current_term (r_node r1) = 1 \<and> current_term (r_node r2) = 1) \<and>
   (\<forall>E m0 evs cl. faulty_run E m0 (map Whole evs) cl = cluster_run E (m0 :: 'm) evs (cl :: ('s, 'm) cluster))"
proof
  obtain cl0 cl where run: "cluster_start sample_env in_memory_new [] sample_configs = Some cl0"
      "faulty_run sample_env [] double_vote cl0 = Some cl"
    and m: "map (\<lambda>(i, r). (i, role (r_node r), current_term (r_node r))) (cl_runners cl) =
      [(1, Leader, 1), (2, Leader, 1), (3, Follower, 1)]"
    using double_vote_run by (elim exE conjE) (rule that)
  have one: "length (filter (\<lambda>e. \<exists>k. e = Crash k) double_vote) = 1" by (simp add: double_vote_def)
  obtain r1 r2 r3 where "cl_runners cl = [(1, r1), (2, r2), (3, r3)]" "role (r_node r1) = Leader"
      "role (r_node r2) = Leader" "current_term (r_node r1) = 1" "current_term (r_node r2) = 1"
    using m by (auto simp: map_eq_Cons_conv)
  then show "\<exists>cl0 cl r1 r2. cluster_start sample_env in_memory_new [] sample_configs = Some cl0 \<and>
     faulty_run sample_env [] double_vote cl0 = Some cl \<and> length (filter (\<lambda>e. \<exists>k. e = Crash k) double_vote) = 1 \<and>
     hm_get (cl_runners cl) 1 = Some r1 \<and> hm_get (cl_runners cl) 2 = Some r2 \<and>
     role (r_node r1) = Leader \<and> role (r_node r2) = Leader \<and>
     current_term (r_node r1) = 1 \<and> current_term (r_node r2) = 1"
    using run one
    by (intro exI [of _ cl0] exI [of _ cl] exI [of _ r1] exI [of _ r2]) simp
qed (simp add: faulty_run_whole)

subsection \<open>A cluster of one node\<close>

text \<open>
  C40. A lone node never leads. In a cluster of one node, started on an empty storage, whatever ticks,
  forced elections, proposals and restarts happen: no node is ever on record as a leader, nothing is
  ever sent, and the node does not lead, has an empty log and refuses every proposal, although its own
  vote is a majority.
\<close>

theorem lone_node_never_leads:
  assumes "durable_runner S good" and "gen_range_ok rng" and "cluster_config_ok [cfg]"
    and "good s0" and "\<forall>i. st_load S s0 i = None"
    and "cluster_start (cluster_env S M rng) s0 m0 [cfg] = Some cl0"
    and "cluster_run (cluster_env S M rng) m0 evs cl0 = Some cl"
  shows "cl_elected cl = [] \<and> cl_net cl = [] \<and>
    (\<exists>r. hm_get (cl_runners cl) (cfg_id cfg) = Some r \<and> majority (r_node r) = 1 \<and> role (r_node r) \<noteq> Leader \<and>
      log (r_node r) = [] \<and> (\<forall>v. propose_command v (r_node r) = Some (r_node r, None)))"
proof -
  have l: "lonely cl" and inv: "cluster_inv good (cluster_env S M rng) {cfg_id cfg} cl"
    using durable_runner.lonely_reachable [OF assms(1) _ _ _ assms(3-7)]
      durable_runner.cluster_reachable_inv [OF assms(1) _ _ _ assms(3-7)] assms(2) by (simp_all add: cluster_env_def)
  then obtain r where r: "hm_get (cl_runners cl) (cfg_id cfg) = Some r" "peers (r_node r) = []"
    using lone_runner by blast
  with l show ?thesis by (simp add: lonely_def majority_def proposal_refused)
qed

theorem lone_node_never_leads_witness:
  "\<exists>cl0 cl r. cluster_start sample_env in_memory_new [] [sample_config 1 []] = Some cl0 \<and>
     cluster_run sample_env [] [Ticks 1, Ticks 1, Commands 1 ForceElection, Restarts 1 5, Commands 1 ForceElection,
       Commands 1 (Propose (lit ''a''))] cl0 = Some cl \<and>
     hm_get (cl_runners cl) 1 = Some r \<and> votes_received (r_node r) = {1} \<and> majority (r_node r) = 1 \<and>
     role (r_node r) \<noteq> Leader \<and> log (r_node r) = []"
proof -
  let ?evs = "[Ticks 1, Ticks 1, Commands 1 ForceElection, Restarts 1 5, Commands 1 ForceElection,
    Commands 1 (Propose (lit ''a''))]"
  obtain cl0 cl where h: "cluster_start sample_env in_memory_new [] [sample_config 1 []] = Some cl0"
      "cluster_run sample_env [] ?evs cl0 = Some cl"
      "map (\<lambda>(i, r). (i, votes_received (r_node r))) (cl_runners cl) = [(1, {1})]"
    using lone_campaigns by (elim exE conjE) (rule that)
  obtain r where r: "cl_runners cl = [(1, r)]" "votes_received (r_node r) = {1}"
    using h(3) by (auto simp: map_eq_Cons_conv)
  have cfg: "cluster_config_ok [sample_config 1 []]" "cfg_id (sample_config 1 []) = 1"
    by (simp_all add: cluster_config_ok_def sample_config_def config_ok_def config_u64_def hm_ok_def hm_keys_def u64_limit_def)
  from lone_node_never_leads [OF in_memory_durable.durable_runner_axioms min_rng_ok cfg(1) in_memory_new_ok
      h(1,2) [unfolded sample_env_def]]
  have "majority (r_node r) = 1 \<and> role (r_node r) \<noteq> Leader \<and> log (r_node r) = []" using r(1) cfg(2) by simp
  then show ?thesis using h(1,2) r
    by - (rule exI [of _ cl0], rule exI [of _ cl], rule exI [of _ r], simp)
qed

subsection \<open>The runner and its node\<close>

text \<open>
  C20. The runner implements the reactions of its node, for every event. A tick, a command or a message
  other than InstallSnapshot changes the election state of the node exactly as \<open>react\<close> says, hands the
  transport exactly the messages of that reaction in order, leaves the configuration, and ends by saving
  the node with the snapshot of its machine, unless it leaves node, machine and storage untouched. An
  InstallSnapshot acts as \<open>installed\<close> says: one that is not of an old term and whose data the machine restores makes the node a
  follower of its sender, in its term and without a vote, with an empty log that starts after the
  snapshot, all of it committed and applied, and saves that with the data; any other leaves node and
  storage. Either way the one message sent is the answer, which says which of the two happened.
\<close>

theorem runner_refines_node:
  assumes "runner_step E ev r = Some r'"
  shows "(\<not> installs_snapshot ev \<longrightarrow> (\<exists>n outs. react (en_rng E) ev (r_node r) = Some (n, outs) \<and>
      current_term (r_node r') = current_term n \<and> voted_for (r_node r') = voted_for n \<and>
      role (r_node r') = role n \<and> votes_received (r_node r') = votes_received n \<and>
      r_communication r' = send_all E outs (r_communication r) \<and> r_config r' = r_config r \<and>
      (r_storage r' = st_save (en_storage E)
          (from_node (r_node r') (sm_snapshot (en_machine E) (r_machine r'))) (r_storage r) \<or>
       r_storage r' = r_storage r \<and> r_node r' = r_node r \<and> r_machine r' = r_machine r))) \<and>
    (\<forall>sender req. ev = Received sender (InstallSnapshot req) \<longrightarrow> installed E sender req r r')"
proof (intro conjI allI impI)
  assume "\<not> installs_snapshot ev"
  then obtain out where h: "react (en_rng E) ev (r_node r) = Some out" "handled E r out r'"
    using runner_step_reacts [OF assms] by blast
  show "\<exists>n outs. react (en_rng E) ev (r_node r) = Some (n, outs) \<and>
      current_term (r_node r') = current_term n \<and> voted_for (r_node r') = voted_for n \<and>
      role (r_node r') = role n \<and> votes_received (r_node r') = votes_received n \<and>
      r_communication r' = send_all E outs (r_communication r) \<and> r_config r' = r_config r \<and>
      (r_storage r' = st_save (en_storage E)
          (from_node (r_node r') (sm_snapshot (en_machine E) (r_machine r'))) (r_storage r) \<or>
       r_storage r' = r_storage r \<and> r_node r' = r_node r \<and> r_machine r' = r_machine r)"
    by (rule exI [of _ "fst out"], rule exI [of _ "snd out"]) (use h in \<open>simp add: handled_def same_election_def\<close>)
qed (use assms step_installs in blast)

theorem runner_refines_node_witness:
  "(\<exists>r'. runner_step (solo_env journal_ops) (Commanded ForceElection) (solo_runner follower [] in_memory_new) = Some r' \<and>
     r_communication r' = [(2, RequestVote \<lparr>rv_term = 3, rv_candidate_id = 1, rv_last_log_index = 3, rv_last_log_term = 2\<rparr>),
       (3, RequestVote \<lparr>rv_term = 3, rv_candidate_id = 1, rv_last_log_index = 3, rv_last_log_term = 2\<rparr>)] \<and>
     voted_for (r_node r') = Some 1) \<and>
   (\<exists>r'. runner_step (solo_env journal_ops) (Received 2 (InstallSnapshot
       \<lparr>is_term = 4, is_leader_id = 2, is_last_included_index = 9, is_last_included_term = 3, is_data = []\<rparr>))
       (solo_runner candidate [] in_memory_new) = Some r' \<and>
     r_communication r' = [(2, InstallSnapshotResponse \<lparr>isr_term = 4, isr_from = 1, isr_success = True\<rparr>)] \<and>
     role (r_node r') = Follower \<and> log_end (r_node r') = 9)"
proof (intro conjI)
  let ?r = "solo_runner follower [] in_memory_new"
  obtain r' where s: "runner_step (solo_env journal_ops) (Commanded ForceElection) ?r = Some r'"
    by (simp add: solo_env_def solo_runner_def sample_config_def eval_runner eval_cluster eval_samples)
  have "react min_rng (Commanded ForceElection) follower = Some (n, outs) \<Longrightarrow>
      outs = [(2, RequestVote \<lparr>rv_term = 3, rv_candidate_id = 1, rv_last_log_index = 3, rv_last_log_term = 2\<rparr>),
        (3, RequestVote \<lparr>rv_term = 3, rv_candidate_id = 1, rv_last_log_index = 3, rv_last_log_term = 2\<rparr>)] \<and>
      voted_for n = Some 1" for n outs
    by (auto simp: react_def eval_samples outbound_to_def)
  moreover have "send_all (solo_env journal_ops) outs [] = outs" for outs by (simp add: send_all_outbox)
  ultimately show "\<exists>r'. runner_step (solo_env journal_ops) (Commanded ForceElection) ?r = Some r' \<and>
     r_communication r' = [(2, RequestVote \<lparr>rv_term = 3, rv_candidate_id = 1, rv_last_log_index = 3, rv_last_log_term = 2\<rparr>),
       (3, RequestVote \<lparr>rv_term = 3, rv_candidate_id = 1, rv_last_log_index = 3, rv_last_log_term = 2\<rparr>)] \<and>
     voted_for (r_node r') = Some 1"
    using runner_refines_node [OF s, THEN conjunct1] s by (auto simp: solo_runner_def)
next
  let ?r = "solo_runner candidate ([] :: str list) in_memory_new"
  let ?q = "\<lparr>is_term = 4, is_leader_id = 2, is_last_included_index = 9, is_last_included_term = 3, is_data = []\<rparr> :: install_snapshot"
  obtain r' where s: "runner_step (solo_env journal_ops) (Received 2 (InstallSnapshot ?q)) ?r = Some r'"
    by (simp add: solo_env_def solo_runner_def sample_config_def eval_runner eval_cluster eval_samples
        on_install_snapshot_def snapshot_reply_def from_node_def restore_from_storage_def uclamp_def)
  have r: "r_node ?r = candidate" "r_communication ?r = []" "sm_restore journal_ops m b = (m, Inr ())" for m b
    by (simp_all add: solo_runner_def journal_ops_def default_restore_def)
  have c: "current_term candidate = 3" by (simp add: candidate_def follower_def)
  show "\<exists>r'. runner_step (solo_env journal_ops) (Received 2 (InstallSnapshot ?q)) ?r = Some r' \<and>
     r_communication r' = [(2, InstallSnapshotResponse \<lparr>isr_term = 4, isr_from = 1, isr_success = True\<rparr>)] \<and>
     role (r_node r') = Follower \<and> log_end (r_node r') = 9"
    using runner_refines_node [OF s, THEN conjunct2, rule_format, OF refl] s
    by (intro exI [of _ r']) (simp add: installed_def r c outbox_ops_def log_end_def)
qed

subsection \<open>Restarts\<close>

text \<open>
  C21. Recovery from a crash. Run a durable runner for any number of turns, over any storage that keeps
  its contract, and stop the process after one of them. A new process with the same configuration on
  the storage that is left always comes up, as a follower in the old term with the old vote, log and
  snapshot position, and with the old commit index as far as it lies inside the log; it is durable again.
\<close>

theorem crash_recovery:
  assumes "durable_runner S good" and "en_storage E = S" and "gen_range_ok (en_rng E)"
    and "good (r_storage r)" and "durable E r" and "runner_ok r"
    and "config_ok (r_config r)" and "config_u64 (r_config r)"
    and "run_turns E inputs next_tick r = Some (q, next_tick', e)" and "log_end (r_node q) < u64_limit"
    and "snd (co_start (en_communication E) (cfg_addr (r_config r)) c) = Inr ()"
  shows "\<exists>r2. restart E k now (r_config r) c (r_storage q) m = Some (r2, Inr ()) \<and>
    durable E r2 \<and> runner_ok r2 \<and> role (r_node r2) = Follower \<and>
    current_term (r_node r2) = current_term (r_node q) \<and> voted_for (r_node r2) = voted_for (r_node q) \<and>
    log (r_node r2) = log (r_node q) \<and>
    snapshot_last_included_index (r_node r2) = snapshot_last_included_index (r_node q) \<and>
    snapshot_last_included_term (r_node r2) = snapshot_last_included_term (r_node q) \<and>
    min (commit_index (r_node r2)) (log_end (r_node r2)) =
      max (snapshot_last_included_index (r_node q)) (min (commit_index (r_node q)) (log_end (r_node q)))"
proof -
  have d: "durable E q" using durable_runner.run_turns_durable [OF assms(1,9,2,4,5)] by blast
  have ok: "nid (r_node q) = cfg_id (r_config r)"
    using run_turns_ok [OF assms(9,3,6)] run_turns_config [OF assms(9)] by (simp add: runner_ok_def)
  obtain x where x: "st_load (en_storage E) (r_storage q) (cfg_id (r_config r)) = Some x" "ss_view x = node_view (r_node q)"
    using d ok by (auto simp: durable_def)
  have f: "ss_node_id x = cfg_id (r_config r)" "ss_log x = log (r_node q)"
    "ss_last_included_index x = snapshot_last_included_index (r_node q)"
    using x(2) ok ss_view_fields [of x] node_view_fields [of "r_node q"] by simp_all
  have "ss_last_included_index x + length (ss_log x) < u64_limit" using f assms(10) by (simp add: log_end_def)
  from restart_total [OF assms(7) x(1) this assms(11)] obtain r2
    where r2: "restart E k now (r_config r) c (r_storage q) m = Some (r2, Inr ())" by blast
  note v = restart_view [OF r2 x(1) f(1)]
  have view: "node_view (r_node r2) = node_view (r_node q)" using v(1) x(2) by simp
  have ok2: "runner_ok r2" "durable E r2" "role (r_node r2) = Follower" using v assms(3,8) by blast+
  have "current_term (r_node r2) = current_term (r_node q) \<and> voted_for (r_node r2) = voted_for (r_node q) \<and>
    log (r_node r2) = log (r_node q) \<and>
    snapshot_last_included_index (r_node r2) = snapshot_last_included_index (r_node q) \<and>
    snapshot_last_included_term (r_node r2) = snapshot_last_included_term (r_node q)"
    using view by (metis node_view_fields)
  moreover have "snapshot_last_included_index (r_node r2) \<le> commit_index (r_node r2)"
    using ok2(1) by (simp add: runner_ok_def inv_defs)
  then have "min (commit_index (r_node r2)) (log_end (r_node r2)) =
      max (snapshot_last_included_index (r_node r2)) (min (commit_index (r_node r2)) (log_end (r_node r2)))"
    by (simp add: log_end_def)
  ultimately show ?thesis using r2 ok2 arg_cong [OF view, of ss_commit_index] by (simp add: node_view_fields)
qed

theorem crash_recovery_witness:
  "\<exists>q t r2. run_turns (solo_env journal_ops) [(5, Some ForceElection, 5)] 5
       (solo_runner candidate [] (saved candidate [])) = Some (q, t, Continue) \<and>
     restart (solo_env journal_ops) 0 9 (sample_config 1 [2, 3]) [] (r_storage q) [] = Some (r2, Inr ()) \<and>
     role (r_node r2) = Follower \<and> current_term (r_node r2) = 4 \<and> voted_for (r_node r2) = Some 1"
proof -
  let ?r = "solo_runner candidate ([] :: str list) (saved candidate [])"
  obtain q t where q: "run_turns (solo_env journal_ops) [(5, Some ForceElection, 5)] 5 ?r = Some (q, t, Continue)"
      "log_end (r_node q) < u64_limit" "current_term (r_node q) = 4" "voted_for (r_node q) = Some 1"
    by (simp add: run_turn_def process_communication.simps maybe_report_runtime_metrics_def from_millis_def solo_runner_def
        sample_config_def saved_def eval_runner eval_cluster eval_samples log_end_def)
  have r: "in_memory_ok (r_storage ?r)" "durable (solo_env journal_ops) ?r" "runner_ok ?r"
      "config_ok (r_config ?r)" "config_u64 (r_config ?r)"
    using saved_good solo_runner_durable solo_runner_ok [OF _ _ samples_inv(2)] sample_config_ok
    by (simp_all add: solo_runner_def)
  have e: "en_storage (solo_env journal_ops) = in_memory_ops" "gen_range_ok (en_rng (solo_env journal_ops))"
      "snd (co_start (en_communication (solo_env journal_ops)) (cfg_addr (r_config ?r)) []) = Inr ()"
    by (simp_all add: min_rng_ok outbox_ops_def)
  from crash_recovery [OF in_memory_durable.durable_runner_axioms e(1,2) r q(1,2) e(3), of 0 9 "[]"]
  obtain r2 where "restart (solo_env journal_ops) 0 9 (r_config ?r) [] (r_storage q) [] = Some (r2, Inr ())"
      "role (r_node r2) = Follower" "current_term (r_node r2) = current_term (r_node q)"
      "voted_for (r_node r2) = voted_for (r_node q)" by blast
  then show ?thesis
    using q by (intro exI [of _ q] exI [of _ t] exI [of _ r2]) (simp add: solo_runner_def del: run_turns.simps)
qed

text \<open>
  C25. The key-value store survives a restart. A runner over a storage that holds its node and the
  snapshot of its key-value store, every committed entry applied, is started again: the store is the old
  one, although the committed commands that are still in the log are applied to it a second time.
\<close>

theorem key_value_restart:
  assumes "kv_json_ok J" and "finite (dom (kv_map m0))" and "en_machine E = kv_ops J"
    and "restart E k now cfg c s m = Some (r2, Inr ())"
    and "st_load (en_storage E) s (cfg_id cfg) = Some (from_node (r_node r) (kv_snapshot J (r_machine r)))"
    and "machine_history E m0 r"
    and "last_applied (r_node r) = min (commit_index (r_node r)) (log_end (r_node r))"
  shows "r_machine r2 = r_machine r"
proof -
  have "kv_ok J m0" using assms(1,2) by (simp add: kv_ok_def)
  then show ?thesis
    using kv.restart_same_machine [OF assms(4) _ _ assms(5,6) _ assms(7)] assms(3) by (simp add: kv_ops_def)
qed

theorem key_value_restart_witness:
  "\<exists>r2. restart (solo_env (kv_ops number_kv_json)) 0 0 (sample_config 1 [2, 3]) []
       (saved one_write (kv_snapshot number_kv_json (kv_apply kv_new (lit ''set k v'')))) kv_new = Some (r2, Inr ()) \<and>
     r_machine r2 = kv_apply kv_new (lit ''set k v'') \<and> committed_commands one_write = [lit ''set k v'']"
proof -
  let ?M = "kv_apply kv_new (lit ''set k v'')" and ?E = "solo_env (kv_ops number_kv_json)"
  let ?s = "saved one_write (kv_snapshot number_kv_json ?M)"
  let ?r = "solo_runner one_write ?M ?s"
  obtain r2 where r2: "restart ?E 0 0 (sample_config 1 [2, 3]) [] ?s kv_new = Some (r2, Inr ())"
    by (rule exE [OF solo_restart [OF small_nodes(1,2)]])
  have l: "st_load (en_storage ?E) ?s (cfg_id (sample_config 1 [2, 3])) =
      Some (from_node (r_node ?r) (kv_snapshot number_kv_json (r_machine ?r)))"
    using saved_load [of "kv_ops number_kv_json" one_write "kv_snapshot number_kv_json ?M"]
    by (simp add: solo_runner_def sample_config_def one_write_def)
  have h: "machine_history ?E kv_new ?r"
    by (auto simp: machine_history_def solo_runner_def one_write_def follower_def log_end_def applied_commands_def
        kv_ops_def intro: exI [of _ "[]"])
  have "r_machine r2 = r_machine ?r"
    by (rule key_value_restart [OF number_kv_json_ok _ _ r2 l h])
      (simp_all add: kv_new_def solo_runner_def one_write_def follower_def log_end_def)
  then show ?thesis
    using r2 by (auto simp: solo_runner_def committed_commands_def one_write_def follower_def log_end_def)
qed

text \<open>
  C26. The counter counts twice. A restart restores the snapshot of the counter, which already holds every
  committed command, and applies the committed commands of the log again: the counter that comes up is
  the saved one with those commands applied once more.
\<close>

theorem counter_restart:
  assumes "counter_ok M" and "en_machine E = counter_ops"
    and "restart E k now cfg c s m = Some (r2, Inr ())"
    and "st_load (en_storage E) s (cfg_id cfg) = Some (from_node n (counter_snapshot M))"
  shows "r_machine r2 = sm_run counter_apply (committed_commands n) M"
  using counter.restart_machine [OF assms(3) _ _ assms(4,1)] assms(2) by (simp add: counter_ops_def)

theorem counter_restart_witness:
  "\<exists>r2. restart (solo_env counter_ops) 0 0 (sample_config 1 [2, 3]) []
       (saved two_incs (counter_snapshot \<lparr>csm_value = 2\<rparr>)) counter_new = Some (r2, Inr ()) \<and>
     csm_value (r_machine r2) = 4"
proof -
  let ?M = "\<lparr>csm_value = 2\<rparr>"
  have M: "counter_ok ?M" by (simp add: counter_ok_def i64_min_def i64_max_def)
  obtain r2 where r2: "restart (solo_env counter_ops) 0 0 (sample_config 1 [2, 3]) []
      (saved two_incs (counter_snapshot ?M)) counter_new = Some (r2, Inr ())"
    by (rule exE [OF solo_restart [OF small_nodes(3,4)]])
  have l: "st_load (en_storage (solo_env counter_ops)) (saved two_incs (counter_snapshot ?M)) (cfg_id (sample_config 1 [2, 3])) =
      Some (from_node two_incs (counter_snapshot ?M))"
    using saved_load [of counter_ops two_incs] by (simp add: sample_config_def two_incs_def)
  have "r_machine r2 = sm_run counter_apply (committed_commands two_incs) ?M"
    by (rule counter_restart [OF M _ r2 l]) simp
  moreover have "committed_commands two_incs = replicate 2 (lit ''inc'')"
    by (simp add: committed_commands_def two_incs_def follower_def log_end_def numeral_2_eq_2)
  ultimately show ?thesis using r2
    by (simp add: numeral_2_eq_2 counter_apply_def counter_inc_parses saturating_add_def i64_min_def i64_max_def)
qed

text \<open>
  A vote is answered before it is saved. When the answer to a vote request is handed to the transport
  the storage is still the old one; a process that stops there and starts again on it is back in the
  state of before the request, without the vote that it has given away.
\<close>

theorem vote_answered_before_saved:
  assumes "answer_request_vote E sender req r = Some r1" and "durable E r" and "runner_ok r"
    and "restart E k now (r_config r) c (r_storage r1) m = Some (r2, Inr ())"
  shows "r_storage r1 = r_storage r \<and>
    (\<exists>resp. r_communication r1 = fst (co_send (en_communication E) sender (RequestVoteResponse resp) (r_communication r)) \<and>
       (rvr_vote_granted resp \<longrightarrow> voted_for (r_node r1) = Some (rv_candidate_id req))) \<and>
    current_term (r_node r2) = current_term (r_node r) \<and> voted_for (r_node r2) = voted_for (r_node r)"
proof -
  obtain n resp where h: "handle_request_vote (en_rng E) req (r_node r) = Some (n, resp)"
    and s: "send_or_log E sender (RequestVoteResponse \<lparr>rvr_term = rvr_term resp,
              rvr_vote_granted = rvr_vote_granted resp, rvr_from = nid n\<rparr>) (r\<lparr>r_node := n\<rparr>) = Some r1"
    using assms(1) by (auto simp: answer_request_vote_def bind_Some_iff Let_def)
  note e = send_or_log_effect [OF s]
  have same: "r_storage r1 = r_storage r" and n: "r_node r1 = n"
    and c: "r_communication r1 = fst (co_send (en_communication E) sender (RequestVoteResponse
      \<lparr>rvr_term = rvr_term resp, rvr_vote_granted = rvr_vote_granted resp, rvr_from = nid n\<rparr>) (r_communication r))"
    using e by auto
  have v: "rvr_vote_granted resp \<longrightarrow> voted_for n = Some (rv_candidate_id req)"
    using handle_request_vote_effect [OF h] by metis
  have sent: "\<exists>resp. r_communication r1 = fst (co_send (en_communication E) sender (RequestVoteResponse resp) (r_communication r)) \<and>
      (rvr_vote_granted resp \<longrightarrow> voted_for (r_node r1) = Some (rv_candidate_id req))"
    using c v n
    by (intro exI [of _ "\<lparr>rvr_term = rvr_term resp, rvr_vote_granted = rvr_vote_granted resp, rvr_from = nid n\<rparr>"]) simp
  have i: "nid (r_node r) = cfg_id (r_config r)" using assms(3) by (simp add: runner_ok_def)
  then obtain x where x: "st_load (en_storage E) (r_storage r1) (cfg_id (r_config r)) = Some x" "ss_view x = node_view (r_node r)"
    using assms(2) same by (auto simp: durable_def)
  have "ss_node_id x = cfg_id (r_config r)" using x(2) i ss_view_fields(1) [of x] node_view_fields(1) [of "r_node r"] by simp
  from restart_view(1) [OF assms(4) x(1) this] have "node_view (r_node r2) = node_view (r_node r)" using x(2) by simp
  then have "current_term (r_node r2) = current_term (r_node r) \<and> voted_for (r_node r2) = voted_for (r_node r)"
    by (metis node_view_fields(2,3))
  then show ?thesis using same sent by blast
qed

theorem vote_answered_before_saved_witness:
  "\<exists>r1 r2 r3. answer_request_vote (solo_env journal_ops) 2
       \<lparr>rv_term = 3, rv_candidate_id = 2, rv_last_log_index = 9, rv_last_log_term = 2\<rparr>
       (solo_runner follower [] (saved follower [])) = Some r1 \<and>
     restart (solo_env journal_ops) 0 0 (sample_config 1 [2, 3]) [] (r_storage r1) [] = Some (r2, Inr ()) \<and>
     answer_request_vote (solo_env journal_ops) 3
       \<lparr>rv_term = 3, rv_candidate_id = 3, rv_last_log_index = 9, rv_last_log_term = 2\<rparr> r2 = Some r3 \<and>
     r_communication r1 = [(2, RequestVoteResponse \<lparr>rvr_term = 3, rvr_vote_granted = True, rvr_from = 1\<rparr>)] \<and>
     r_communication r3 = [(3, RequestVoteResponse \<lparr>rvr_term = 3, rvr_vote_granted = True, rvr_from = 1\<rparr>)] \<and>
     voted_for (r_node r2) = None"
proof -
  let ?r = "solo_runner follower [] (saved follower [])" and ?E = "solo_env journal_ops"
  obtain r1 r2 r3 where h: "answer_request_vote ?E 2
        \<lparr>rv_term = 3, rv_candidate_id = 2, rv_last_log_index = 9, rv_last_log_term = 2\<rparr> ?r = Some r1"
      "restart ?E 0 0 (sample_config 1 [2, 3]) [] (r_storage r1) [] = Some (r2, Inr ())"
      "answer_request_vote ?E 3
        \<lparr>rv_term = 3, rv_candidate_id = 3, rv_last_log_index = 9, rv_last_log_term = 2\<rparr> r2 = Some r3"
      "r_communication r1 = [(2, RequestVoteResponse \<lparr>rvr_term = 3, rvr_vote_granted = True, rvr_from = 1\<rparr>)]"
      "r_communication r3 = [(3, RequestVoteResponse \<lparr>rvr_term = 3, rvr_vote_granted = True, rvr_from = 1\<rparr>)]"
    by (simp add: solo_runner_def saved_def sample_config_def eval_runner eval_cluster eval_samples)
  have "runner_ok ?r" by (rule solo_runner_ok) simp_all
  moreover have "r_config ?r = sample_config 1 [2, 3]" "r_node ?r = follower" by (simp_all add: solo_runner_def)
  ultimately have "voted_for (r_node r2) = None"
    using vote_answered_before_saved [OF h(1) solo_runner_durable, of 0 0 "[]" "[]" r2] h(2) samples_fields(10)
    by metis
  then show ?thesis using h by blast
qed

end
